(* ===== verification/Prelude.thy ===== *)
theory Prelude
  imports Complex_Main "HOL-Library.AList"
begin

text \<open>
  What the components share: the Go values the program is written over (time and duration
  in nanoseconds, fixed-width integers read as integers, byte strings and the functions of
  package \<^verbatim>\<open>strings\<close> the sources call) and generic lemmas on lists and
  bounded sequences. Strings are byte sequences, as in Go; a \<^typ>\<open>char\<close> is a byte.
\<close>

named_theorems op_defs \<open>definitions of the atomic operations, unfolded together by frame proofs\<close>

subsection \<open>Time and integers\<close>

type_synonym time = int       \<comment> \<open>time.Time: nanoseconds since an epoch\<close>
type_synonym duration = int   \<comment> \<open>time.Duration: nanoseconds\<close>

definition Second :: duration where
  "Second = 1000000000"

definition Millisecond :: duration where
  "Millisecond = 1000000"

definition Minute :: duration where
  "Minute = 60 * Second"

text \<open>
  Go's fixed-width signed integers are read as integers; a conversion that can change the
  value is written out with the two's complement wrap-around.
\<close>

definition wrap_signed :: "nat \<Rightarrow> int \<Rightarrow> int" where
  "wrap_signed w x = (x + 2 ^ (w - 1)) mod 2 ^ w - 2 ^ (w - 1)"

definition in_signed :: "nat \<Rightarrow> int \<Rightarrow> bool" where
  "in_signed w x \<longleftrightarrow> - (2 ^ (w - 1)) \<le> x \<and> x < 2 ^ (w - 1)"

lemma wrap_signed_id [simp]:
  assumes "0 < w" "in_signed w x"
  shows "wrap_signed w x = x"
proof -
  have two: "(2::int) ^ w = 2 * 2 ^ (w - 1)"
    using assms(1) by (cases w) simp_all
  have "(x + 2 ^ (w - 1)) mod 2 ^ w = x + 2 ^ (w - 1)"
    using assms(2) by (intro mod_pos_pos_trivial) (auto simp: in_signed_def two)
  then show ?thesis by (simp add: wrap_signed_def)
qed

lemma wrap_signed_range:
  assumes "0 < w"
  shows "in_signed w (wrap_signed w x)"
proof -
  have two: "(2::int) ^ w = 2 * 2 ^ (w - 1)"
    using assms by (cases w) simp_all
  have "0 \<le> (x + 2 ^ (w - 1)) mod 2 ^ w" "(x + 2 ^ (w - 1)) mod 2 ^ w < 2 ^ w"
    by simp_all
  then show ?thesis by (auto simp: in_signed_def wrap_signed_def two)
qed

subsection \<open>Strings\<close>

definition lower_letters :: string where
  "lower_letters = ''abcdefghijklmnopqrstuvwxyz''"

definition upper_letters :: string where
  "upper_letters = ''ABCDEFGHIJKLMNOPQRSTUVWXYZ''"

definition upper_char :: "char \<Rightarrow> char" where
  "upper_char c = (case map_of (zip lower_letters upper_letters) c of None \<Rightarrow> c | Some d \<Rightarrow> d)"

text \<open>\<^verbatim>\<open>strings.ToUpper\<close> on ASCII strings, the only ones the sources apply it to.\<close>

definition ToUpper :: "string \<Rightarrow> string" where
  "ToUpper s = map upper_char s"

text \<open>
  \<^verbatim>\<open>strings.EqualFold\<close> against an ASCII literal whose letters have no non-ASCII
  case variants (the only use in the sources compares with \<^verbatim>\<open>done\<close>).
\<close>

definition EqualFold :: "string \<Rightarrow> string \<Rightarrow> bool" where
  "EqualFold s t \<longleftrightarrow> ToUpper s = ToUpper t"

text \<open>\<^verbatim>\<open>strings.SplitN\<close> with a one-byte separator.\<close>

fun SplitN :: "string \<Rightarrow> char \<Rightarrow> nat \<Rightarrow> string list" where
  "SplitN s c 0 = []"
| "SplitN s c (Suc 0) = [s]"
| "SplitN s c (Suc (Suc n)) =
     (case dropWhile (\<lambda>x. x \<noteq> c) s of
        [] \<Rightarrow> [s]
      | _ # rest \<Rightarrow> takeWhile (\<lambda>x. x \<noteq> c) s # SplitN rest c (Suc n))"

text \<open>Decimal formatting, the verb \<^verbatim>\<open>%d\<close>.\<close>

definition digit :: "nat \<Rightarrow> char" where
  "digit n = ''0123456789'' ! n"

fun decimal :: "nat \<Rightarrow> string" where
  "decimal n = (if n < 10 then [digit n] else decimal (n div 10) @ [digit (n mod 10)])"

declare decimal.simps [simp del]

definition Itoa :: "int \<Rightarrow> string" where
  "Itoa x = (if x < 0 then CHR ''-'' # decimal (nat (- x)) else decimal (nat x))"

lemma upper_char_upper: "upper_char (upper_char c) = upper_char c"
proof (cases "c \<in> set lower_letters")
  case True
  then show ?thesis
    by (auto simp: lower_letters_def upper_letters_def upper_char_def)
next
  case False
  then have "map_of (zip lower_letters upper_letters) c = None"
    by (simp add: lower_letters_def upper_letters_def)
  then show ?thesis by (simp add: upper_char_def)
qed

lemma ToUpper_ToUpper [simp]: "ToUpper (ToUpper s) = ToUpper s"
  by (simp add: ToUpper_def upper_char_upper)

lemma takeWhile_sep: "c \<notin> set xs \<Longrightarrow> takeWhile (\<lambda>x. x \<noteq> c) (xs @ c # ys) = xs"
  by (induction xs) auto

lemma dropWhile_sep: "c \<notin> set xs \<Longrightarrow> dropWhile (\<lambda>x. x \<noteq> c) (xs @ c # ys) = c # ys"
  by (induction xs) auto

lemma SplitN_hit:
  "c \<notin> set xs \<Longrightarrow> SplitN (xs @ c # ys) c (Suc (Suc n)) = xs # SplitN ys c (Suc n)"
  by (simp add: takeWhile_sep dropWhile_sep)

lemma SplitN_two: "c \<notin> set xs \<Longrightarrow> SplitN (xs @ c # ys) c 2 = [xs, ys]"
  using SplitN_hit [of c xs ys 0] by (simp add: numeral_2_eq_2)

subsection \<open>Bounded sequences\<close>

text \<open>
  Two places of the scheduler keep a bounded sequence and make room by dropping an element:
  the action channel drops its oldest element, the history its oldest entry. The interface
  says what a client may rely on.
\<close>

locale bounded_log =
  fixes put :: "'a \<Rightarrow> 'a list \<Rightarrow> 'a list"
    and cap :: nat
  assumes put_bound: "length xs \<le> cap \<Longrightarrow> length (put x xs) \<le> cap"
    and put_mem: "x \<in> set (put x xs)"
    and put_subset: "set (put x xs) \<subseteq> insert x (set xs)"
    and put_keeps: "length xs < cap \<Longrightarrow> set xs \<subseteq> set (put x xs)"
begin

definition put_all :: "'a list \<Rightarrow> 'a list \<Rightarrow> 'a list" where
  "put_all ys xs = fold put ys xs"

lemma put_all_bound: "length xs \<le> cap \<Longrightarrow> length (put_all ys xs) \<le> cap"
  unfolding put_all_def by (induction ys arbitrary: xs) (auto intro: put_bound)

lemma put_all_subset: "set (put_all ys xs) \<subseteq> set ys \<union> set xs"
  unfolding put_all_def
proof (induction ys arbitrary: xs)
  case Nil
  then show ?case by simp
next
  case (Cons y ys)
  from Cons.IH [of "put y xs"] put_subset [of y xs] show ?case by auto
qed

lemma put_all_last: "ys \<noteq> [] \<Longrightarrow> last ys \<in> set (put_all ys xs)"
  unfolding put_all_def by (induction ys arbitrary: xs) (auto simp: put_mem)

end

subsection \<open>Registries\<close>

text \<open>
  The scheduler's pipelines and the manager's bridges are both registries: entries are added
  (or updated in place) under the key of their configuration and removed by key. The history
  of these events decides what is registered.
\<close>

fun registers :: "('i \<Rightarrow> 'k) \<Rightarrow> ('i + 'k) list \<Rightarrow> 'k \<Rightarrow> bool \<Rightarrow> bool" where
  "registers key [] k b = b"
| "registers key (Inl i # ops) k b = registers key ops k (key i = k \<or> b)"
| "registers key (Inr j # ops) k b = registers key ops k (j \<noteq> k \<and> b)"

locale registry =
  fixes look :: "'s \<Rightarrow> 'k \<Rightarrow> 'v option"
    and add :: "'i \<Rightarrow> 's \<Rightarrow> 's"
    and key :: "'i \<Rightarrow> 'k"
    and remove :: "'k \<Rightarrow> 's \<Rightarrow> 's"
    and inv :: "'s \<Rightarrow> bool"
  assumes inv_add: "inv s \<Longrightarrow> inv (add i s)"
    and inv_remove: "inv s \<Longrightarrow> inv (remove k s)"
    and look_add: "inv s \<Longrightarrow> look (add i s) (key i) \<noteq> None"
    and look_add_other: "inv s \<Longrightarrow> k \<noteq> key i \<Longrightarrow> look (add i s) k = look s k"
    and look_remove: "inv s \<Longrightarrow> look (remove k s) k = None"
    and look_remove_other: "inv s \<Longrightarrow> k \<noteq> j \<Longrightarrow> look (remove j s) k = look s k"
begin

definition run_ops :: "('i + 'k) list \<Rightarrow> 's \<Rightarrow> 's" where
  "run_ops ops s = fold (\<lambda>x. case x of Inl i \<Rightarrow> add i | Inr k \<Rightarrow> remove k) ops s"

lemma inv_run_ops: "inv s \<Longrightarrow> inv (run_ops ops s)"
  unfolding run_ops_def by (induction ops arbitrary: s) (auto intro: inv_add inv_remove split: sum.split)

lemma registered_after:
  "inv s \<Longrightarrow> look (run_ops ops s) k \<noteq> None \<longleftrightarrow> registers key ops k (look s k \<noteq> None)"
proof (induction ops arbitrary: s)
  case Nil
  then show ?case by (simp add: run_ops_def)
next
  case (Cons x ops)
  show ?case
  proof (cases x)
    case (Inl i)
    have "look (add i s) k \<noteq> None \<longleftrightarrow> key i = k \<or> look s k \<noteq> None"
      using look_add [OF Cons.prems] look_add_other [OF Cons.prems] by (cases "k = key i") auto
    with Cons.IH [OF inv_add [OF Cons.prems, of i]] show ?thesis by (simp add: run_ops_def Inl)
  next
    case (Inr j)
    have "look (remove j s) k \<noteq> None \<longleftrightarrow> j \<noteq> k \<and> look s k \<noteq> None"
      using look_remove [OF Cons.prems] look_remove_other [OF Cons.prems] by (cases "k = j") auto
    with Cons.IH [OF inv_remove [OF Cons.prems, of j]] show ?thesis by (simp add: run_ops_def Inr)
  qed
qed

end

end
