(* ===== verification/Json.thy ===== *)
theory Json
  imports Prelude
begin

text \<open>
  The part of Go's \<^verbatim>\<open>encoding/json\<close> the sources use, on parsed documents:
  decoding a value into a Go string, integer, float, map or slice. A document that is not
  JSON is \<^term>\<open>None\<close> where a payload is expected. A number literal is an integer literal
  or one with a fraction or an exponent, since Go refuses the latter for an integer.
  Decoding \<^verbatim>\<open>null\<close> into a string, an integer or a float leaves the variable as
  it was and is no error.
\<close>

datatype number = IntLit int | DecLit rat

datatype json =
    JNull
  | JBool bool
  | JNumber number
  | JString string
  | JArray "json list"
  | JObject "(string \<times> json) list"

datatype json_error = SyntaxError | UnmarshalTypeError

type_synonym 'a decoded = "json_error + 'a"

subsection \<open>Decoding scalars\<close>

text \<open>The first argument is the variable's value before the call.\<close>

fun unmarshal_string :: "string \<Rightarrow> json \<Rightarrow> string decoded" where
  "unmarshal_string old (JString s) = Inr s"
| "unmarshal_string old JNull = Inr old"
| "unmarshal_string old _ = Inl UnmarshalTypeError"

text \<open>The sources decode into int and int64, both 64 bits wide.\<close>

fun unmarshal_int :: "int \<Rightarrow> json \<Rightarrow> int decoded" where
  "unmarshal_int old (JNumber (IntLit n)) =
     (if in_signed 64 n then Inr n else Inl UnmarshalTypeError)"
| "unmarshal_int old JNull = Inr old"
| "unmarshal_int old _ = Inl UnmarshalTypeError"

text \<open>
  A float64 is represented by the exact value of its literal (rounding is not modelled);
  literals that round to infinity are refused.
\<close>

definition float64_range :: "rat \<Rightarrow> bool" where
  "float64_range x \<longleftrightarrow> \<bar>x\<bar> < 2 ^ 1024 - 2 ^ 970"

fun unmarshal_float :: "rat \<Rightarrow> json \<Rightarrow> rat decoded" where
  "unmarshal_float old (JNumber (IntLit n)) =
     (if float64_range (of_int n) then Inr (of_int n) else Inl UnmarshalTypeError)"
| "unmarshal_float old (JNumber (DecLit r)) =
     (if float64_range r then Inr r else Inl UnmarshalTypeError)"
| "unmarshal_float old JNull = Inr old"
| "unmarshal_float old _ = Inl UnmarshalTypeError"

text \<open>Decoding into a \<^verbatim>\<open>*int\<close>: null gives the nil pointer.\<close>

fun unmarshal_int_ptr :: "int option \<Rightarrow> json \<Rightarrow> int option decoded" where
  "unmarshal_int_ptr old (JNumber (IntLit n)) =
     (if in_signed 64 n then Inr (Some n) else Inl UnmarshalTypeError)"
| "unmarshal_int_ptr old JNull = Inr None"
| "unmarshal_int_ptr old _ = Inl UnmarshalTypeError"

subsection \<open>Decoding objects\<close>

text \<open>
  A \<^verbatim>\<open>map[string]json.RawMessage\<close> is an association list with distinct keys; a
  repeated key of the document overwrites the earlier value. Go iterates over a map in an
  unspecified order; the list's order is one of them, and no property depends on it.
\<close>

type_synonym raw_map = "(string \<times> json) list"

definition add_members :: "(string \<times> json) list \<Rightarrow> raw_map \<Rightarrow> raw_map" where
  "add_members kvs m = fold (\<lambda>(k, v). AList.update k v) kvs m"

fun unmarshal_map :: "raw_map \<Rightarrow> json \<Rightarrow> raw_map decoded" where
  "unmarshal_map old (JObject kvs) = Inr (add_members kvs old)"
| "unmarshal_map old JNull = Inr []"
| "unmarshal_map old _ = Inl UnmarshalTypeError"

text \<open>
  Struct fields match keys up to case folding, in which U+017F (bytes C5 BF) folds with
  \<^verbatim>\<open>s\<close> and U+212A (bytes E2 84 AA) with \<^verbatim>\<open>k\<close>.
\<close>

fun fold_name :: "string \<Rightarrow> string" where
  "fold_name (a # b # cs) =
     (if a = CHR 0xC5 \<and> b = CHR 0xBF then CHR ''S'' # fold_name cs
      else if a = CHR 0xE2 \<and> b = CHR 0x84 \<and> cs \<noteq> [] \<and> hd cs = CHR 0xAA
           then CHR ''K'' # fold_name (tl cs)
      else upper_char a # fold_name (b # cs))"
| "fold_name [a] = [upper_char a]"
| "fold_name [] = []"

definition field_matches :: "string \<Rightarrow> string \<Rightarrow> bool" where
  "field_matches name key \<longleftrightarrow> fold_name key = fold_name name"

text \<open>
  Decoding the members of an object into one field of a struct: every matching member is
  decoded into the field in turn. A type error is remembered and the decoding goes on.
\<close>

fun unmarshal_field :: "('a \<Rightarrow> json \<Rightarrow> 'a decoded) \<Rightarrow> string \<Rightarrow> (string \<times> json) list
    \<Rightarrow> 'a \<times> bool \<Rightarrow> 'a \<times> bool" where
  "unmarshal_field dec name [] st = st"
| "unmarshal_field dec name ((k, v) # kvs) (x, ok) =
     unmarshal_field dec name kvs
       (if field_matches name k
        then (case dec x v of Inl _ \<Rightarrow> (x, False) | Inr y \<Rightarrow> (y, ok))
        else (x, ok))"

subsection \<open>Lemmas\<close>

lemma map_of_add_members:
  "map_of (add_members kvs m) k =
     (case map_of (rev kvs) k of None \<Rightarrow> map_of m k | Some v \<Rightarrow> Some v)"
proof (induction kvs arbitrary: m)
  case Nil
  then show ?case by (simp add: add_members_def)
next
  case (Cons kv kvs)
  obtain a b where kv: "kv = (a, b)" by (cases kv)
  have "map_of (add_members (kv # kvs) m) k = map_of (add_members kvs (AList.update a b m)) k"
    by (simp add: add_members_def kv)
  also have "\<dots> = (case map_of (rev kvs) k of None \<Rightarrow> map_of (AList.update a b m) k | Some v \<Rightarrow> Some v)"
    by (rule Cons.IH)
  finally show ?case
    by (auto simp: kv update_conv' map_add_def split: option.splits)
qed

lemma distinct_add_members:
  "distinct (map fst m) \<Longrightarrow> distinct (map fst (add_members kvs m))"
  unfolding add_members_def
  by (induction kvs arbitrary: m) (auto simp: distinct_update)

lemma unmarshal_int_range: "unmarshal_int old v = Inr n \<Longrightarrow> in_signed 64 old \<Longrightarrow> in_signed 64 n"
  by (cases "(old, v)" rule: unmarshal_int.cases) (auto split: if_splits)

end
