(* ===== verification/Tasmota.thy ===== *)
theory Tasmota
  imports Json
begin

text \<open>
  \<^verbatim>\<open>internal/mqtt/tasmota.go\<close>: the payloads a Tasmota Zigbee bridge sends and
  receives. A Go pointer field that is nil when the JSON member is absent is an option.
\<close>

record SensorEvent =
  ev_BridgeName :: string
  ev_DeviceName :: string
  ev_ShortAddr :: string
  ev_Power :: "int option"
  ev_LinkQuality :: "int option"
  ev_BatteryPercentage :: "int option"
  ev_DailyIrrigationVolume :: "rat option"
  ev_LastValveOpenDuration :: "int option"
  ev_IrrigationEndTime :: "int option"

record ResultEvent =
  re_BridgeName :: string
  re_ZbSendDone :: bool

record ZbStatus3ValveResult =
  zr_DeviceName :: string
  zr_ShortAddr :: string
  zr_Power :: "int option"

subsection \<open>Sensor messages\<close>

text \<open>
  One optional numeric member: decoded into a fresh zero variable, kept when there was no
  error (so an explicit null counts as zero).
\<close>

definition get_int :: "raw_map \<Rightarrow> string \<Rightarrow> int option" where
  "get_int flds k =
     (case map_of flds k of None \<Rightarrow> None
      | Some v \<Rightarrow> (case unmarshal_int 0 v of Inl _ \<Rightarrow> None | Inr n \<Rightarrow> Some n))"

definition get_float :: "raw_map \<Rightarrow> string \<Rightarrow> rat option" where
  "get_float flds k =
     (case map_of flds k of None \<Rightarrow> None
      | Some v \<Rightarrow> (case unmarshal_float 0 v of Inl _ \<Rightarrow> None | Inr x \<Rightarrow> Some x))"

text \<open>One string member, decoded in place; a type error leaves the empty string.\<close>

definition get_string :: "raw_map \<Rightarrow> string \<Rightarrow> string" where
  "get_string flds k =
     (case map_of flds k of None \<Rightarrow> ''''
      | Some v \<Rightarrow> (case unmarshal_string '''' v of Inl _ \<Rightarrow> '''' | Inr s \<Rightarrow> s))"

definition sensor_event :: "string \<Rightarrow> raw_map \<Rightarrow> SensorEvent" where
  "sensor_event bridgeName flds =
     \<lparr> ev_BridgeName = bridgeName,
       ev_DeviceName = get_string flds ''Name'',
       ev_ShortAddr = get_string flds ''Device'',
       ev_Power = get_int flds ''Power'',
       ev_LinkQuality = get_int flds ''LinkQuality'',
       ev_BatteryPercentage = get_int flds ''BatteryPercentage'',
       ev_DailyIrrigationVolume = get_float flds ''dailyIrrigationVolume'',
       ev_LastValveOpenDuration = get_int flds ''lastValveOpenDuration'',
       ev_IrrigationEndTime = get_int flds ''irrigationEndTime'' \<rparr>"

fun sensor_events :: "string \<Rightarrow> raw_map \<Rightarrow> SensorEvent list" where
  "sensor_events bridgeName [] = []"
| "sensor_events bridgeName ((_, raw) # rest) =
     (case unmarshal_map [] raw of
        Inl _ \<Rightarrow> sensor_events bridgeName rest
      | Inr flds \<Rightarrow>
          (let ev = sensor_event bridgeName flds in
           if ev_DeviceName ev \<noteq> '''' \<or> ev_ShortAddr ev \<noteq> ''''
           then ev # sensor_events bridgeName rest
           else sensor_events bridgeName rest))"

text \<open>The wrapper struct with its one field \<^verbatim>\<open>ZbReceived\<close>.\<close>

fun unmarshal_ZbReceived :: "json \<Rightarrow> raw_map decoded" where
  "unmarshal_ZbReceived (JObject kvs) =
     (case unmarshal_field unmarshal_map ''ZbReceived'' kvs ([], True) of
        (m, ok) \<Rightarrow> if ok then Inr m else Inl UnmarshalTypeError)"
| "unmarshal_ZbReceived JNull = Inr []"
| "unmarshal_ZbReceived _ = Inl UnmarshalTypeError"

fun ParseSensorPayload :: "string \<Rightarrow> json option \<Rightarrow> SensorEvent list decoded" where
  "ParseSensorPayload bridgeName None = Inl SyntaxError"
| "ParseSensorPayload bridgeName (Some payload) =
     (case unmarshal_ZbReceived payload of
        Inl e \<Rightarrow> Inl e
      | Inr m \<Rightarrow> if m = [] then Inr [] else Inr (sensor_events bridgeName m))"

subsection \<open>Result messages\<close>

fun ParseResultPayload :: "string \<Rightarrow> json option \<Rightarrow> ResultEvent decoded" where
  "ParseResultPayload bridgeName None = Inl SyntaxError"
| "ParseResultPayload bridgeName (Some payload) =
     (case unmarshal_map [] payload of
        Inl e \<Rightarrow> Inl e
      | Inr raw \<Rightarrow>
          Inr \<lparr> re_BridgeName = bridgeName,
                re_ZbSendDone =
                  (case map_of raw ''ZbSend'' of None \<Rightarrow> False
                   | Some v \<Rightarrow> (case unmarshal_string '''' v of Inl _ \<Rightarrow> False
                                | Inr s \<Rightarrow> EqualFold s ''done'')) \<rparr>)"

definition BridgeNameFromTopic :: "string \<Rightarrow> string" where
  "BridgeNameFromTopic topic =
     (let parts = SplitN topic CHR ''/'' 3 in
      if length parts < 2 then '''' else parts ! 1)"

subsection \<open>ZbStatus3 messages\<close>

fun unmarshal_status_item :: "json \<Rightarrow> ZbStatus3ValveResult \<times> bool" where
  "unmarshal_status_item (JObject kvs) =
     (case (unmarshal_field unmarshal_string ''Name'' kvs ('''', True),
            unmarshal_field unmarshal_string ''Device'' kvs ('''', True),
            unmarshal_field unmarshal_int_ptr ''Power'' kvs (None, True)) of
        ((n, ok1), (d, ok2), (p, ok3)) \<Rightarrow>
          (\<lparr> zr_DeviceName = n, zr_ShortAddr = d, zr_Power = p \<rparr>, ok1 \<and> ok2 \<and> ok3))"
| "unmarshal_status_item JNull =
     (\<lparr> zr_DeviceName = '''', zr_ShortAddr = '''', zr_Power = None \<rparr>, True)"
| "unmarshal_status_item _ =
     (\<lparr> zr_DeviceName = '''', zr_ShortAddr = '''', zr_Power = None \<rparr>, False)"

fun unmarshal_items :: "ZbStatus3ValveResult list \<Rightarrow> json \<Rightarrow> ZbStatus3ValveResult list decoded" where
  "unmarshal_items old (JArray xs) =
     (if list_all (\<lambda>x. snd (unmarshal_status_item x)) xs
      then Inr (map (\<lambda>x. fst (unmarshal_status_item x)) xs)
      else Inl UnmarshalTypeError)"
| "unmarshal_items old JNull = Inr []"
| "unmarshal_items old _ = Inl UnmarshalTypeError"

fun unmarshal_ZbStatus3 :: "json \<Rightarrow> ZbStatus3ValveResult list decoded" where
  "unmarshal_ZbStatus3 (JObject kvs) =
     (case unmarshal_field unmarshal_items ''ZbStatus3'' kvs ([], True) of
        (items, ok) \<Rightarrow> if ok then Inr items else Inl UnmarshalTypeError)"
| "unmarshal_ZbStatus3 JNull = Inr []"
| "unmarshal_ZbStatus3 _ = Inl UnmarshalTypeError"

fun ParseZbStatus3ValvePower :: "json option \<Rightarrow> ZbStatus3ValveResult list decoded" where
  "ParseZbStatus3ValvePower None = Inl SyntaxError"
| "ParseZbStatus3ValvePower (Some payload) =
     (case unmarshal_ZbStatus3 payload of
        Inl e \<Rightarrow> Inl e
      | Inr items \<Rightarrow>
          Inr (filter (\<lambda>item. \<not> (zr_DeviceName item = '''' \<and> zr_ShortAddr item = '''')) items))"

subsection \<open>Commands\<close>

text \<open>The command as the JSON document that \<^verbatim>\<open>json.Marshal\<close> prints (keys sorted).\<close>

definition ZbSendPayload :: "string \<Rightarrow> bool \<Rightarrow> json" where
  "ZbSendPayload deviceName pwr =
     JObject [(''Device'', JString deviceName),
              (''Send'', JObject [(''Power'', JString (if pwr then ''ON'' else ''OFF''))])]"

end
