(* ===== verification/Dispatcher.thy ===== *)
theory Dispatcher
  imports Tasmota
begin

text \<open>
  \<^verbatim>\<open>internal/mqtt/dispatcher.go\<close>: the routing of sensor events to handlers that
  subscribed under a device's friendly name or short address. A handler is any value; what
  calling it does is up to the client. The mutex makes every operation one atomic step.
\<close>

subsection \<open>Canonical identifiers\<close>

definition hex_digits :: string where
  "hex_digits = ''0123456789abcdefABCDEF''"

text \<open>The regular expression \<^verbatim>\<open>^0[xX][0-9a-fA-F]+$\<close>.\<close>

definition hexAddr :: "string \<Rightarrow> bool" where
  "hexAddr s \<longleftrightarrow>
     (case s of
        z # x # rest \<Rightarrow> z = CHR ''0'' \<and> (x = CHR ''x'' \<or> x = CHR ''X'') \<and> rest \<noteq> []
                      \<and> list_all (\<lambda>c. c \<in> set hex_digits) rest
      | _ \<Rightarrow> False)"

definition dispatchKey :: "string \<Rightarrow> string" where
  "dispatchKey s = (if hexAddr s then ToUpper s else s)"

subsection \<open>The dispatcher\<close>

record 'h subscription =
  sub_id :: nat
  sub_handler :: 'h

record 'h Dispatcher =
  handlers :: "string \<rightharpoonup> 'h subscription list"
  nextID :: nat

definition NewDispatcher :: "'h Dispatcher" where
  "NewDispatcher = \<lparr> handlers = Map.empty, nextID = 0 \<rparr>"

text \<open>Reading a Go map at a missing key gives the nil slice.\<close>

definition subs_of :: "'h Dispatcher \<Rightarrow> string \<Rightarrow> 'h subscription list" where
  "subs_of d key = (case handlers d key of None \<Rightarrow> [] | Some subs \<Rightarrow> subs)"

text \<open>\<open>Subscribe\<close> returns the subscription's id; the closure it returns in Go holds the key and the id.\<close>

definition Subscribe :: "'h Dispatcher \<Rightarrow> string \<Rightarrow> 'h \<Rightarrow> nat \<times> 'h Dispatcher" where
  "Subscribe d deviceName h =
     (let key = dispatchKey deviceName; i = Suc (nextID d) in
      (i, d\<lparr> nextID := i,
             handlers := (handlers d)(key \<mapsto> subs_of d key @ [\<lparr> sub_id = i, sub_handler = h \<rparr>]) \<rparr>))"

text \<open>The loop of the unsubscribe closure: the first subscription with the id is cut out.\<close>

fun cut_id :: "nat \<Rightarrow> 'h subscription list \<Rightarrow> 'h subscription list" where
  "cut_id i [] = []"
| "cut_id i (s # subs) = (if sub_id s = i then subs else s # cut_id i subs)"

definition Unsubscribe :: "'h Dispatcher \<Rightarrow> string \<Rightarrow> nat \<Rightarrow> 'h Dispatcher" where
  "Unsubscribe d deviceName i =
     (let key = dispatchKey deviceName; subs = cut_id i (subs_of d key) in
      d\<lparr> handlers := (if subs = [] then (handlers d)(key := None) else (handlers d)(key \<mapsto> subs)) \<rparr>)"

text \<open>The inner loop of \<open>Dispatch\<close>: collect what was not seen yet.\<close>

fun collect :: "'h subscription list \<Rightarrow> nat list \<times> 'h subscription list
    \<Rightarrow> nat list \<times> 'h subscription list" where
  "collect [] acc = acc"
| "collect (s # ss) (seen, subs) =
     (if sub_id s \<in> set seen then collect ss (seen, subs)
      else collect ss (sub_id s # seen, subs @ [s]))"

fun collect_names :: "'h Dispatcher \<Rightarrow> string list \<Rightarrow> nat list \<times> 'h subscription list
    \<Rightarrow> nat list \<times> 'h subscription list" where
  "collect_names d [] acc = acc"
| "collect_names d (name # names) acc =
     (if name = '''' then collect_names d names acc
      else collect_names d names (collect (subs_of d (dispatchKey name)) acc))"

text \<open>The subscriptions whose handlers \<open>Dispatch\<close> calls with the event, in order.\<close>

definition Dispatch :: "'h Dispatcher \<Rightarrow> SensorEvent \<Rightarrow> 'h subscription list" where
  "Dispatch d ev = snd (collect_names d [ev_DeviceName ev, ev_ShortAddr ev] ([], []))"

subsection \<open>Canonical identifiers: lemmas\<close>

lemma upper_hex: "c \<in> set hex_digits \<Longrightarrow> upper_char c \<in> set hex_digits"
proof -
  have "list_all (\<lambda>c. upper_char c \<in> set hex_digits) hex_digits" by code_simp
  then show "c \<in> set hex_digits \<Longrightarrow> upper_char c \<in> set hex_digits" by (simp add: list_all_iff)
qed

lemma hexAddr_ToUpper: "hexAddr s \<Longrightarrow> hexAddr (ToUpper s)"
proof -
  have z: "upper_char CHR ''0'' = CHR ''0''" "upper_char CHR ''x'' = CHR ''X''"
    "upper_char CHR ''X'' = CHR ''X''"
    by code_simp+
  assume "hexAddr s"
  then show ?thesis
    by (auto simp: hexAddr_def ToUpper_def z list_all_iff upper_hex split: list.splits)
qed

lemma dispatchKey_idem [simp]: "dispatchKey (dispatchKey s) = dispatchKey s"
  by (simp add: dispatchKey_def hexAddr_ToUpper)

lemma dispatchKey_Nil [simp]: "dispatchKey s = '''' \<longleftrightarrow> s = ''''"
  by (simp add: dispatchKey_def ToUpper_def)

lemma dispatchKey_fold:
  "hexAddr s \<Longrightarrow> hexAddr t \<Longrightarrow> dispatchKey s = dispatchKey t \<longleftrightarrow> EqualFold s t"
  by (simp add: dispatchKey_def EqualFold_def)

lemma dispatchKey_verbatim: "\<not> hexAddr s \<Longrightarrow> dispatchKey s = s"
  by (simp add: dispatchKey_def)

subsection \<open>The publish/subscribe interface\<close>

text \<open>
  What a client of the dispatcher relies on: \<open>active\<close> is the set of live subscriptions, a
  delivery goes exactly once to each live subscription the event covers.
\<close>

locale pubsub =
  fixes subscribe :: "'d \<Rightarrow> 'k \<Rightarrow> 'h \<Rightarrow> nat \<times> 'd"
    and unsubscribe :: "'d \<Rightarrow> 'k \<Rightarrow> nat \<Rightarrow> 'd"
    and deliver :: "'d \<Rightarrow> 'e \<Rightarrow> (nat \<times> 'h) list"
    and active :: "'d \<Rightarrow> ('k \<times> nat \<times> 'h) set"
    and canon :: "'k \<Rightarrow> 'k"
    and covers :: "'e \<Rightarrow> 'k \<Rightarrow> bool"
    and inv :: "'d \<Rightarrow> bool"
  assumes inv_subscribe: "inv d \<Longrightarrow> inv (snd (subscribe d k h))"
    and inv_unsubscribe: "inv d \<Longrightarrow> inv (unsubscribe d k i)"
    and subscribe_fresh: "inv d \<Longrightarrow> (k', fst (subscribe d k h), h') \<notin> active d"
    and active_subscribe:
      "inv d \<Longrightarrow> active (snd (subscribe d k h)) = insert (canon k, fst (subscribe d k h), h) (active d)"
    and active_unsubscribe:
      "inv d \<Longrightarrow> active (unsubscribe d k i) = {(c, j, h) \<in> active d. \<not> (c = canon k \<and> j = i)}"
    and deliver_set:
      "inv d \<Longrightarrow> set (deliver d e) = {(i, h). \<exists>c. (c, i, h) \<in> active d \<and> covers e c}"
    and deliver_once: "inv d \<Longrightarrow> distinct (map fst (deliver d e))"
begin

lemma deliver_new:
  assumes "inv d" "subscribe d k h = (i, d')"
  shows "(i, h) \<in> set (deliver d' e) \<longleftrightarrow> covers e (canon k)"
  using assms inv_subscribe [OF assms(1), of k h] active_subscribe [OF assms(1), of k h]
    subscribe_fresh [OF assms(1), of _ k h]
  by (auto simp: deliver_set)

lemma deliver_others:
  assumes "inv d" "subscribe d k h = (i, d')" "j \<noteq> i"
  shows "(j, g) \<in> set (deliver d' e) \<longleftrightarrow> (j, g) \<in> set (deliver d e)"
  using assms inv_subscribe [OF assms(1), of k h] active_subscribe [OF assms(1), of k h]
  by (auto simp: deliver_set)

lemma unsubscribe_subscribe:
  assumes "inv d" "subscribe d k h = (i, d')"
  shows "active (unsubscribe d' k i) = active d"
  using assms inv_subscribe [OF assms(1), of k h] active_subscribe [OF assms(1), of k h]
    subscribe_fresh [OF assms(1), of _ k h]
  by (auto simp: active_unsubscribe)

lemma deliver_unsubscribed:
  assumes "inv d" "subscribe d k h = (i, d')"
  shows "set (deliver (unsubscribe d' k i) e) = set (deliver d e)"
  using assms inv_subscribe [OF assms(1), of k h] inv_unsubscribe [of d' k i]
  by (simp add: deliver_set unsubscribe_subscribe)

end

subsection \<open>The dispatcher provides the interface\<close>

definition disp_inv :: "'h Dispatcher \<Rightarrow> bool" where
  "disp_inv d \<longleftrightarrow>
     (\<forall>k. handlers d k \<noteq> Some []) \<and>
     (\<forall>k. distinct (map sub_id (subs_of d k))) \<and>
     (\<forall>k s. s \<in> set (subs_of d k) \<longrightarrow> sub_id s \<le> nextID d \<and> dispatchKey k = k) \<and>
     (\<forall>k k' s s'. s \<in> set (subs_of d k) \<longrightarrow> s' \<in> set (subs_of d k') \<longrightarrow>
        sub_id s = sub_id s' \<longrightarrow> k = k')"

definition disp_active :: "'h Dispatcher \<Rightarrow> (string \<times> nat \<times> 'h) set" where
  "disp_active d = {(k, sub_id s, sub_handler s) | k s. s \<in> set (subs_of d k)}"

definition event_covers :: "SensorEvent \<Rightarrow> string \<Rightarrow> bool" where
  "event_covers ev key \<longleftrightarrow> key \<noteq> '''' \<and>
     (dispatchKey (ev_DeviceName ev) = key \<or> dispatchKey (ev_ShortAddr ev) = key)"

definition Dispatch_pairs :: "'h Dispatcher \<Rightarrow> SensorEvent \<Rightarrow> (nat \<times> 'h) list" where
  "Dispatch_pairs d ev = map (\<lambda>s. (sub_id s, sub_handler s)) (Dispatch d ev)"

lemma collect_spec:
  assumes "collect ss (seen, subs) = (seen', subs')"
    and "set seen = sub_id ` set subs" and "distinct (map sub_id subs)"
  shows "set seen' = sub_id ` set subs' \<and> distinct (map sub_id subs') \<and>
    set subs \<subseteq> set subs' \<and> set subs' \<subseteq> set subs \<union> set ss \<and>
    sub_id ` set subs' = sub_id ` set subs \<union> sub_id ` set ss"
  using assms
proof (induction ss arbitrary: seen subs)
  case Nil
  then show ?case by auto
next
  case (Cons s ss)
  show ?case
  proof (cases "sub_id s \<in> set seen")
    case True
    with Cons.IH [of seen subs] Cons.prems show ?thesis by auto
  next
    case False
    with Cons.prems have "collect ss (sub_id s # seen, subs @ [s]) = (seen', subs')" by simp
    from Cons.IH [OF this] Cons.prems False show ?thesis by auto
  qed
qed

lemma collect_names_spec:
  assumes "collect_names d names (seen, subs) = (seen', subs')"
    and "set seen = sub_id ` set subs" and "distinct (map sub_id subs)"
  shows "distinct (map sub_id subs') \<and> set subs \<subseteq> set subs' \<and>
    set subs' \<subseteq> set subs \<union> (\<Union>n \<in> set names - {''''}. set (subs_of d (dispatchKey n))) \<and>
    sub_id ` set subs' =
      sub_id ` set subs \<union> (\<Union>n \<in> set names - {''''}. sub_id ` set (subs_of d (dispatchKey n)))"
  using assms
proof (induction names arbitrary: seen subs)
  case Nil
  then show ?case by auto
next
  case (Cons n names)
  show ?case
  proof (cases "n = ''''")
    case True
    with Cons show ?thesis by auto
  next
    case False
    obtain seen1 subs1 where c: "collect (subs_of d (dispatchKey n)) (seen, subs) = (seen1, subs1)"
      by (cases "collect (subs_of d (dispatchKey n)) (seen, subs)")
    note one = collect_spec [OF c Cons.prems(2,3)]
    with False c Cons.prems have "collect_names d names (seen1, subs1) = (seen', subs')" by simp
    note rest = Cons.IH [OF this]
    have names: "set (n # names) - {''''} = insert n (set names - {''''})" using False by auto
    from rest one show ?thesis unfolding names by auto
  qed
qed

lemma subs_of_Subscribe:
  "subs_of (snd (Subscribe d n h)) k =
     (if k = dispatchKey n
      then subs_of d k @ [\<lparr> sub_id = fst (Subscribe d n h), sub_handler = h \<rparr>]
      else subs_of d k)"
  by (simp add: Subscribe_def subs_of_def Let_def)

lemma subs_of_Unsubscribe:
  "subs_of (Unsubscribe d n i) k =
     (if k = dispatchKey n then cut_id i (subs_of d k) else subs_of d k)"
  by (simp add: Unsubscribe_def subs_of_def Let_def)

lemma nextID_Subscribe [simp]:
  "nextID (snd (Subscribe d n h)) = Suc (nextID d)" "fst (Subscribe d n h) = Suc (nextID d)"
  by (simp_all add: Subscribe_def Let_def)

lemma nextID_Unsubscribe [simp]: "nextID (Unsubscribe d n i) = nextID d"
  by (simp add: Unsubscribe_def Let_def)

lemma cut_id_subset: "set (cut_id i subs) \<subseteq> set subs"
  by (induction subs) auto

lemma set_cut_id:
  "distinct (map sub_id subs) \<Longrightarrow> set (cut_id i subs) = {s \<in> set subs. sub_id s \<noteq> i}"
  by (induction subs) (auto simp: image_iff)

lemma distinct_cut_id: "distinct (map sub_id subs) \<Longrightarrow> distinct (map sub_id (cut_id i subs))"
  by (induction subs) (use cut_id_subset in fastforce)+

lemma disp_inv_New: "disp_inv NewDispatcher"
  by (simp add: disp_inv_def NewDispatcher_def subs_of_def)

lemma disp_inv_Subscribe:
  assumes "disp_inv d"
  shows "disp_inv (snd (Subscribe d n h))"
proof -
  let ?d = "snd (Subscribe d n h)"
  have old: "\<And>k s. s \<in> set (subs_of d k) \<Longrightarrow> sub_id s \<noteq> Suc (nextID d)"
    using assms unfolding disp_inv_def by (metis Suc_n_not_le_n)
  have "handlers ?d k \<noteq> Some []" for k
    using assms by (simp add: disp_inv_def Subscribe_def Let_def)
  moreover have "distinct (map sub_id (subs_of ?d k))" for k
    using assms old by (fastforce simp: disp_inv_def subs_of_Subscribe)
  moreover have "s \<in> set (subs_of ?d k) \<Longrightarrow> sub_id s \<le> nextID ?d \<and> dispatchKey k = k" for k s
    using assms by (fastforce simp: disp_inv_def subs_of_Subscribe le_Suc_eq split: if_splits)
  moreover have "s \<in> set (subs_of ?d k) \<Longrightarrow> s' \<in> set (subs_of ?d k') \<Longrightarrow>
      sub_id s = sub_id s' \<Longrightarrow> k = k'" for k k' s s'
    using assms old unfolding disp_inv_def
    by (auto simp: subs_of_Subscribe dest: sym split: if_splits)
  ultimately show ?thesis unfolding disp_inv_def by blast
qed

lemma disp_inv_Unsubscribe:
  assumes "disp_inv d"
  shows "disp_inv (Unsubscribe d n i)"
proof -
  let ?d = "Unsubscribe d n i"
  have sub: "s \<in> set (subs_of ?d k) \<Longrightarrow> s \<in> set (subs_of d k)" for k s
    using cut_id_subset by (fastforce simp: subs_of_Unsubscribe split: if_splits)
  have "handlers ?d k \<noteq> Some []" for k
    using assms by (simp add: disp_inv_def Unsubscribe_def Let_def)
  moreover have "distinct (map sub_id (subs_of ?d k))" for k
    using assms by (simp add: disp_inv_def subs_of_Unsubscribe distinct_cut_id)
  ultimately show ?thesis
    using assms sub unfolding disp_inv_def nextID_Unsubscribe by blast
qed

lemma mem_disp_active:
  "(k, i, h) \<in> disp_active d \<longleftrightarrow> (\<exists>s \<in> set (subs_of d k). sub_id s = i \<and> sub_handler s = h)"
  by (auto simp: disp_active_def)

lemma disp_active_Subscribe:
  "disp_active (snd (Subscribe d n h)) =
     insert (dispatchKey n, fst (Subscribe d n h), h) (disp_active d)"
proof (rule set_eqI)
  fix x show "x \<in> disp_active (snd (Subscribe d n h)) \<longleftrightarrow>
      x \<in> insert (dispatchKey n, fst (Subscribe d n h), h) (disp_active d)"
    by (cases x) (auto simp: mem_disp_active subs_of_Subscribe)
qed

lemma disp_active_Unsubscribe:
  assumes "disp_inv d"
  shows "disp_active (Unsubscribe d n i) =
    {(c, j, h) \<in> disp_active d. \<not> (c = dispatchKey n \<and> j = i)}"
proof -
  have "set (cut_id i (subs_of d k)) = {s \<in> set (subs_of d k). sub_id s \<noteq> i}" for k
    using assms by (simp add: disp_inv_def set_cut_id)
  then show ?thesis
    by (auto simp: disp_active_def subs_of_Unsubscribe split: if_splits)
qed

lemma Dispatch_distinct: "distinct (map sub_id (Dispatch d ev))"
  using collect_names_spec [of d "[ev_DeviceName ev, ev_ShortAddr ev]" "[]" "[]"]
  by (cases "collect_names d [ev_DeviceName ev, ev_ShortAddr ev] ([], [])") (simp add: Dispatch_def)

lemma set_Dispatch:
  assumes "disp_inv d"
  shows "set (Dispatch d ev) = {s. \<exists>k. s \<in> set (subs_of d k) \<and> event_covers ev k}"
proof -
  let ?names = "[ev_DeviceName ev, ev_ShortAddr ev]"
  let ?all = "\<Union>n \<in> set ?names - {''''}. set (subs_of d (dispatchKey n))"
  obtain seen subs where c: "collect_names d ?names ([], []) = (seen, subs)"
    by (cases "collect_names d ?names ([], [])")
  have sp: "set subs \<subseteq> ?all" "sub_id ` set subs = sub_id ` ?all"
    using collect_names_spec [OF c] by auto
  have inj: "inj_on sub_id ?all"
  proof (rule inj_onI)
    fix s s' assume "s \<in> ?all" "s' \<in> ?all" and eq: "sub_id s = sub_id s'"
    then obtain k k' where k: "s \<in> set (subs_of d k)" "s' \<in> set (subs_of d k')" by blast
    with assms eq have "k = k'" unfolding disp_inv_def by blast
    moreover have "distinct (map sub_id (subs_of d k))" using assms by (simp add: disp_inv_def)
    ultimately show "s = s'" using k eq by (simp add: distinct_map inj_on_def)
  qed
  have "set subs = ?all"
    using sp inj by (metis inj_on_image_eq_iff subset_refl)
  moreover have "?all = {s. \<exists>k. s \<in> set (subs_of d k) \<and> event_covers ev k}"
    by (fastforce simp: event_covers_def)
  moreover have "Dispatch d ev = subs" by (simp only: Dispatch_def c snd_conv)
  ultimately show ?thesis by simp
qed

interpretation disp: pubsub Subscribe Unsubscribe Dispatch_pairs disp_active dispatchKey
  event_covers disp_inv
proof (unfold_locales, goal_cases)
  case (1 d k h) then show ?case by (rule disp_inv_Subscribe)
next
  case (2 d k i) then show ?case by (rule disp_inv_Unsubscribe)
next
  case (3 d k' k h h') then show ?case
    by (fastforce simp: disp_inv_def disp_active_def)
next
  case (4 d k h) show ?case by (rule disp_active_Subscribe)
next
  case (5 d k i) then show ?case by (rule disp_active_Unsubscribe)
next
  case (6 d e) then show ?case
    by (auto simp: Dispatch_pairs_def set_Dispatch disp_active_def image_iff)
next
  case (7 d e) show ?case
    using Dispatch_distinct [of d e] by (simp add: Dispatch_pairs_def comp_def)
qed

end
