(* ===== verification/Device.thy ===== *)
theory Device
  imports Prelude
begin

text \<open>
  The data of \<^verbatim>\<open>internal/device/valve.go\<close>. A valve state is a Go string type with three
  named values; any other string (the empty one of a resource whose status was never
  written) is a value of the type too, so it is a string here.
\<close>

type_synonym ValveState = string

definition ValveStateOpen :: ValveState where
  "ValveStateOpen = ''open''"

definition ValveStateClosed :: ValveState where
  "ValveStateClosed = ''closed''"

definition ValveStateUnknown :: ValveState where
  "ValveStateUnknown = ''unknown''"

record ValveConfig =
  Disabled :: bool
  RetryCount :: int
  CommandTimeout :: duration
  KeepClosedInterval :: duration
  MaxOpenDuration :: duration
  CloseRepeatCount :: int

record ValveInfo =
  vi_Name :: string
  vi_Namespace :: string
  vi_Config :: ValveConfig
  vi_FriendlyName :: string
  vi_ShortAddr :: string
  vi_BridgeName :: string
  vi_BridgeHost :: string
  vi_BridgePort :: int
  vi_State :: ValveState
  vi_LinkQuality :: int
  vi_BatteryPercentage :: int
  vi_Reachable :: bool
  vi_DailyIrrigationVolume :: rat
  vi_LastValveOpenDuration :: int
  vi_CurrentActionID :: string
  vi_LastOpenTime :: "time option"
  vi_LastCloseTime :: "time option"

definition Key :: "ValveInfo \<Rightarrow> string" where
  "Key v = vi_Namespace v @ ''/'' @ vi_Name v"

definition CommandTarget :: "ValveInfo \<Rightarrow> string" where
  "CommandTarget v = (if vi_ShortAddr v \<noteq> '''' then vi_ShortAddr v else vi_FriendlyName v)"

lemma valve_states_distinct [simp]:
  "ValveStateOpen \<noteq> ValveStateClosed" "ValveStateClosed \<noteq> ValveStateOpen"
  "ValveStateOpen \<noteq> ValveStateUnknown" "ValveStateUnknown \<noteq> ValveStateOpen"
  "ValveStateClosed \<noteq> ValveStateUnknown" "ValveStateUnknown \<noteq> ValveStateClosed"
  by (simp_all add: ValveStateOpen_def ValveStateClosed_def ValveStateUnknown_def)

text \<open>
  A Kubernetes namespace holds no slash, so a key splits back into namespace and name: the
  split \<^verbatim>\<open>FindKey\<close> performs.
\<close>

lemma Key_SplitN:
  "CHR ''/'' \<notin> set (vi_Namespace v) \<Longrightarrow> SplitN (Key v) CHR ''/'' 2 = [vi_Namespace v, vi_Name v]"
  unfolding Key_def using SplitN_two [of "CHR ''/''" "vi_Namespace v" "vi_Name v"] by simp

lemma Key_inject:
  assumes "CHR ''/'' \<notin> set (vi_Namespace v)" "CHR ''/'' \<notin> set (vi_Namespace u)"
  shows "Key v = Key u \<longleftrightarrow> vi_Namespace v = vi_Namespace u \<and> vi_Name v = vi_Name u"
  using Key_SplitN [OF assms(1)] Key_SplitN [OF assms(2)]
  by (metis Key_def list.inject)

end
