(* ===== verification/Metrics.thy ===== *)
theory Metrics
  imports Device
begin

text \<open>
  \<^verbatim>\<open>internal/metrics/metrics.go\<close>: the Prometheus collectors, as the values a scrape
  would show. A gauge vector is a map from label values, a counter vector a total function
  (an unused label combination counts zero), a histogram the list of its observations.
  A float64 sample is a rational number.
\<close>

type_synonym labels2 = "string \<times> string"                      \<comment> \<open>name, namespace\<close>
type_synonym labels3 = "string \<times> string \<times> string"            \<comment> \<open>name, namespace, type\<close>
type_synonym labels4 = "string \<times> string \<times> string \<times> string"  \<comment> \<open>name, namespace, type, result\<close>

record Metrics =
  m_ValveState :: "labels2 \<rightharpoonup> rat"
  m_ActionsTotal :: "labels4 \<Rightarrow> nat"
  m_ActionDuration :: "labels3 \<Rightarrow> rat list"
  m_ActionRetries :: "labels3 \<Rightarrow> nat"
  m_SafetyClosesTotal :: "labels2 \<Rightarrow> nat"
  m_MQTTMessagesReceived :: "string \<Rightarrow> nat"
  m_MQTTConnectionState :: "string \<rightharpoonup> rat"
  m_DailyIrrigationVolume :: "labels2 \<rightharpoonup> rat"
  m_LastOpenDuration :: "labels2 \<rightharpoonup> rat"
  m_BatteryPercentage :: "labels2 \<rightharpoonup> rat"
  m_LinkQuality :: "labels2 \<rightharpoonup> rat"

definition new_metrics :: Metrics where
  "new_metrics =
     \<lparr> m_ValveState = Map.empty, m_ActionsTotal = (\<lambda>_. 0), m_ActionDuration = (\<lambda>_. []),
       m_ActionRetries = (\<lambda>_. 0), m_SafetyClosesTotal = (\<lambda>_. 0),
       m_MQTTMessagesReceived = (\<lambda>_. 0), m_MQTTConnectionState = Map.empty,
       m_DailyIrrigationVolume = Map.empty, m_LastOpenDuration = Map.empty,
       m_BatteryPercentage = Map.empty, m_LinkQuality = Map.empty \<rparr>"

definition inc :: "'k \<Rightarrow> ('k \<Rightarrow> nat) \<Rightarrow> ('k \<Rightarrow> nat)" where
  "inc k c = c(k := Suc (c k))"

definition ValveStateFloat :: "string \<Rightarrow> rat" where
  "ValveStateFloat state =
     (if state = ''open'' then 1 else if state = ''closed'' then 0 else -1)"

text \<open>
  The map literal \<open>RegisterValve\<close> and \<open>applyDeviceState\<close> index with the valve state: a
  missing key reads as the zero value.
\<close>

definition stateVal :: "ValveState \<Rightarrow> rat" where
  "stateVal s =
     (case map_of [(ValveStateOpen, 1), (ValveStateClosed, 0), (ValveStateUnknown, -1)] s of
        None \<Rightarrow> 0 | Some v \<Rightarrow> v)"

lemma inc_apply [simp]: "inc k c j = (if j = k then Suc (c k) else c j)"
  by (simp add: inc_def)

lemma stateVal_simps [simp]:
  "stateVal ValveStateOpen = 1" "stateVal ValveStateClosed = 0" "stateVal ValveStateUnknown = -1"
  by (simp_all add: stateVal_def)

lemma stateVal_ValveStateFloat:
  "s \<in> {ValveStateOpen, ValveStateClosed, ValveStateUnknown} \<Longrightarrow> stateVal s = ValveStateFloat s"
  by (auto simp: ValveStateFloat_def ValveStateOpen_def ValveStateClosed_def
      ValveStateUnknown_def stateVal_def)

lemma stateVal_other:
  "s \<notin> {ValveStateOpen, ValveStateClosed, ValveStateUnknown} \<Longrightarrow> stateVal s = 0 \<and> ValveStateFloat s = -1"
  by (auto simp: ValveStateFloat_def ValveStateOpen_def ValveStateClosed_def
      ValveStateUnknown_def stateVal_def)

end
