(* ===== verification/Bridge.thy ===== *)
theory Bridge
  imports Dispatcher Metrics
begin

text \<open>
  \<^verbatim>\<open>internal/mqtt/bridge.go\<close> and \<^verbatim>\<open>internal/mqtt/manager.go\<close>: one MQTT
  client per Tasmota bridge and the registry of them. The MQTT library is not part of the
  repository: what a connect or a publish does is an argument of the operations that call
  it, and its callbacks (\<open>onConnect\<close>, \<open>onConnectionLost\<close>, the message handlers) are
  operations here, to be called in any order.
\<close>

record TopicEntry =
  te_Topic :: string
  te_Type :: string
  te_QoS :: int

record BridgeConfig =
  bcf_BridgeName :: string
  bcf_Host :: string
  bcf_Port :: int
  bcf_Username :: string
  bcf_Password :: string
  bcf_Hostname :: string
  bcf_MaxReconnectBackoff :: int
  bcf_Topics :: "TopicEntry list"

text \<open>The options handed to the MQTT library when a client is created.\<close>

record ClientOptions =
  co_Broker :: string
  co_ClientID :: string
  co_Credentials :: "(string \<times> string) option"
  co_AutoReconnect :: bool
  co_MaxReconnectInterval :: duration
  co_ConnectRetryInterval :: duration
  co_ConnectRetry :: bool

text \<open>
  A channel of capacity one is a buffer that holds a value or not; channels are numbered,
  since a waiter keeps its channel when the map entry is overwritten by another waiter.
\<close>

record BridgeClient =
  bc_cfg :: BridgeConfig
  bc_options :: ClientOptions
  bc_connected :: bool
  zbStatus3Chs :: "string \<rightharpoonup> nat"
  zb_bufs :: "nat \<Rightarrow> ZbStatus3ValveResult option"
  zb_next :: nat

definition newBridgeClient :: "BridgeConfig \<Rightarrow> BridgeClient" where
  "newBridgeClient cfg =
     (let backoff = bcf_MaxReconnectBackoff cfg * Second;
          maxBackoff = (if backoff = 0 then 60 * Second else backoff)
      in \<lparr> bc_cfg = cfg,
           bc_options =
             \<lparr> co_Broker = ''tcp://'' @ bcf_Host cfg @ '':'' @ Itoa (bcf_Port cfg),
               co_ClientID = ''valve-controller-'' @ bcf_Hostname cfg @ ''-'' @ bcf_BridgeName cfg,
               co_Credentials = (if bcf_Username cfg \<noteq> ''''
                                 then Some (bcf_Username cfg, bcf_Password cfg) else None),
               co_AutoReconnect = True,
               co_MaxReconnectInterval = maxBackoff,
               co_ConnectRetryInterval = Second,
               co_ConnectRetry = True \<rparr>,
           bc_connected = False,
           zbStatus3Chs = Map.empty, zb_bufs = (\<lambda>_. None), zb_next = 0 \<rparr>)"

definition Disconnect :: "BridgeClient \<Rightarrow> Metrics \<Rightarrow> Metrics" where
  "Disconnect bc m =
     m\<lparr> m_MQTTConnectionState := (m_MQTTConnectionState m)(bcf_BridgeName (bc_cfg bc) \<mapsto> 0) \<rparr>"

subsection \<open>Connection callbacks\<close>

datatype msg_handler = HandleSensor | HandleResult

definition topic_subscription :: "TopicEntry \<Rightarrow> (string \<times> int \<times> msg_handler) list" where
  "topic_subscription t =
     (if te_Type t = ''telemetry'' then [(te_Topic t, te_QoS t, HandleSensor)]
      else if te_Type t = ''result'' then [(te_Topic t, te_QoS t, HandleResult)]
      else [])"

text \<open>The subscriptions \<open>resubscribe\<close> asks the broker for, in order.\<close>

definition resubscribe :: "BridgeClient \<Rightarrow> (string \<times> int \<times> msg_handler) list" where
  "resubscribe bc =
     (let cfg = bc_cfg bc in
      if bcf_Topics cfg = [] then
        [(''tele/'' @ bcf_BridgeName cfg @ ''/SENSOR'', 1, HandleSensor),
         (''stat/'' @ bcf_BridgeName cfg @ ''/RESULT'', 0, HandleResult)]
      else concat (map topic_subscription (bcf_Topics cfg)))"

definition onConnect :: "BridgeClient \<Rightarrow> Metrics
    \<Rightarrow> BridgeClient \<times> Metrics \<times> (string \<times> int \<times> msg_handler) list" where
  "onConnect bc m =
     (bc\<lparr> bc_connected := True \<rparr>,
      m\<lparr> m_MQTTConnectionState := (m_MQTTConnectionState m)(bcf_BridgeName (bc_cfg bc) \<mapsto> 1) \<rparr>,
      resubscribe bc)"

definition onConnectionLost :: "BridgeClient \<Rightarrow> Metrics \<Rightarrow> BridgeClient \<times> Metrics" where
  "onConnectionLost bc m =
     (bc\<lparr> bc_connected := False \<rparr>,
      m\<lparr> m_MQTTConnectionState := (m_MQTTConnectionState m)(bcf_BridgeName (bc_cfg bc) \<mapsto> 0) \<rparr>)"

definition IsConnected :: "BridgeClient \<Rightarrow> bool" where
  "IsConnected bc = bc_connected bc"

subsection \<open>Message handlers\<close>

text \<open>The events \<open>handleSensor\<close> hands to the dispatcher, in order.\<close>

definition handleSensor :: "string \<Rightarrow> json option \<Rightarrow> Metrics \<Rightarrow> SensorEvent list \<times> Metrics" where
  "handleSensor topic payload m =
     (let bridge = BridgeNameFromTopic topic;
          m = m\<lparr> m_MQTTMessagesReceived := inc bridge (m_MQTTMessagesReceived m) \<rparr>
      in (case ParseSensorPayload bridge payload of Inl _ \<Rightarrow> [] | Inr events \<Rightarrow> events, m))"

text \<open>
  The routing of one ZbStatus3 result: the first of its identifiers that has a waiter gets
  it, unless the waiter's buffer is already full.
\<close>

fun deliver_status :: "ZbStatus3ValveResult \<Rightarrow> string list \<Rightarrow> BridgeClient \<Rightarrow> BridgeClient" where
  "deliver_status r [] bc = bc"
| "deliver_status r (key # keys) bc =
     (if key = '''' then deliver_status r keys bc
      else case zbStatus3Chs bc (dispatchKey key) of
             None \<Rightarrow> deliver_status r keys bc
           | Some ch \<Rightarrow>
               (case zb_bufs bc ch of
                  None \<Rightarrow> bc\<lparr> zb_bufs := (zb_bufs bc)(ch \<mapsto> r) \<rparr>
                | Some _ \<Rightarrow> bc))"

definition handleResult :: "string \<Rightarrow> json option \<Rightarrow> BridgeClient \<Rightarrow> Metrics
    \<Rightarrow> BridgeClient \<times> Metrics" where
  "handleResult topic payload bc m =
     (let bridge = BridgeNameFromTopic topic;
          m = m\<lparr> m_MQTTMessagesReceived := inc bridge (m_MQTTMessagesReceived m) \<rparr>
      in case ParseResultPayload bridge payload of
           Inl _ \<Rightarrow> (bc, m)
         | Inr _ \<Rightarrow>
             (case ParseZbStatus3ValvePower payload of
                Inl _ \<Rightarrow> (bc, m)
              | Inr results \<Rightarrow>
                  (fold (\<lambda>r. deliver_status r [zr_DeviceName r, zr_ShortAddr r]) results bc, m)))"

subsection \<open>Commands\<close>

text \<open>The topic and document \<open>SendZbSend\<close> publishes (with quality of service 1).\<close>

definition zbsend_message :: "BridgeClient \<Rightarrow> string \<Rightarrow> bool \<Rightarrow> string \<times> json" where
  "zbsend_message bc deviceName pwr =
     (''cmnd/'' @ bcf_BridgeName (bc_cfg bc) @ ''/ZbSend'', ZbSendPayload deviceName pwr)"

text \<open>
  \<open>SendZbStatus3\<close> registers a fresh channel under the device's key, publishes the query and
  waits; its deferred function deletes the key. The two ends of the call are separate
  steps, since other calls and message handlers run in between.
\<close>

definition status3_begin :: "BridgeClient \<Rightarrow> string \<Rightarrow> nat \<times> BridgeClient" where
  "status3_begin bc deviceName =
     (let ch = zb_next bc in
      (ch, bc\<lparr> zb_next := Suc ch, zb_bufs := (zb_bufs bc)(ch := None),
               zbStatus3Chs := (zbStatus3Chs bc)(dispatchKey deviceName \<mapsto> ch) \<rparr>))"

definition status3_end :: "BridgeClient \<Rightarrow> string \<Rightarrow> BridgeClient" where
  "status3_end bc deviceName =
     bc\<lparr> zbStatus3Chs := (zbStatus3Chs bc)(dispatchKey deviceName := None) \<rparr>"

datatype status3_error = PublishFailed | ResponseTimeout | QueryCancelled | BridgeNotConnected

text \<open>
  What woke the two selects of \<open>SendZbStatus3\<close>: the publish token (with or without error)
  or the context, then the channel, the timer or the context.
\<close>

datatype token_outcome = TokenDone bool | TokenCtxDone
datatype reply_outcome = ReplyChannel | ReplyTimer | ReplyCtxDone

definition status3_result :: "BridgeClient \<Rightarrow> nat \<Rightarrow> token_outcome \<Rightarrow> reply_outcome
    \<Rightarrow> (status3_error + ZbStatus3ValveResult) option" where
  "status3_result bc ch t rp =
     (case t of
        TokenDone False \<Rightarrow> Some (Inl PublishFailed)
      | TokenCtxDone \<Rightarrow> Some (Inl QueryCancelled)
      | TokenDone True \<Rightarrow>
          (case rp of
             ReplyChannel \<Rightarrow> map_option Inr (zb_bufs bc ch)
           | ReplyTimer \<Rightarrow> Some (Inl ResponseTimeout)
           | ReplyCtxDone \<Rightarrow> Some (Inl QueryCancelled)))"

subsection \<open>The manager\<close>

record Manager =
  mgr_hostname :: string
  mgr_bridges :: "string \<rightharpoonup> BridgeClient"

definition NewManager :: "string \<Rightarrow> Manager" where
  "NewManager hostname = \<lparr> mgr_hostname = hostname, mgr_bridges = Map.empty \<rparr>"

fun topicsEqual_loop :: "TopicEntry list \<Rightarrow> TopicEntry list \<Rightarrow> bool" where
  "topicsEqual_loop (x # a) (y # b) = (if x \<noteq> y then False else topicsEqual_loop a b)"
| "topicsEqual_loop _ _ = True"

definition topicsEqual :: "TopicEntry list \<Rightarrow> TopicEntry list \<Rightarrow> bool" where
  "topicsEqual a b = (if length a \<noteq> length b then False else topicsEqual_loop a b)"

text \<open>
  \<open>conn\<close> is what \<open>Connect\<close> returns: \<open>None\<close> for a connection, \<open>Some e\<close> for the library's or
  the context's error.
\<close>

definition Upsert :: "Manager \<Rightarrow> Metrics \<Rightarrow> BridgeConfig \<Rightarrow> 'e option
    \<Rightarrow> 'e option \<times> Manager \<times> Metrics" where
  "Upsert mgr m cfg0 conn =
     (let cfg = cfg0\<lparr> bcf_Hostname := mgr_hostname mgr \<rparr>;
          name = bcf_BridgeName cfg;
          connect = (\<lambda>m. case conn of
             Some e \<Rightarrow> (Some e, mgr, m)
           | None \<Rightarrow> (None, mgr\<lparr> mgr_bridges := (mgr_bridges mgr)(name \<mapsto> newBridgeClient cfg) \<rparr>, m))
      in case mgr_bridges mgr name of
           None \<Rightarrow> connect m
         | Some existing \<Rightarrow>
             if bcf_Host (bc_cfg existing) = bcf_Host cfg \<and> bcf_Port (bc_cfg existing) = bcf_Port cfg \<and>
                bcf_Username (bc_cfg existing) = bcf_Username cfg \<and>
                topicsEqual (bcf_Topics (bc_cfg existing)) (bcf_Topics cfg)
             then (None, mgr, m)
             else connect (Disconnect existing m))"

definition Remove :: "Manager \<Rightarrow> Metrics \<Rightarrow> string \<Rightarrow> Manager \<times> Metrics" where
  "Remove mgr m bridgeName =
     (case mgr_bridges mgr bridgeName of
        None \<Rightarrow> (mgr, m)
      | Some bc \<Rightarrow> (mgr\<lparr> mgr_bridges := (mgr_bridges mgr)(bridgeName := None) \<rparr>, Disconnect bc m))"

definition ConnectionStates :: "Manager \<Rightarrow> (string \<rightharpoonup> bool)" where
  "ConnectionStates mgr name = map_option IsConnected (mgr_bridges mgr name)"

text \<open>The bridges \<open>StopAll\<close> ranges over are listed in \<open>names\<close> (a Go map has no order).\<close>

definition StopAll :: "string list \<Rightarrow> Manager \<Rightarrow> Metrics \<Rightarrow> Manager \<times> Metrics" where
  "StopAll names mgr m =
     (mgr\<lparr> mgr_bridges := Map.empty \<rparr>,
      fold (\<lambda>n m. case mgr_bridges mgr n of None \<Rightarrow> m | Some bc \<Rightarrow> Disconnect bc m) names m)"

end
