(* ===== verification/Action.thy ===== *)
theory Action
  imports Device "HOL-Library.Word"
begin

text \<open>
  \<^verbatim>\<open>internal/scheduler/action.go\<close>: a valve command and its life cycle. The two Go
  string types only ever hold their named constants, so they are datatypes here; their
  strings, which label metrics and appear in the REST answers, are given by functions.
\<close>

datatype ActionType = ActionTypeOpen | ActionTypeOpenTimed | ActionTypeClose | ActionTypeKeepClose

datatype ActionState =
    ActionStatePending
  | ActionStateSending
  | ActionStateWaitingConfirmation
  | ActionStateFulfilled
  | ActionStateClosing
  | ActionStateFailed
  | ActionStateCancelled

fun ActionType_string :: "ActionType \<Rightarrow> string" where
  "ActionType_string ActionTypeOpen = ''open''"
| "ActionType_string ActionTypeOpenTimed = ''open_timed''"
| "ActionType_string ActionTypeClose = ''close''"
| "ActionType_string ActionTypeKeepClose = ''keep_close''"

fun ActionState_string :: "ActionState \<Rightarrow> string" where
  "ActionState_string ActionStatePending = ''pending''"
| "ActionState_string ActionStateSending = ''sending''"
| "ActionState_string ActionStateWaitingConfirmation = ''waiting_confirmation''"
| "ActionState_string ActionStateFulfilled = ''fulfilled''"
| "ActionState_string ActionStateClosing = ''closing''"
| "ActionState_string ActionStateFailed = ''failed''"
| "ActionState_string ActionStateCancelled = ''cancelled''"

text \<open>
  An error message is kept as the data it is formatted from: the messages the sources build
  for an action and the two context errors.
\<close>

datatype ctx_error = Canceled | DeadlineExceeded

datatype action_error =
    NoError
  | NoConfirmation int              \<comment> \<open>no device confirmation after n attempts\<close>
  | ContextError ctx_error
  | CloseNotConfirmed action_error  \<comment> \<open>timed open expired but close was not confirmed: ...\<close>

record Action =
  act_ID :: string
  act_ValveName :: string
  act_Namespace :: string
  act_Type :: ActionType
  act_Duration :: duration
  act_RequestedAt :: time
  act_State :: ActionState
  act_Attempts :: int
  act_LastAttempt :: "time option"  \<comment> \<open>None is the zero time\<close>
  act_FulfilledAt :: "time option"
  act_ClosedAt :: "time option"
  act_ExpiresAt :: "time option"
  act_FailedAt :: "time option"
  act_ErrorMessage :: action_error

definition hex_char :: "nat \<Rightarrow> char" where
  "hex_char n = ''0123456789abcdef'' ! n"

text \<open>\<open>generateID\<close> prints eight random bytes in hexadecimal; the bytes are the argument.\<close>

definition generateID :: "8 word list \<Rightarrow> string" where
  "generateID b = concat (map (\<lambda>x. [hex_char (unat x div 16), hex_char (unat x mod 16)]) b)"

definition newAction :: "8 word list \<Rightarrow> time \<Rightarrow> string \<Rightarrow> string \<Rightarrow> ActionType \<Rightarrow> duration \<Rightarrow> Action" where
  "newAction b now valveName namespace t d =
     \<lparr> act_ID = generateID b, act_ValveName = valveName, act_Namespace = namespace,
       act_Type = t, act_Duration = d, act_RequestedAt = now, act_State = ActionStatePending,
       act_Attempts = 0, act_LastAttempt = None, act_FulfilledAt = None, act_ClosedAt = None,
       act_ExpiresAt = None, act_FailedAt = None, act_ErrorMessage = NoError \<rparr>"

definition IsTerminal :: "Action \<Rightarrow> bool" where
  "IsTerminal a \<longleftrightarrow>
     (case act_State a of
        ActionStateFulfilled \<Rightarrow> True | ActionStateFailed \<Rightarrow> True | ActionStateCancelled \<Rightarrow> True
      | _ \<Rightarrow> False)"

definition HoldsValveOpen :: "Action \<Rightarrow> bool" where
  "HoldsValveOpen a \<longleftrightarrow> act_Type a = ActionTypeOpen \<or> act_Type a = ActionTypeOpenTimed"

definition IsInternalSafetyPing :: "Action \<Rightarrow> bool" where
  "IsInternalSafetyPing a \<longleftrightarrow> act_Type a = ActionTypeKeepClose"

subsection \<open>Identifiers\<close>

lemma hex_char_inject:
  assumes "m < 16" "n < 16" "hex_char m = hex_char n"
  shows "m = n"
proof -
  have "distinct ''0123456789abcdef''" by simp
  with assms show ?thesis
    using nth_eq_iff_index_eq [of "''0123456789abcdef''" m n] by (simp add: hex_char_def)
qed

lemma length_generateID [simp]: "length (generateID b) = 2 * length b"
  by (induction b) (simp_all add: generateID_def)

lemma generateID_inject:
  "length b = length c \<Longrightarrow> generateID b = generateID c \<longleftrightarrow> b = c"
proof (induction b c rule: list_induct2)
  case Nil
  then show ?case by simp
next
  case (Cons x xs y ys)
  have byte: "unat x div 16 < 16" "unat y div 16 < 16"
    using unsigned_less [of x, where ?'a = nat] unsigned_less [of y, where ?'a = nat]
    by (simp_all add: less_mult_imp_div_less)
  have "unat x div 16 = unat y div 16 \<and> unat x mod 16 = unat y mod 16 \<Longrightarrow> unat x = unat y"
    by (metis div_mult_mod_eq)
  then have "hex_char (unat x div 16) = hex_char (unat y div 16) \<and>
      hex_char (unat x mod 16) = hex_char (unat y mod 16) \<longleftrightarrow> x = y"
    using hex_char_inject [OF byte] hex_char_inject [of "unat x mod 16" "unat y mod 16"]
    by (auto simp: unsigned_word_eqI)
  with Cons.IH show ?case by (auto simp: generateID_def)
qed

end
