(* ===== verification/World.thy ===== *)
theory World
  imports Bridge Action
begin

text \<open>
  The state one valve's pipeline runs in, and the two ways its goroutines block.

  The world holds the clock, the cancelled contexts, the store of actions (the sources share
  \<^verbatim>\<open>*Action\<close> pointers between the queue, the executing goroutine, the history and the
  REST handlers, so an action is a reference here), the event dispatcher, the confirmation
  waiters, the bridges, the metrics, the pipeline's own fields, and what went out: commands,
  status writes and spawned status checks, oldest first.

  A timeline lists what happens outside the goroutine under study, with its times. A
  blocked goroutine lets the timeline run until it is woken or its timer fires; when the
  timeline is exhausted nothing but time passes, so a wait with a timer always ends and a
  wait without one does not return (\<^term>\<open>None\<close>). Timers and context watchers fire on
  time; a late watcher is the timeline in which the event came earlier.
\<close>

subsection \<open>Contexts\<close>

text \<open>
  \<open>WithCancel i c\<close> is a child of \<open>c\<close> whose cancel function is number \<open>i\<close>; \<open>WithDeadline d c\<close>
  ends at time \<open>d\<close>. \<open>context.WithTimeout(c, d)\<close> is a deadline over a cancel node.
\<close>

datatype ctx = Background | WithCancel nat ctx | WithDeadline time ctx

fun ctx_deadline :: "ctx \<Rightarrow> time option" where
  "ctx_deadline Background = None"
| "ctx_deadline (WithCancel i c) = ctx_deadline c"
| "ctx_deadline (WithDeadline d c) =
     (case ctx_deadline c of None \<Rightarrow> Some d | Some e \<Rightarrow> Some (min d e))"

fun ctx_err_at :: "time \<Rightarrow> nat list \<Rightarrow> ctx \<Rightarrow> ctx_error option" where
  "ctx_err_at t cs Background = None"
| "ctx_err_at t cs (WithCancel i c) = (if i \<in> set cs then Some Canceled else ctx_err_at t cs c)"
| "ctx_err_at t cs (WithDeadline d c) =
     (case ctx_err_at t cs c of
        Some e \<Rightarrow> Some e
      | None \<Rightarrow> if d \<le> t then Some DeadlineExceeded else None)"

fun min_time :: "time option \<Rightarrow> time option \<Rightarrow> time option" where
  "min_time None e = e"
| "min_time d None = d"
| "min_time (Some d) (Some e) = Some (min d e)"

subsection \<open>The state\<close>

type_synonym actref = nat

record pipeline =
  p_info :: ValveInfo
  p_cancelFn :: "nat option"          \<comment> \<open>the cancel function of the executing action's context\<close>
  p_actionCh :: "actref list"         \<comment> \<open>the buffered channel, oldest first\<close>
  p_history :: "actref list"
  p_current :: "actref option"

text \<open>
  One call of \<open>waitForPower\<close>: its subscription, what it waits for, its context, the closed
  flag of its \<open>done\<close> channel and the buffer of its result channel (\<open>Some None\<close> is a nil
  error: confirmed).
\<close>

record wait_cell =
  wc_device :: string
  wc_sub :: nat
  wc_expected :: int
  wc_ctx :: ctx
  wc_done :: bool
  wc_ch :: "ctx_error option option"

record zbsend_call =
  zs_time :: time
  zs_bridge :: string
  zs_target :: string
  zs_power :: bool
  zs_published :: bool                \<comment> \<open>handed to the MQTT client\<close>

record status_write =
  sw_time :: time
  sw_Name :: string
  sw_Namespace :: string
  sw_State :: ValveState
  sw_ActionID :: string

text \<open>The MQTT library's answer to a publish: its token completes after a delay, or never.\<close>

datatype publish_outcome = PubDone duration bool | PubNever

record world =
  w_now :: time
  w_cancelled :: "nat list"
  w_next_ctx :: nat
  w_acts :: "actref \<Rightarrow> Action"
  w_next_act :: nat
  w_rand :: "nat \<Rightarrow> 8 word list"      \<comment> \<open>the random bytes of the n-th action\<close>
  w_disp :: "nat Dispatcher"          \<comment> \<open>a handler is the number of its wait cell\<close>
  w_cells :: "wait_cell list"
  w_mgr :: Manager
  w_paho :: "nat \<Rightarrow> publish_outcome"  \<comment> \<open>the library's answer to the n-th command\<close>
  w_metrics :: Metrics
  w_pl :: pipeline
  w_sends :: "zbsend_call list"
  w_writes :: "status_write list"
  w_checks :: "(string \<times> string) list"

type_synonym 'e timeline = "(time \<times> 'e) list"

definition ctx_err :: "world \<Rightarrow> ctx \<Rightarrow> ctx_error option" where
  "ctx_err w c = ctx_err_at (w_now w) (w_cancelled w) c"

definition ctx_done :: "world \<Rightarrow> ctx \<Rightarrow> bool" where
  "ctx_done w c \<longleftrightarrow> ctx_err w c \<noteq> None"

definition new_ctx :: "world \<Rightarrow> nat \<times> world" where
  "new_ctx w = (w_next_ctx w, w\<lparr> w_next_ctx := Suc (w_next_ctx w) \<rparr>)"

definition upd_act :: "actref \<Rightarrow> (Action \<Rightarrow> Action) \<Rightarrow> world \<Rightarrow> world" where
  "upd_act r f w = w\<lparr> w_acts := (w_acts w)(r := f (w_acts w r)) \<rparr>"

definition alloc_act :: "string \<Rightarrow> string \<Rightarrow> ActionType \<Rightarrow> duration \<Rightarrow> world \<Rightarrow> actref \<times> world" where
  "alloc_act name ns t d w =
     (let r = w_next_act w in
      (r, w\<lparr> w_next_act := Suc r,
             w_acts := (w_acts w)(r := newAction (w_rand w r) (w_now w) name ns t d) \<rparr>))"

definition upd_pl :: "(pipeline \<Rightarrow> pipeline) \<Rightarrow> world \<Rightarrow> world" where
  "upd_pl f w = w\<lparr> w_pl := f (w_pl w) \<rparr>"

definition upd_metrics :: "(Metrics \<Rightarrow> Metrics) \<Rightarrow> world \<Rightarrow> world" where
  "upd_metrics f w = w\<lparr> w_metrics := f (w_metrics w) \<rparr>"

subsection \<open>Confirmation waiters\<close>

text \<open>
  The two goroutines of \<open>waitForPower\<close> as atomic steps: the subscribed handler and the
  watcher of the context. Their finer interleaving is the subject of theory
  \<^verbatim>\<open>Waiter\<close>.
\<close>

definition close_cell :: "nat \<Rightarrow> ctx_error option \<Rightarrow> world \<Rightarrow> world" where
  "close_cell i v w =
     (let c = w_cells w ! i in
      w\<lparr> w_cells := (w_cells w)[i := c\<lparr> wc_done := True, wc_ch := Some v \<rparr>],
         w_disp := Unsubscribe (w_disp w) (wc_device c) (wc_sub c) \<rparr>)"

definition waiter_handler :: "nat \<Rightarrow> SensorEvent \<Rightarrow> world \<Rightarrow> world" where
  "waiter_handler i ev w =
     (if i < length (w_cells w) \<and> \<not> wc_done (w_cells w ! i) \<and>
         ev_Power ev = Some (wc_expected (w_cells w ! i))
      then close_cell i None w else w)"

definition waiter_ctx :: "nat \<Rightarrow> world \<Rightarrow> world" where
  "waiter_ctx i w =
     (if i < length (w_cells w) \<and> \<not> wc_done (w_cells w ! i)
      then case ctx_err w (wc_ctx (w_cells w ! i)) of
             None \<Rightarrow> w
           | Some e \<Rightarrow> close_cell i (Some e) w
      else w)"

definition settle :: "world \<Rightarrow> world" where
  "settle w = fold waiter_ctx [0..<length (w_cells w)] w"

definition add_cell :: "ctx \<Rightarrow> string \<Rightarrow> int \<Rightarrow> world \<Rightarrow> world" where
  "add_cell c deviceName expectedPower w =
     (let (s, d) = Subscribe (w_disp w) deviceName (length (w_cells w))
      in w\<lparr> w_disp := d,
            w_cells := w_cells w @ [\<lparr> wc_device = deviceName, wc_sub = s,
              wc_expected = expectedPower, wc_ctx = c, wc_done = False, wc_ch = None \<rparr>] \<rparr>)"

definition waitForPower :: "ctx \<Rightarrow> string \<Rightarrow> int \<Rightarrow> world \<Rightarrow> nat \<times> world" where
  "waitForPower c deviceName expectedPower w =
     (let i = length (w_cells w) in (i, waiter_ctx i (add_cell c deviceName expectedPower w)))"

definition cell_ch :: "world \<Rightarrow> nat \<Rightarrow> ctx_error option option" where
  "cell_ch w i = (if i < length (w_cells w) then wc_ch (w_cells w ! i) else None)"

text \<open>Calling the handlers an event is dispatched to.\<close>

definition dispatch_event :: "SensorEvent \<Rightarrow> world \<Rightarrow> world" where
  "dispatch_event ev w =
     fold (\<lambda>s. waiter_handler (sub_handler s) ev) (Dispatch (w_disp w) ev) w"

subsection \<open>Cancelling, and time\<close>

definition cancel_ctx :: "nat \<Rightarrow> world \<Rightarrow> world" where
  "cancel_ctx i w = settle (w\<lparr> w_cancelled := i # w_cancelled w \<rparr>)"

definition advance :: "time \<Rightarrow> world \<Rightarrow> world" where
  "advance t w = settle (w\<lparr> w_now := max (w_now w) t \<rparr>)"

definition reached :: "time option \<Rightarrow> world \<Rightarrow> bool" where
  "reached dl w \<longleftrightarrow> (case dl of None \<Rightarrow> False | Some d \<Rightarrow> d \<le> w_now w)"

fun wait :: "('e \<Rightarrow> world \<Rightarrow> world) \<Rightarrow> (world \<Rightarrow> bool) \<Rightarrow> time option \<Rightarrow> world
    \<Rightarrow> 'e timeline \<Rightarrow> (world \<times> 'e timeline) option" where
  "wait step ready dl w [] =
     (if ready w \<or> reached dl w then Some (w, [])
      else case dl of None \<Rightarrow> None | Some d \<Rightarrow> Some (advance d w, []))"
| "wait step ready dl w ((t, e) # es) =
     (if ready w \<or> reached dl w then Some (w, (t, e) # es)
      else case dl of
             None \<Rightarrow> wait step ready dl (step e (advance t w)) es
           | Some d \<Rightarrow> if d \<le> t then Some (advance d w, (t, e) # es)
                      else wait step ready dl (step e (advance t w)) es)"

subsection \<open>What the waiters leave alone\<close>

lemma close_cell_frame: "\<exists>cs d. close_cell i v w = w\<lparr> w_cells := cs, w_disp := d \<rparr>"
  by (auto simp: close_cell_def Let_def)

lemma waiter_frame:
  "\<exists>cs d. waiter_handler i ev w = w\<lparr> w_cells := cs, w_disp := d \<rparr>"
  "\<exists>cs d. waiter_ctx i w = w\<lparr> w_cells := cs, w_disp := d \<rparr>"
proof -
  have idw: "\<exists>cs d. w = w\<lparr> w_cells := cs, w_disp := d \<rparr>"
    by (intro exI [of _ "w_cells w"] exI [of _ "w_disp w"]) simp
  show "\<exists>cs d. waiter_handler i ev w = w\<lparr> w_cells := cs, w_disp := d \<rparr>"
    using idw close_cell_frame [of i _ w] by (auto simp: waiter_handler_def)
  show "\<exists>cs d. waiter_ctx i w = w\<lparr> w_cells := cs, w_disp := d \<rparr>"
    using idw close_cell_frame [of i _ w] by (auto simp: waiter_ctx_def split: option.splits)
qed

lemma fold_frame:
  assumes "\<And>x w. \<exists>cs d. f x w = w\<lparr> w_cells := cs, w_disp := d \<rparr>"
  shows "\<exists>cs d. fold f xs w = (w :: world)\<lparr> w_cells := cs, w_disp := d \<rparr>"
proof (induction xs arbitrary: w)
  case Nil
  show ?case by (intro exI [of _ "w_cells w"] exI [of _ "w_disp w"]) simp
next
  case (Cons x xs)
  from assms obtain cs d where "f x w = w\<lparr> w_cells := cs, w_disp := d \<rparr>" by blast
  with Cons.IH [of "f x w"] show ?case by auto
qed

lemma settle_frame: "\<exists>cs d. settle w = w\<lparr> w_cells := cs, w_disp := d \<rparr>"
  unfolding settle_def by (rule fold_frame) (rule waiter_frame)

lemma dispatch_frame: "\<exists>cs d. dispatch_event ev w = w\<lparr> w_cells := cs, w_disp := d \<rparr>"
  unfolding dispatch_event_def by (rule fold_frame) (rule waiter_frame)

lemma waiter_ctx_frame_simps [simp]:
  "w_now (waiter_ctx i w) = w_now w" "w_cancelled (waiter_ctx i w) = w_cancelled w"
  "w_next_ctx (waiter_ctx i w) = w_next_ctx w" "w_acts (waiter_ctx i w) = w_acts w"
  "w_next_act (waiter_ctx i w) = w_next_act w" "w_rand (waiter_ctx i w) = w_rand w"
  "w_mgr (waiter_ctx i w) = w_mgr w" "w_paho (waiter_ctx i w) = w_paho w"
  "w_metrics (waiter_ctx i w) = w_metrics w" "w_pl (waiter_ctx i w) = w_pl w"
  "w_sends (waiter_ctx i w) = w_sends w" "w_writes (waiter_ctx i w) = w_writes w"
  "w_checks (waiter_ctx i w) = w_checks w"
  using waiter_frame(2) [of i w] by auto

lemma settle_frame_simps [simp]:
  "w_now (settle w) = w_now w" "w_cancelled (settle w) = w_cancelled w"
  "w_next_ctx (settle w) = w_next_ctx w" "w_acts (settle w) = w_acts w"
  "w_next_act (settle w) = w_next_act w" "w_rand (settle w) = w_rand w"
  "w_mgr (settle w) = w_mgr w" "w_paho (settle w) = w_paho w"
  "w_metrics (settle w) = w_metrics w" "w_pl (settle w) = w_pl w"
  "w_sends (settle w) = w_sends w" "w_writes (settle w) = w_writes w"
  "w_checks (settle w) = w_checks w"
  using settle_frame [of w] by auto

lemma cancel_ctx_frame_simps [simp]:
  "w_now (cancel_ctx i w) = w_now w" "w_cancelled (cancel_ctx i w) = i # w_cancelled w"
  "w_next_ctx (cancel_ctx i w) = w_next_ctx w" "w_acts (cancel_ctx i w) = w_acts w"
  "w_next_act (cancel_ctx i w) = w_next_act w" "w_rand (cancel_ctx i w) = w_rand w"
  "w_mgr (cancel_ctx i w) = w_mgr w" "w_paho (cancel_ctx i w) = w_paho w"
  "w_metrics (cancel_ctx i w) = w_metrics w" "w_pl (cancel_ctx i w) = w_pl w"
  "w_sends (cancel_ctx i w) = w_sends w" "w_writes (cancel_ctx i w) = w_writes w"
  "w_checks (cancel_ctx i w) = w_checks w"
  by (simp_all add: cancel_ctx_def)

lemma advance_frame_simps [simp]:
  "w_now (advance t w) = max (w_now w) t" "w_cancelled (advance t w) = w_cancelled w"
  "w_next_ctx (advance t w) = w_next_ctx w" "w_acts (advance t w) = w_acts w"
  "w_next_act (advance t w) = w_next_act w" "w_rand (advance t w) = w_rand w"
  "w_mgr (advance t w) = w_mgr w" "w_paho (advance t w) = w_paho w"
  "w_metrics (advance t w) = w_metrics w" "w_pl (advance t w) = w_pl w"
  "w_sends (advance t w) = w_sends w" "w_writes (advance t w) = w_writes w"
  "w_checks (advance t w) = w_checks w"
  by (simp_all add: advance_def)

subsection \<open>Contexts\<close>

lemma ctx_deadline_err:
  "ctx_deadline c = Some d \<Longrightarrow> d \<le> t \<Longrightarrow> ctx_err_at t cs c \<noteq> None"
  by (induction c arbitrary: d) (auto split: option.splits simp: min_def split: if_splits)

lemma ctx_done_deadline: "reached (ctx_deadline c) w \<Longrightarrow> ctx_done w c"
  using ctx_deadline_err by (auto simp: reached_def ctx_done_def ctx_err_def split: option.splits)

lemma ctx_err_at_mono:
  "ctx_err_at t cs c \<noteq> None \<Longrightarrow> t \<le> t' \<Longrightarrow> set cs \<subseteq> set cs' \<Longrightarrow> ctx_err_at t' cs' c \<noteq> None"
  by (induction c) (auto split: option.splits if_splits)

lemma ctx_done_mono:
  "ctx_done w c \<Longrightarrow> w_now w \<le> w_now w' \<Longrightarrow> set (w_cancelled w) \<subseteq> set (w_cancelled w') \<Longrightarrow> ctx_done w' c"
  unfolding ctx_done_def ctx_err_def by (rule ctx_err_at_mono)

end
