(* ===== verification/Pipeline.thy ===== *)
theory Pipeline
  imports World "HOL-Library.Monad_Syntax"
begin

text \<open>
  \<^verbatim>\<open>internal/scheduler/pipeline.go\<close>: the queue, the execution and the safety ping of
  one valve. Operations that do not block are functions on the world. The goroutine that
  executes actions is a function of the world and the timeline of what the rest of the
  program does meanwhile (\<open>external\<close>): it returns the world and the remaining timeline, or
  \<^term>\<open>None\<close> when it blocks forever.
\<close>

definition maxHistorySize :: nat where
  "maxHistorySize = 100"

definition actionCh_cap :: nat where
  "actionCh_cap = 8"

definition newPipeline :: "ValveInfo \<Rightarrow> pipeline" where
  "newPipeline i =
     \<lparr> p_info = i, p_cancelFn = None, p_actionCh = [], p_history = [], p_current = None \<rparr>"

subsection \<open>Accessors and updates under the lock\<close>

abbreviation info :: "world \<Rightarrow> ValveInfo" where
  "info w \<equiv> p_info (w_pl w)"

definition upd_info :: "(ValveInfo \<Rightarrow> ValveInfo) \<Rightarrow> world \<Rightarrow> world" where
  "upd_info f = upd_pl (\<lambda>p. p\<lparr> p_info := f (p_info p) \<rparr>)"

definition UpdateConfig :: "ValveInfo \<Rightarrow> world \<Rightarrow> world" where
  "UpdateConfig i = upd_info (\<lambda>old. old\<lparr>
     vi_Config := vi_Config i, vi_FriendlyName := vi_FriendlyName i, vi_ShortAddr := vi_ShortAddr i,
     vi_BridgeName := vi_BridgeName i, vi_BridgeHost := vi_BridgeHost i,
     vi_BridgePort := vi_BridgePort i \<rparr>)"

definition GetCurrent :: "world \<Rightarrow> actref option" where
  "GetCurrent w = p_current (w_pl w)"

definition GetHistory :: "world \<Rightarrow> actref list" where
  "GetHistory w = p_history (w_pl w)"

definition GetInfo :: "world \<Rightarrow> ValveInfo" where
  "GetInfo w = p_info (w_pl w)"

definition config :: "world \<Rightarrow> ValveConfig" where
  "config w = vi_Config (p_info (w_pl w))"

definition getState :: "world \<Rightarrow> ValveState" where
  "getState w = vi_State (p_info (w_pl w))"

text \<open>The non-blocking send on the full channel takes the oldest element out first.\<close>

definition chan_put :: "actref \<Rightarrow> actref list \<Rightarrow> actref list" where
  "chan_put a ch = (if length ch < actionCh_cap then ch @ [a] else tl ch @ [a])"

definition Enqueue :: "actref \<Rightarrow> world \<Rightarrow> world" where
  "Enqueue a w =
     (let w = (case p_cancelFn (w_pl w) of
                 Some c \<Rightarrow> if act_Type (w_acts w a) = ActionTypeClose then cancel_ctx c w else w
               | None \<Rightarrow> w)
      in upd_pl (\<lambda>p. p\<lparr> p_actionCh := chan_put a (p_actionCh p) \<rparr>) w)"

definition history_put :: "actref \<Rightarrow> actref list \<Rightarrow> actref list" where
  "history_put a h = (let h = a # h in if length h > maxHistorySize then take maxHistorySize h else h)"

definition addToHistory :: "actref \<Rightarrow> world \<Rightarrow> world" where
  "addToHistory a = upd_pl (\<lambda>p. p\<lparr> p_history := history_put a (p_history p) \<rparr>)"

subsection \<open>Status propagation\<close>

definition UpdateValveStatus_call :: "string \<Rightarrow> string \<Rightarrow> ValveState \<Rightarrow> string \<Rightarrow> world \<Rightarrow> world" where
  "UpdateValveStatus_call name ns st actionID w =
     w\<lparr> w_writes := w_writes w @ [\<lparr> sw_time = w_now w, sw_Name = name, sw_Namespace = ns,
                                    sw_State = st, sw_ActionID = actionID \<rparr>] \<rparr>"

definition set_state_gauge :: "ValveInfo \<Rightarrow> rat \<Rightarrow> world \<Rightarrow> world" where
  "set_state_gauge i v = upd_metrics (\<lambda>m. m\<lparr> m_ValveState :=
     (m_ValveState m)((vi_Name i, vi_Namespace i) \<mapsto> v) \<rparr>)"

definition apply_info :: "bool \<Rightarrow> time \<Rightarrow> ValveInfo \<Rightarrow> ValveInfo" where
  "apply_info opn t i =
     (if opn then i\<lparr> vi_State := ValveStateOpen, vi_LastOpenTime := Some t \<rparr>
      else i\<lparr> vi_State := ValveStateClosed, vi_LastCloseTime := Some t \<rparr>)"

definition applyDeviceState :: "bool \<Rightarrow> world \<Rightarrow> world" where
  "applyDeviceState opn w =
     (let w = upd_info (apply_info opn (w_now w)) w;
          w = set_state_gauge (info w) (stateVal (vi_State (info w))) w;
          actionID = (case GetCurrent w of None \<Rightarrow> '''' | Some c \<Rightarrow> act_ID (w_acts w c))
      in UpdateValveStatus_call (vi_Name (info w)) (vi_Namespace (info w)) (vi_State (info w)) actionID w)"

definition markCloseUnconfirmed :: "world \<Rightarrow> world" where
  "markCloseUnconfirmed w =
     (if vi_State (info w) \<noteq> ValveStateClosed then w
      else let w = upd_info (\<lambda>i. i\<lparr> vi_State := ValveStateUnknown \<rparr>) w;
               w = set_state_gauge (info w) (-1) w
           in UpdateValveStatus_call (vi_Name (info w)) (vi_Namespace (info w)) ValveStateUnknown '''' w)"

definition updateActionID :: "string \<Rightarrow> world \<Rightarrow> world" where
  "updateActionID aid w =
     (let w = upd_info (\<lambda>i. i\<lparr> vi_CurrentActionID := aid \<rparr>) w
      in UpdateValveStatus_call (vi_Name (info w)) (vi_Namespace (info w)) (vi_State (info w)) aid w)"

definition count_action :: "actref \<Rightarrow> string \<Rightarrow> world \<Rightarrow> world" where
  "count_action a result w =
     upd_metrics (\<lambda>m. m\<lparr> m_ActionsTotal :=
       inc (act_ValveName (w_acts w a), act_Namespace (w_acts w a),
            ActionType_string (act_Type (w_acts w a)), result) (m_ActionsTotal m) \<rparr>) w"

definition observe_duration :: "actref \<Rightarrow> rat \<Rightarrow> world \<Rightarrow> world" where
  "observe_duration a x w =
     (let k = (act_ValveName (w_acts w a), act_Namespace (w_acts w a),
               ActionType_string (act_Type (w_acts w a)))
      in upd_metrics (\<lambda>m. m\<lparr> m_ActionDuration :=
           (m_ActionDuration m)(k := m_ActionDuration m k @ [x]) \<rparr>) w)"

definition count_retry :: "actref \<Rightarrow> world \<Rightarrow> world" where
  "count_retry a w =
     upd_metrics (\<lambda>m. m\<lparr> m_ActionRetries :=
       inc (act_ValveName (w_acts w a), act_Namespace (w_acts w a),
            ActionType_string (act_Type (w_acts w a))) (m_ActionRetries m) \<rparr>) w"

definition spawn_check :: "world \<Rightarrow> world" where
  "spawn_check w =
     w\<lparr> w_checks := w_checks w @ [(vi_BridgeName (info w), CommandTarget (info w))] \<rparr>"

definition set_state :: "actref \<Rightarrow> ActionState \<Rightarrow> world \<Rightarrow> world" where
  "set_state a s = upd_act a (\<lambda>x. x\<lparr> act_State := s \<rparr>)"

subsection \<open>The rest of the program, as seen by the executing goroutine\<close>

text \<open>The last section of \<open>keepClosedPing\<close>, after a confirmed OFF.\<close>

definition ping_apply :: "world \<Rightarrow> world" where
  "ping_apply w =
     (case GetCurrent w of
        None \<Rightarrow> applyDeviceState False w
      | Some c \<Rightarrow> if IsTerminal (w_acts w c) then applyDeviceState False w else w)"

text \<open>The section of \<open>Scheduler.UpdateSensorFields\<close> that holds the pipeline's lock, and its gauges.\<close>

definition sensor_fields :: "SensorEvent \<Rightarrow> ValveInfo \<Rightarrow> ValveInfo" where
  "sensor_fields ev i =
     i\<lparr> vi_LinkQuality := (case ev_LinkQuality ev of None \<Rightarrow> vi_LinkQuality i | Some x \<Rightarrow> wrap_signed 32 x),
        vi_BatteryPercentage :=
          (case ev_BatteryPercentage ev of None \<Rightarrow> vi_BatteryPercentage i | Some x \<Rightarrow> wrap_signed 32 x),
        vi_DailyIrrigationVolume :=
          (case ev_DailyIrrigationVolume ev of None \<Rightarrow> vi_DailyIrrigationVolume i | Some x \<Rightarrow> x),
        vi_LastValveOpenDuration :=
          (case ev_LastValveOpenDuration ev of None \<Rightarrow> vi_LastValveOpenDuration i | Some x \<Rightarrow> x) \<rparr>"

definition set_sensor_gauges :: "ValveInfo \<Rightarrow> Metrics \<Rightarrow> Metrics" where
  "set_sensor_gauges i m =
     (let k = (vi_Name i, vi_Namespace i) in
      m\<lparr> m_LinkQuality := (m_LinkQuality m)(k \<mapsto> of_int (vi_LinkQuality i)),
         m_BatteryPercentage := (m_BatteryPercentage m)(k \<mapsto> of_int (vi_BatteryPercentage i)),
         m_DailyIrrigationVolume := (m_DailyIrrigationVolume m)(k \<mapsto> vi_DailyIrrigationVolume i),
         m_LastOpenDuration := (m_LastOpenDuration m)(k \<mapsto> of_int (vi_LastValveOpenDuration i) / 1000) \<rparr>)"

definition update_sensor :: "SensorEvent \<Rightarrow> world \<Rightarrow> world" where
  "update_sensor ev w =
     (let w = upd_info (sensor_fields ev) w in upd_metrics (set_sensor_gauges (info w)) w)"

text \<open>
  An action requested through the scheduler: allocated for this valve and enqueued.
\<close>

definition request :: "ActionType \<Rightarrow> duration \<Rightarrow> world \<Rightarrow> actref \<times> world" where
  "request t d w =
     (let (a, w) = alloc_act (vi_Name (info w)) (vi_Namespace (info w)) t d w
      in (a, Enqueue a w))"

datatype external =
    Sensor string "json option"       \<comment> \<open>an MQTT message for \<open>handleSensor\<close>\<close>
  | Request ActionType duration       \<comment> \<open>\<open>Scheduler.Open\<close> or \<open>Scheduler.Close\<close>\<close>
  | Reconfigure ValveInfo             \<comment> \<open>\<open>Scheduler.RegisterValve\<close> on the running pipeline\<close>
  | Stop nat                          \<comment> \<open>\<open>Scheduler.DeregisterValve\<close> or shutdown\<close>
  | PingConfirmed                     \<comment> \<open>the keep-closed goroutine saw a closed valve\<close>
  | SensorFields SensorEvent          \<comment> \<open>\<open>Scheduler.UpdateSensorFields\<close>\<close>
  | BridgeUpsert BridgeConfig bool    \<comment> \<open>\<open>Manager.Upsert\<close>; did \<open>Connect\<close> succeed\<close>
  | BridgeRemove string               \<comment> \<open>\<open>Manager.Remove\<close>\<close>

fun external_step :: "external \<Rightarrow> world \<Rightarrow> world" where
  "external_step (Sensor topic payload) w =
     (let (evs, m) = handleSensor topic payload (w_metrics w)
      in fold dispatch_event evs (w\<lparr> w_metrics := m \<rparr>))"
| "external_step (Request t d) w = snd (request t d w)"
| "external_step (Reconfigure i) w = UpdateConfig i w"
| "external_step (Stop cid) w = cancel_ctx cid w"
| "external_step PingConfirmed w = ping_apply w"
| "external_step (SensorFields ev) w = update_sensor ev w"
| "external_step (BridgeUpsert cfg ok) w =
     (let (_, mgr, m) = Upsert (w_mgr w) (w_metrics w) cfg (if ok then None else Some ())
      in w\<lparr> w_mgr := mgr, w_metrics := m \<rparr>)"
| "external_step (BridgeRemove name) w =
     (let (mgr, m) = Remove (w_mgr w) (w_metrics w) name
      in w\<lparr> w_mgr := mgr, w_metrics := m \<rparr>)"

abbreviation block :: "(world \<Rightarrow> bool) \<Rightarrow> time option \<Rightarrow> world \<Rightarrow> external timeline
    \<Rightarrow> (world \<times> external timeline) option" where
  "block \<equiv> wait external_step"

end
