(* ===== verification/Execute.thy ===== *)
theory Execute
  imports Pipeline
begin

text \<open>
  The executing goroutine of \<^verbatim>\<open>internal/scheduler/pipeline.go\<close>: \<open>attemptWithRetry\<close>,
  \<open>execute\<close> and the loop of \<open>run\<close>; and the keep-closed goroutine. Each blocking
  statement (a publish, the pause between repeated commands, the wait for a confirmation,
  the wait of a timed open, the select of the main loop) lets the timeline run.
\<close>

type_synonym 'r proc = "(('r \<times> world \<times> external timeline) option)"

subsection \<open>Sending one command\<close>

datatype send_error = NotConnected | TokenError | SendCtx ctx_error

text \<open>
  \<open>BridgeClient.SendZbSend\<close> publishes and waits for the token or the context;
  \<open>Manager.SendZbSend\<close> looks the client up first. The log records the name under which the
  manager keeps the client, and commands that found no client too.
\<close>

definition log_send :: "string \<Rightarrow> string \<Rightarrow> bool \<Rightarrow> bool \<Rightarrow> world \<Rightarrow> world" where
  "log_send bridge target pwr published w =
     w\<lparr> w_sends := w_sends w @ [\<lparr> zs_time = w_now w, zs_bridge = bridge, zs_target = target,
                                  zs_power = pwr, zs_published = published \<rparr>] \<rparr>"

definition client_SendZbSend :: "('e \<Rightarrow> world \<Rightarrow> world) \<Rightarrow> ctx \<Rightarrow> string \<Rightarrow> string \<Rightarrow> bool \<Rightarrow> world
    \<Rightarrow> 'e timeline \<Rightarrow> (send_error option \<times> world \<times> 'e timeline) option" where
  "client_SendZbSend step c bridgeName deviceName pwr w es =
     (let outcome = w_paho w (length (w_sends w));
          token = (case outcome of PubDone d ok \<Rightarrow> Some (w_now w + d) | PubNever \<Rightarrow> None)
      in do {
        (w, es) \<leftarrow> wait step (\<lambda>w. ctx_done w c) (min_time token (ctx_deadline c))
                    (log_send bridgeName deviceName pwr True w) es;
        Some (case outcome of
                PubDone d ok \<Rightarrow> if reached token w then (if ok then None else Some TokenError)
                               else map_option SendCtx (ctx_err w c)
              | PubNever \<Rightarrow> map_option SendCtx (ctx_err w c),
              w, es)
      })"

definition SendZbSend :: "('e \<Rightarrow> world \<Rightarrow> world) \<Rightarrow> ctx \<Rightarrow> string \<Rightarrow> string \<Rightarrow> bool \<Rightarrow> world
    \<Rightarrow> 'e timeline \<Rightarrow> (send_error option \<times> world \<times> 'e timeline) option" where
  "SendZbSend step c bridgeName deviceName pwr w es =
     (case mgr_bridges (w_mgr w) bridgeName of
        None \<Rightarrow> Some (Some NotConnected, log_send bridgeName deviceName pwr False w, es)
      | Some _ \<Rightarrow> client_SendZbSend step c bridgeName deviceName pwr w es)"

text \<open>
  The loop that repeats a command: \<open>n\<close> commands are left, \<open>i\<close> is the loop counter; half a
  second between commands unless the wait context ends.
\<close>

fun send_loop :: "('e \<Rightarrow> world \<Rightarrow> world) \<Rightarrow> ctx \<Rightarrow> ctx \<Rightarrow> string \<Rightarrow> string \<Rightarrow> bool \<Rightarrow> nat \<Rightarrow> int
    \<Rightarrow> bool \<Rightarrow> world \<Rightarrow> 'e timeline \<Rightarrow> (bool \<times> world \<times> 'e timeline) option" where
  "send_loop step c waitCtx bridge target pwr 0 i published w es = Some (published, w, es)"
| "send_loop step c waitCtx bridge target pwr (Suc n) i published w es =
     do {
       (w, es) \<leftarrow> (if i > 0
          then wait step (\<lambda>w. ctx_done w waitCtx)
                 (min_time (Some (w_now w + 500 * Millisecond)) (ctx_deadline waitCtx)) w es
          else Some (w, es));
       (err, w, es) \<leftarrow> SendZbSend step c bridge target pwr w es;
       send_loop step c waitCtx bridge target pwr n (i + 1) (published \<or> err = None) w es
     }"

subsection \<open>One attempt\<close>

datatype attempt_result = Unpublished | Confirmed | AttemptCtx ctx_error | TimedOut

definition close_count :: "ValveInfo \<Rightarrow> int" where
  "close_count i = (if CloseRepeatCount (vi_Config i) < 1 then 1 else CloseRepeatCount (vi_Config i))"

definition sendCount :: "bool \<Rightarrow> ValveInfo \<Rightarrow> int" where
  "sendCount pwr i = (if \<not> pwr then close_count i else 1)"

definition expectedPower :: "bool \<Rightarrow> int" where
  "expectedPower pwr = (if pwr then 1 else 0)"

text \<open>
  Up to the first publish: the information is read afresh, the attempt is recorded, the
  waiter is registered. Gives the information, the cancel function and the context of the
  wait, the waiter and the world.
\<close>

definition attempt_setup :: "ctx \<Rightarrow> actref \<Rightarrow> bool \<Rightarrow> duration \<Rightarrow> int \<Rightarrow> world
    \<Rightarrow> ValveInfo \<times> nat \<times> ctx \<times> nat \<times> world" where
  "attempt_setup c a pwr timeout attempt w =
     (let w = (if attempt > 0 then count_retry a w else w);
          i = GetInfo w;
          w = upd_act a (\<lambda>x. x\<lparr> act_Attempts := attempt + 1, act_LastAttempt := Some (w_now w) \<rparr>) w;
          (cid, w) = new_ctx w;
          waitCtx = WithDeadline (w_now w + timeout) (WithCancel cid c);
          (cell, w) = waitForPower waitCtx (CommandTarget i) (expectedPower pwr) w;
          w = set_state a ActionStateWaitingConfirmation w
      in (i, cid, waitCtx, cell, w))"

text \<open>After the commands went out: wait for the confirmation and give the wait up.\<close>

definition attempt_await :: "ctx \<Rightarrow> nat \<Rightarrow> ctx \<Rightarrow> nat \<Rightarrow> world \<Rightarrow> external timeline
    \<Rightarrow> attempt_result proc" where
  "attempt_await c cid waitCtx cell w es =
     do {
       (w, es) \<leftarrow> block (\<lambda>w. cell_ch w cell \<noteq> None) (ctx_deadline waitCtx) w es;
       (let err = the (cell_ch w cell); w = cancel_ctx cid w
        in Some (if err = None then Confirmed
                 else case ctx_err w c of
                        Some e \<Rightarrow> AttemptCtx e
                      | None \<Rightarrow> TimedOut, w, es))
     }"

definition attempt_once :: "ctx \<Rightarrow> actref \<Rightarrow> bool \<Rightarrow> duration \<Rightarrow> int \<Rightarrow> world \<Rightarrow> external timeline
    \<Rightarrow> attempt_result proc" where
  "attempt_once c a pwr timeout attempt w es =
     (let (i, cid, waitCtx, cell, w) = attempt_setup c a pwr timeout attempt w
      in do {
        (published, w, es) \<leftarrow> send_loop external_step c waitCtx (vi_BridgeName i) (CommandTarget i) pwr
                                (nat (sendCount pwr i)) 0 False w es;
        (if \<not> published then Some (Unpublished, cancel_ctx cid w, es)
         else attempt_await c cid waitCtx cell w es)
      })"

text \<open>The retry loop: \<open>n\<close> attempts are left, \<open>attempt\<close> is the loop counter.\<close>

fun attempt_loop :: "ctx \<Rightarrow> actref \<Rightarrow> bool \<Rightarrow> int \<Rightarrow> duration \<Rightarrow> nat \<Rightarrow> int \<Rightarrow> world
    \<Rightarrow> external timeline \<Rightarrow> action_error option proc" where
  "attempt_loop c a pwr retryCount timeout 0 attempt w es =
     Some (Some (NoConfirmation retryCount), w, es)"
| "attempt_loop c a pwr retryCount timeout (Suc n) attempt w es =
     do {
       (res, w, es) \<leftarrow> attempt_once c a pwr timeout attempt w es;
       (case res of
          Confirmed \<Rightarrow> Some (None, applyDeviceState pwr w, es)
        | AttemptCtx e \<Rightarrow> Some (Some (ContextError e), set_state a ActionStateCancelled w, es)
        | _ \<Rightarrow> attempt_loop c a pwr retryCount timeout n (attempt + 1) w es)
     }"

definition attemptWithRetry :: "ctx \<Rightarrow> actref \<Rightarrow> bool \<Rightarrow> int \<Rightarrow> duration \<Rightarrow> world
    \<Rightarrow> external timeline \<Rightarrow> action_error option proc" where
  "attemptWithRetry c a pwr retryCount timeout w es =
     attempt_loop c a pwr retryCount timeout (nat retryCount) 0 (set_state a ActionStateSending w) es"

subsection \<open>Executing an action\<close>

text \<open>The upgrade of an indefinite open when the valve has a maximal open duration.\<close>

definition upgrade_open :: "ValveConfig \<Rightarrow> Action \<Rightarrow> Action" where
  "upgrade_open cfg x =
     (if act_Type x = ActionTypeOpen \<and> MaxOpenDuration cfg > 0
      then x\<lparr> act_Type := ActionTypeOpenTimed, act_Duration := MaxOpenDuration cfg \<rparr> else x)"

text \<open>The deferred function of \<open>execute\<close>.\<close>

definition exec_finish :: "nat \<Rightarrow> actref \<Rightarrow> world \<Rightarrow> world" where
  "exec_finish cid a w =
     (let w = cancel_ctx cid w;
          w = upd_pl (\<lambda>p. p\<lparr> p_cancelFn := None, p_current := None \<rparr>) w
      in if \<not> IsInternalSafetyPing (w_acts w a) then addToHistory a w else w)"

text \<open>The branch for an error of \<open>attemptWithRetry\<close>.\<close>

definition exec_failed :: "actref \<Rightarrow> bool \<Rightarrow> action_error \<Rightarrow> world \<Rightarrow> world" where
  "exec_failed a pwr err w =
     (if act_State (w_acts w a) \<noteq> ActionStateCancelled then
        let w = upd_act a (\<lambda>x. x\<lparr> act_State := ActionStateFailed, act_FailedAt := Some (w_now w),
                                  act_ErrorMessage := err \<rparr>) w;
            w = (if \<not> IsInternalSafetyPing (w_acts w a) then count_action a ''failed'' w else w)
        in if \<not> pwr then markCloseUnconfirmed w else w
      else w)"

text \<open>The bookkeeping after a confirmed command.\<close>

definition exec_fulfilled :: "actref \<Rightarrow> bool \<Rightarrow> world \<Rightarrow> world" where
  "exec_fulfilled a pwr w =
     (let w = (if \<not> pwr then spawn_check w else w);
          t = w_now w;
          w = upd_act a (\<lambda>x. x\<lparr> act_FulfilledAt := Some t, act_State := ActionStateFulfilled \<rparr>) w;
          elapsed = of_int (t - act_RequestedAt (w_acts w a)) / of_int Second
      in if \<not> IsInternalSafetyPing (w_acts w a)
         then observe_duration a elapsed (count_action a ''fulfilled'' w) else w)"

text \<open>The end of a timed open, once its closing attempts are over.\<close>

definition exec_closed :: "actref \<Rightarrow> action_error option \<Rightarrow> world \<Rightarrow> world" where
  "exec_closed a closeErr w =
     (let w = spawn_check w;
          t = w_now w;
          w = upd_act a (\<lambda>x. x\<lparr> act_ClosedAt := Some t \<rparr>) w
      in case closeErr of
           Some e \<Rightarrow>
             (let w = upd_act a (\<lambda>x. x\<lparr> act_State := ActionStateFailed, act_FailedAt := Some t,
                                        act_ErrorMessage := CloseNotConfirmed e \<rparr>) w
              in markCloseUnconfirmed (count_action a ''close_unconfirmed'' w))
         | None \<Rightarrow> set_state a ActionStateFulfilled w)"

text \<open>The timed part: hold the valve open, then close it whatever happened meanwhile.\<close>

definition exec_hold :: "ctx \<Rightarrow> actref \<Rightarrow> world \<Rightarrow> external timeline
    \<Rightarrow> (world \<times> external timeline) option" where
  "exec_hold actionCtx a w es =
     (let t = w_now w;
          w = upd_act a (\<lambda>x. x\<lparr> act_ExpiresAt := Some (t + act_Duration x),
                                act_State := ActionStateClosing \<rparr>) w;
          w = updateActionID (act_ID (w_acts w a)) w
      in block (\<lambda>w. ctx_done w actionCtx)
           (min_time (Some (w_now w + act_Duration (w_acts w a))) (ctx_deadline actionCtx)) w es)"

definition exec_close :: "actref \<Rightarrow> ValveConfig \<Rightarrow> world \<Rightarrow> external timeline
    \<Rightarrow> (world \<times> external timeline) option" where
  "exec_close a cfg w es =
     (let (cid2, w) = new_ctx w;
          closeCtx = WithDeadline (w_now w + 2 * Minute) (WithCancel cid2 Background);
          (closeAction, w) = alloc_act (act_ValveName (w_acts w a)) (act_Namespace (w_acts w a))
                               ActionTypeClose 0 w
      in do {
        (closeErr, w, es) \<leftarrow> attemptWithRetry closeCtx closeAction False
                               (RetryCount cfg) (CommandTimeout cfg) w es;
        Some (exec_closed a closeErr (cancel_ctx cid2 w), es)
      })"

text \<open>Taking the action slot.\<close>

definition exec_begin :: "actref \<Rightarrow> world \<Rightarrow> nat \<times> world" where
  "exec_begin a w =
     (let (cid, w) = new_ctx w
      in (cid, upd_pl (\<lambda>p. p\<lparr> p_cancelFn := Some cid, p_current := Some a \<rparr>) w))"

definition execute :: "ctx \<Rightarrow> actref \<Rightarrow> world \<Rightarrow> external timeline
    \<Rightarrow> (world \<times> external timeline) option" where
  "execute c a w es =
     (let cfg = config w;
          w = upd_act a (upgrade_open cfg) w
      in if Disabled cfg \<and> (act_Type (w_acts w a) = ActionTypeOpen \<or> act_Type (w_acts w a) = ActionTypeOpenTimed)
         then Some (addToHistory a (set_state a ActionStateCancelled w), es)
         else
           let (cid, w) = exec_begin a w;
               actionCtx = WithCancel cid c;
               pwr = (act_Type (w_acts w a) \<noteq> ActionTypeClose \<and> act_Type (w_acts w a) \<noteq> ActionTypeKeepClose)
           in do {
             (err, w, es) \<leftarrow> attemptWithRetry actionCtx a pwr (RetryCount cfg) (CommandTimeout cfg) w es;
             (case err of
                Some e \<Rightarrow> Some (exec_finish cid a (exec_failed a pwr e w), es)
              | None \<Rightarrow>
                  (let w = exec_fulfilled a pwr w in
                   if act_Type (w_acts w a) = ActionTypeOpenTimed
                   then do {
                     (w, es) \<leftarrow> exec_hold actionCtx a w es;
                     (w, es) \<leftarrow> exec_close a cfg w es;
                     Some (exec_finish cid a (updateActionID '''' w), es)
                   }
                   else Some (exec_finish cid a (updateActionID '''' w), es)))
           })"

subsection \<open>The main loop\<close>

text \<open>
  One round of the select of \<open>run\<close>. When an action and the end of the context are both
  ready Go chooses at random: \<open>pick\<close> tells which. The result says whether the loop goes on.
\<close>

definition run_once :: "ctx \<Rightarrow> bool \<Rightarrow> world \<Rightarrow> external timeline \<Rightarrow> bool proc" where
  "run_once c pick w es =
     do {
       (w, es) \<leftarrow> block (\<lambda>w. p_actionCh (w_pl w) \<noteq> [] \<or> ctx_done w c) None w es;
       (if p_actionCh (w_pl w) \<noteq> [] \<and> (pick \<or> \<not> ctx_done w c) then
          (let a = hd (p_actionCh (w_pl w));
               w = upd_pl (\<lambda>p. p\<lparr> p_actionCh := tl (p_actionCh p) \<rparr>) w
           in do { (w, es) \<leftarrow> execute c a w es; Some (True, w, es) })
        else if getState w = ValveStateOpen then
          (let i = GetInfo w;
               (cid, w) = new_ctx w;
               closeCtx = WithDeadline (w_now w + 2 * Minute) (WithCancel cid Background);
               (a, w) = alloc_act (vi_Name i) (vi_Namespace i) ActionTypeClose 0 w
           in do { (w, es) \<leftarrow> execute closeCtx a w es; Some (False, cancel_ctx cid w, es) })
        else Some (False, w, es))
     }"

text \<open>The loop itself, one round per element of \<open>picks\<close>.\<close>

fun run :: "ctx \<Rightarrow> bool list \<Rightarrow> world \<Rightarrow> external timeline \<Rightarrow> (world \<times> external timeline) option" where
  "run c [] w es = None"
| "run c (pick # picks) w es =
     do {
       (more, w, es) \<leftarrow> run_once c pick w es;
       if more then run c picks w es else Some (w, es)
     }"

end
