(* ===== verification/Ping.thy ===== *)
theory Ping
  imports Execute
begin

text \<open>
  The keep-closed goroutine of \<^verbatim>\<open>internal/scheduler/pipeline.go\<close> (\<open>keepClosedLoop\<close>,
  \<open>keepClosedPing\<close>) and the advisory check after a close. Seen from this goroutine the rest
  of the program includes the executing goroutine, whose sections that touch the fields the
  ping reads are the steps \<open>Worker...\<close> of its timeline.
\<close>

datatype ping_env =
    Ext external
  | WorkerBegin actref                 \<comment> \<open>\<open>execute\<close> takes the action slot\<close>
  | WorkerState actref ActionState     \<comment> \<open>\<open>execute\<close> or \<open>attemptWithRetry\<close> sets the action's state\<close>
  | WorkerApply bool                   \<comment> \<open>\<open>attemptWithRetry\<close> saw the confirmation\<close>
  | WorkerEnd                          \<comment> \<open>the deferred function of \<open>execute\<close>\<close>

fun ping_env_step :: "ping_env \<Rightarrow> world \<Rightarrow> world" where
  "ping_env_step (Ext e) w = external_step e w"
| "ping_env_step (WorkerBegin a) w =
     (let (cid, w) = new_ctx w
      in upd_pl (\<lambda>p. p\<lparr> p_cancelFn := Some cid, p_current := Some a \<rparr>) w)"
| "ping_env_step (WorkerState a s) w = set_state a s w"
| "ping_env_step (WorkerApply opn) w = applyDeviceState opn w"
| "ping_env_step WorkerEnd w = upd_pl (\<lambda>p. p\<lparr> p_cancelFn := None, p_current := None \<rparr>) w"

definition ping_suppressed :: "world \<Rightarrow> bool" where
  "ping_suppressed w \<longleftrightarrow>
     (case GetCurrent w of
        None \<Rightarrow> False
      | Some c \<Rightarrow> \<not> IsTerminal (w_acts w c) \<and> HoldsValveOpen (w_acts w c))"

text \<open>Up to the first publish: the counter, and the waiter registered before it.\<close>

definition ping_setup :: "ctx \<Rightarrow> world \<Rightarrow> ValveInfo \<times> nat \<times> ctx \<times> nat \<times> world" where
  "ping_setup c w =
     (let i = GetInfo w;
          target = CommandTarget i;
          w = upd_metrics (\<lambda>m. m\<lparr> m_SafetyClosesTotal :=
                inc (vi_Name i, vi_Namespace i) (m_SafetyClosesTotal m) \<rparr>) w;
          timeout = (if CommandTimeout (vi_Config i) \<le> 0 then 30 * Second
                     else CommandTimeout (vi_Config i));
          (cid, w) = new_ctx w;
          waitCtx = WithDeadline (w_now w + timeout) (WithCancel cid c);
          (cell, w) = waitForPower waitCtx target 0 w
      in (i, cid, waitCtx, cell, w))"

definition keepClosedPing :: "ctx \<Rightarrow> world \<Rightarrow> ping_env timeline
    \<Rightarrow> (world \<times> ping_env timeline) option" where
  "keepClosedPing c w es =
     (if ping_suppressed w then Some (w, es)
      else
        let (i, cid, waitCtx, cell, w) = ping_setup c w
        in do {
          (_, w, es) \<leftarrow> send_loop ping_env_step c waitCtx (vi_BridgeName i) (CommandTarget i) False
                          (nat (close_count i)) 0 False w es;
          (w, es) \<leftarrow> wait ping_env_step (\<lambda>w. cell_ch w cell \<noteq> None) (ctx_deadline waitCtx) w es;
          Some (cancel_ctx cid (if cell_ch w cell = Some None then ping_apply w else w), es)
        })"

definition keepClosed_interval :: "ValveConfig \<Rightarrow> duration" where
  "keepClosed_interval cfg = (if KeepClosedInterval cfg \<le> 0 then 5 * Minute else KeepClosedInterval cfg)"

text \<open>
  What the loop does at a tick: the ping, then the interval for the next ticks (changed only
  when the configuration now holds another positive one).
\<close>

definition keepClosed_tick :: "ctx \<Rightarrow> duration \<Rightarrow> world \<Rightarrow> ping_env timeline
    \<Rightarrow> (duration \<times> world \<times> ping_env timeline) option" where
  "keepClosed_tick c interval w es =
     do {
       (w, es) \<leftarrow> keepClosedPing c w es;
       (let cur = KeepClosedInterval (config w)
        in Some (if cur > 0 \<and> cur \<noteq> interval then cur else interval, w, es))
     }"

text \<open>
  The ticker as its interval and the time of its next tick. A tick that nobody receives stays
  pending and the ones after it are dropped, so the tick after one received at \<open>t\<close> is the first
  multiple of the interval after \<open>t\<close>. A reset starts a new interval.
\<close>

definition ticker_after :: "duration \<Rightarrow> time \<Rightarrow> time \<Rightarrow> time" where
  "ticker_after interval tick t = tick + interval * ((t - tick) div interval + 1)"

text \<open>
  One round of the select of \<open>keepClosedLoop\<close>; as in \<open>run\<close>, \<open>pick\<close> decides when a tick and the
  end of the context are both ready. Without a ticker in the result the loop has ended.
\<close>

definition keepClosed_round :: "ctx \<Rightarrow> bool \<Rightarrow> duration \<Rightarrow> time \<Rightarrow> world \<Rightarrow> ping_env timeline
    \<Rightarrow> ((duration \<times> time) option \<times> world \<times> ping_env timeline) option" where
  "keepClosed_round c pick interval tick w es =
     do {
       (w, es) \<leftarrow> wait ping_env_step (\<lambda>w. ctx_done w c) (min_time (Some tick) (ctx_deadline c)) w es;
       (if tick \<le> w_now w \<and> (pick \<or> \<not> ctx_done w c) then
          (let t = w_now w in do {
             (interval', w, es) \<leftarrow> keepClosed_tick c interval w es;
             Some (Some (interval', if interval' \<noteq> interval then w_now w + interval'
                                    else ticker_after interval tick t), w, es)
           })
        else Some (None, w, es))
     }"

fun keepClosed_rounds :: "ctx \<Rightarrow> bool list \<Rightarrow> duration \<Rightarrow> time \<Rightarrow> world \<Rightarrow> ping_env timeline
    \<Rightarrow> (world \<times> ping_env timeline) option" where
  "keepClosed_rounds c [] interval tick w es = None"
| "keepClosed_rounds c (pick # picks) interval tick w es =
     do {
       (r, w, es) \<leftarrow> keepClosed_round c pick interval tick w es;
       (case r of
          None \<Rightarrow> Some (w, es)
        | Some (interval, tick) \<Rightarrow> keepClosed_rounds c picks interval tick w es)
     }"

definition keepClosedLoop :: "ctx \<Rightarrow> bool list \<Rightarrow> world \<Rightarrow> ping_env timeline
    \<Rightarrow> (world \<times> ping_env timeline) option" where
  "keepClosedLoop c picks w es =
     (let interval = keepClosed_interval (config w)
      in keepClosed_rounds c picks interval (w_now w + interval) w es)"

subsection \<open>The verdict of the advisory status check\<close>

datatype check_verdict = CheckFailed status3_error | StillOpen int | CheckedClosed

definition status3_verdict :: "status3_error + ZbStatus3ValveResult \<Rightarrow> check_verdict" where
  "status3_verdict r =
     (case r of
        Inl e \<Rightarrow> CheckFailed e
      | Inr x \<Rightarrow> (case zr_Power x of
                    Some p \<Rightarrow> if p \<noteq> 0 then StillOpen p else CheckedClosed
                  | None \<Rightarrow> CheckedClosed))"

end
