(* ===== verification/Steps.thy ===== *)
theory Steps
  imports Ping
begin

text \<open>
  The executing goroutine as a transition system. Whatever \<open>execute\<close> does, together with
  what the rest of the program does while it blocks, is a finite sequence of atomic steps,
  one per critical section or effect. Invariants and frame properties are proved per step
  and hold for whole executions.
\<close>

subsection \<open>Atomic steps\<close>

text \<open>
  \<open>A\<close> is the set of actions the goroutine may write, \<open>P\<close> the set of positions it may record
  (\<open>True\<close> for open). Once an action executes, its identity, type and duration are
  fixed (\<open>act_static\<close>).
\<close>

definition act_static :: "Action \<Rightarrow> string \<times> string \<times> string \<times> ActionType \<times> duration \<times> time" where
  "act_static x = (act_ID x, act_ValveName x, act_Namespace x, act_Type x, act_Duration x, act_RequestedAt x)"

inductive atomic :: "actref set \<Rightarrow> bool set \<Rightarrow> world \<Rightarrow> world \<Rightarrow> bool" for A P where
  tick: "w_now w \<le> t \<Longrightarrow> atomic A P w (w\<lparr> w_now := t \<rparr>)"
| cell: "i < length (w_cells w) \<Longrightarrow> \<not> wc_done (w_cells w ! i) \<Longrightarrow> atomic A P w (close_cell i v w)"
| cancel: "atomic A P w (w\<lparr> w_cancelled := i # w_cancelled w \<rparr>)"
| context_new: "atomic A P w (snd (new_ctx w))"
| waiter: "atomic A P w (add_cell c dev p w)"
| alloc: "atomic A P w (snd (alloc_act n ns t d w))"
| put: "a < w_next_act w \<Longrightarrow> atomic A P w (upd_pl (\<lambda>p. p\<lparr> p_actionCh := chan_put a (p_actionCh p) \<rparr>) w)"
| take: "atomic A P w (upd_pl (\<lambda>p. p\<lparr> p_actionCh := tl (p_actionCh p) \<rparr>) w)"
| config: "atomic A P w (UpdateConfig i w)"
| sensor: "atomic A P w (upd_info (sensor_fields ev) w)"
| bridges: "atomic A P w (w\<lparr> w_mgr := m \<rparr>)"
| metrics: "atomic A P w (upd_metrics f w)"
| send: "atomic A P w (log_send b dev p pub w)"
| status: "atomic A P w (UpdateValveStatus_call n ns s aid w)"
| check: "atomic A P w (spawn_check w)"
| act: "a \<in> A \<Longrightarrow> (\<And>x. act_static (f x) = act_static x) \<Longrightarrow> atomic A P w (upd_act a f w)"
| slot: "(c = None \<longleftrightarrow> r = None) \<Longrightarrow> set_option r \<subseteq> A \<inter> {..<w_next_act w} \<Longrightarrow>
     atomic A P w (upd_pl (\<lambda>p. p\<lparr> p_cancelFn := c, p_current := r \<rparr>) w)"
| history: "a \<in> A \<Longrightarrow> a < w_next_act w \<Longrightarrow> atomic A P w (addToHistory a w)"
| position: "opn \<in> P \<Longrightarrow> atomic A P w (upd_info (apply_info opn t) w)"
| unconfirmed: "vi_State (info w) = ValveStateClosed \<Longrightarrow>
     atomic A P w (upd_info (\<lambda>i. i\<lparr> vi_State := ValveStateUnknown \<rparr>) w)"
| action_id: "atomic A P w (upd_info (\<lambda>i. i\<lparr> vi_CurrentActionID := aid \<rparr>) w)"

abbreviation steps :: "actref set \<Rightarrow> bool set \<Rightarrow> world \<Rightarrow> world \<Rightarrow> bool" where
  "steps A P \<equiv> (atomic A P)\<^sup>*\<^sup>*"

lemma atomic_mono: "atomic A P w w' \<Longrightarrow> A \<subseteq> A' \<Longrightarrow> P \<subseteq> P' \<Longrightarrow> atomic A' P' w w'"
  by (induction rule: atomic.induct) (auto intro: atomic.intros)

lemma steps_mono:
  assumes "steps A P w w'" "A \<subseteq> A'" "P \<subseteq> P'"
  shows "steps A' P' w w'"
  using assms(1)
proof (induction rule: rtranclp_induct)
  case base
  show ?case by simp
next
  case (step y z)
  with atomic_mono [OF step.hyps(2) assms(2,3)] show ?case by (meson rtranclp.rtrancl_into_rtrancl)
qed

lemma steps_rel:
  assumes "\<And>w w'. atomic A P w w' \<Longrightarrow> R w w'" "\<And>w. R w w" "\<And>u v w. R u v \<Longrightarrow> R v w \<Longrightarrow> R u w"
    and "steps A P w w'"
  shows "R w w'"
  using assms(4) by (induction rule: rtranclp_induct) (auto intro: assms(1-3))

lemma steps_inv:
  assumes "\<And>w w'. atomic A P w w' \<Longrightarrow> I w \<Longrightarrow> I w'" and "steps A P w w'" "I w"
  shows "I w'"
  using assms(2,3) by (induction rule: rtranclp_induct) (auto intro: assms(1))

lemma steps_then: "steps A P u v \<Longrightarrow> atomic A P v w \<Longrightarrow> steps A P u w"
  by (rule rtranclp.rtrancl_into_rtrancl)

lemma step1: "atomic A P w w' \<Longrightarrow> steps A P w w'"
  by (rule r_into_rtranclp)

subsection \<open>The operations are sequences of steps\<close>

lemma waiter_steps:
  "steps A P w (waiter_handler i ev w)" "steps A P w (waiter_ctx i w)"
  by (auto simp: waiter_handler_def waiter_ctx_def intro: step1 atomic.cell split: option.splits)

lemma fold_steps: "(\<And>x w. steps A P w (f x w)) \<Longrightarrow> steps A P w (fold f xs w)"
  by (induction xs arbitrary: w) (auto intro: rtranclp_trans)

lemma settle_steps: "steps A P w (settle w)"
  unfolding settle_def by (rule fold_steps) (rule waiter_steps)

lemma dispatch_steps: "steps A P w (dispatch_event ev w)"
  unfolding dispatch_event_def by (rule fold_steps) (rule waiter_steps)

lemma cancel_ctx_steps: "steps A P w (cancel_ctx i w)"
  unfolding cancel_ctx_def by (rule converse_rtranclp_into_rtranclp [OF atomic.cancel settle_steps])

lemma advance_steps: "steps A P w (advance t w)"
  unfolding advance_def by (rule converse_rtranclp_into_rtranclp [OF atomic.tick settle_steps]) simp

lemma waitForPower_steps: "steps A P w (snd (waitForPower c dev p w))"
  unfolding waitForPower_def Let_def snd_conv
  by (rule converse_rtranclp_into_rtranclp [OF atomic.waiter waiter_steps(2)])

lemma set_state_steps: "a \<in> A \<Longrightarrow> steps A P w (set_state a s w)"
  unfolding set_state_def by (rule step1 [OF atomic.act]) (auto simp: act_static_def)

lemma metric_steps:
  "steps A P w (set_state_gauge i v w)" "steps A P w (count_action a r w)"
  "steps A P w (observe_duration a x w)" "steps A P w (count_retry a w)"
  unfolding set_state_gauge_def count_action_def observe_duration_def count_retry_def Let_def
  by (rule step1 [OF atomic.metrics])+

lemma applyDeviceState_steps: "opn \<in> P \<Longrightarrow> steps A P w (applyDeviceState opn w)"
  unfolding applyDeviceState_def Let_def
  by (rule steps_then [OF rtranclp_trans [OF step1 [OF atomic.position] metric_steps(1)] atomic.status])

lemma markCloseUnconfirmed_steps: "steps A P w (markCloseUnconfirmed w)"
proof (cases "vi_State (info w) = ValveStateClosed")
  case True
  then have "markCloseUnconfirmed w =
    (let w = upd_info (\<lambda>i. i\<lparr> vi_State := ValveStateUnknown \<rparr>) w; w = set_state_gauge (info w) (-1) w
     in UpdateValveStatus_call (vi_Name (info w)) (vi_Namespace (info w)) ValveStateUnknown '''' w)"
    by (simp add: markCloseUnconfirmed_def)
  then show ?thesis
    unfolding Let_def
    using steps_then [OF rtranclp_trans [OF step1 [OF atomic.unconfirmed [OF True]] metric_steps(1)] atomic.status]
    by simp
next
  case False
  then show ?thesis by (simp add: markCloseUnconfirmed_def)
qed

lemma updateActionID_steps: "steps A P w (updateActionID aid w)"
  unfolding updateActionID_def Let_def by (rule steps_then [OF step1 [OF atomic.action_id] atomic.status])

lemma ping_apply_steps: "False \<in> P \<Longrightarrow> steps A P w (ping_apply w)"
  by (auto simp: ping_apply_def applyDeviceState_steps split: option.splits)

lemma update_sensor_steps: "steps A P w (update_sensor ev w)"
  unfolding update_sensor_def Let_def by (rule steps_then [OF step1 [OF atomic.sensor] atomic.metrics])

lemma Enqueue_steps:
  assumes "a < w_next_act w"
  shows "steps A P w (Enqueue a w)"
proof -
  let ?w = "case p_cancelFn (w_pl w) of
    Some c \<Rightarrow> if act_Type (w_acts w a) = ActionTypeClose then cancel_ctx c w else w | None \<Rightarrow> w"
  have "steps A P w ?w" by (auto simp: cancel_ctx_steps split: option.splits)
  moreover have "a < w_next_act ?w" using assms by (auto split: option.splits)
  ultimately show ?thesis
    unfolding Enqueue_def Let_def by (rule steps_then [OF _ atomic.put])
qed

lemma request_steps: "steps A P w (snd (request t d w))"
proof -
  obtain a w' where al: "alloc_act (vi_Name (info w)) (vi_Namespace (info w)) t d w = (a, w')"
    by (cases "alloc_act (vi_Name (info w)) (vi_Namespace (info w)) t d w")
  have "atomic A P w w'" using atomic.alloc [of A P w] al by (metis snd_conv)
  moreover have "a < w_next_act w'" using al by (auto simp: alloc_act_def Let_def)
  ultimately have "steps A P w (Enqueue a w')"
    by (meson Enqueue_steps converse_rtranclp_into_rtranclp)
  then show ?thesis by (simp add: request_def al)
qed

lemma external_steps:
  assumes "False \<in> P"
  shows "steps A P w (external_step e w)"
proof (cases e)
  case (Sensor topic payload)
  have "atomic A P w (w\<lparr> w_metrics := m \<rparr>)" for m
    using atomic.metrics [of A P w "\<lambda>_. m"] by (simp add: upd_metrics_def)
  then show ?thesis
    unfolding Sensor external_step.simps Let_def split_beta
    by (rule converse_rtranclp_into_rtranclp [OF _ fold_steps]) (rule dispatch_steps)
next
  case (BridgeUpsert cfg ok)
  have "steps A P w (w\<lparr> w_mgr := g, w_metrics := m \<rparr>)" for g m
    using steps_then [OF step1 [OF atomic.bridges [of A P w g]] atomic.metrics [of A P _ "\<lambda>_. m"]]
    by (simp add: upd_metrics_def)
  then show ?thesis unfolding BridgeUpsert by (simp add: Let_def split_beta)
next
  case (BridgeRemove name)
  have "steps A P w (w\<lparr> w_mgr := g, w_metrics := m \<rparr>)" for g m
    using steps_then [OF step1 [OF atomic.bridges [of A P w g]] atomic.metrics [of A P _ "\<lambda>_. m"]]
    by (simp add: upd_metrics_def)
  then show ?thesis unfolding BridgeRemove by (simp add: Let_def split_beta)
qed (auto simp: request_steps cancel_ctx_steps ping_apply_steps assms update_sensor_steps
       intro: step1 atomic.config)

subsection \<open>Blocking operations under a rely condition\<close>

text \<open>
  What holds across a blocking statement: a predicate that time and the events allowed by
  \<open>ok\<close> keep. The remaining timeline is a suffix of the given one. Across the commands of an
  attempt the predicate must also survive the logging of a command.
\<close>

locale stable =
  fixes env :: "'e \<Rightarrow> world \<Rightarrow> world"
    and ok :: "'e \<Rightarrow> bool"
    and Q :: "world \<Rightarrow> bool"
  assumes rely_advance: "Q w \<Longrightarrow> Q (advance t w)"
    and rely_env: "Q w \<Longrightarrow> ok e \<Longrightarrow> Q (env e w)"
begin

lemma wait_rely:
  assumes "wait env ready dl w es = Some (w', es')"
  shows "\<exists>pre. es = pre @ es' \<and> (Q w \<longrightarrow> list_all (\<lambda>x. ok (snd x)) pre \<longrightarrow> Q w')"
  using assms
proof (induction es arbitrary: w)
  case Nil
  then show ?case by (auto split: if_splits option.splits intro: rely_advance)
next
  case (Cons x es)
  obtain t e where x: "x = (t, e)" by (cases x)
  show ?case
  proof (cases "ready w \<or> reached dl w \<or> (\<exists>d. dl = Some d \<and> d \<le> t)")
    case True
    with Cons.prems show ?thesis
      by (auto simp: x split: if_splits option.splits intro: rely_advance)
  next
    case False
    then have "wait env ready dl w (x # es) = wait env ready dl (env e (advance t w)) es"
      by (auto simp: x split: option.splits)
    with Cons.prems have "wait env ready dl (env e (advance t w)) es = Some (w', es')" by simp
    from Cons.IH [OF this] obtain pre where "es = pre @ es'"
      "Q (env e (advance t w)) \<longrightarrow> list_all (\<lambda>x. ok (snd x)) pre \<longrightarrow> Q w'" by blast
    then show ?thesis
      by (intro exI [of _ "x # pre"]) (auto simp: x intro: rely_env rely_advance)
  qed
qed

lemma rely_chain:
  assumes "\<exists>pre. es = pre @ es1 \<and> (Q w \<longrightarrow> list_all (\<lambda>x. ok (snd x)) pre \<longrightarrow> Q w1)"
    and "\<exists>pre. es1 = pre @ es2 \<and> (Q w1 \<longrightarrow> list_all (\<lambda>x. ok (snd x)) pre \<longrightarrow> Q w2)"
  shows "\<exists>pre. es = pre @ es2 \<and> (Q w \<longrightarrow> list_all (\<lambda>x. ok (snd x)) pre \<longrightarrow> Q w2)"
proof -
  from assms obtain p q where "es = p @ es1" "Q w \<longrightarrow> list_all (\<lambda>x. ok (snd x)) p \<longrightarrow> Q w1"
    "es1 = q @ es2" "Q w1 \<longrightarrow> list_all (\<lambda>x. ok (snd x)) q \<longrightarrow> Q w2" by blast
  then show ?thesis by (intro exI [of _ "p @ q"]) auto
qed

lemma rely_refl: "\<exists>pre. es = pre @ es \<and> (Q w \<longrightarrow> list_all (\<lambda>x. ok (snd x)) pre \<longrightarrow> Q w)"
  by simp

end

locale rely = stable +
  assumes rely_send: "Q w \<Longrightarrow> Q (log_send b dev p pub w)"
begin

lemma SendZbSend_rely:
  assumes "SendZbSend env c b dev p w es = Some (err, w', es')"
  shows "\<exists>pre. es = pre @ es' \<and> (Q w \<longrightarrow> list_all (\<lambda>x. ok (snd x)) pre \<longrightarrow> Q w')"
proof (cases "mgr_bridges (w_mgr w) b")
  case None
  with assms show ?thesis by (auto simp: SendZbSend_def client_SendZbSend_def intro: rely_send)
next
  case (Some x)
  with assms obtain dl where "wait env (\<lambda>w. ctx_done w c) dl (log_send b dev p True w) es = Some (w', es')"
    by (auto simp: SendZbSend_def client_SendZbSend_def Let_def bind_eq_Some_conv)
  from wait_rely [OF this] show ?thesis by (auto intro: rely_send)
qed

lemma send_loop_rely:
  "send_loop env c wc b dev p n i pub w es = Some (pub', w', es') \<Longrightarrow>
   \<exists>pre. es = pre @ es' \<and> (Q w \<longrightarrow> list_all (\<lambda>x. ok (snd x)) pre \<longrightarrow> Q w')"
proof (induction n arbitrary: i pub w es)
  case 0
  then show ?case by simp
next
  case (Suc n)
  from Suc.prems obtain w1 es1 w2 es2 err where
    pause: "(if i > 0 then wait env (\<lambda>w. ctx_done w wc)
       (min_time (Some (w_now w + 500 * Millisecond)) (ctx_deadline wc)) w es
       else Some (w, es)) = Some (w1, es1)"
    and snd: "SendZbSend env c b dev p w1 es1 = Some (err, w2, es2)"
    and rest: "send_loop env c wc b dev p n (i + 1) (pub \<or> err = None) w2 es2 = Some (pub', w', es')"
    by (auto simp: bind_eq_Some_conv simp del: split_paired_Ex)
  have "\<exists>pre. es = pre @ es1 \<and> (Q w \<longrightarrow> list_all (\<lambda>x. ok (snd x)) pre \<longrightarrow> Q w1)"
    using pause wait_rely [of _ _ w es w1 es1] by (auto split: if_splits)
  from rely_chain [OF rely_chain [OF this SendZbSend_rely [OF snd]] Suc.IH [OF rest]]
  show ?case .
qed

end

text \<open>The steps of the executing goroutine are such a predicate, for every event.\<close>

interpretation env_steps: rely external_step "\<lambda>_. True" "steps A (insert False P) w0" for A P w0
proof (unfold_locales, goal_cases)
  case (1 w t) then show ?case by (meson advance_steps rtranclp_trans)
next
  case (2 w e) then show ?case by (meson external_steps insertI1 rtranclp_trans)
next
  case (3 w b dev p pub) then show ?case by (rule steps_then [OF _ atomic.send])
qed

lemma block_steps:
  "block ready dl w es = Some (w', es') \<Longrightarrow> steps A (insert False P) w w'"
  using env_steps.wait_rely [of ready dl w es w' es' A P w] by (auto simp: list_all_iff)

lemma send_loop_steps:
  "send_loop external_step c wc b dev p n i pub w es = Some (pub', w', es') \<Longrightarrow>
   steps A (insert False P) w w'"
  using env_steps.send_loop_rely [of c wc b dev p n i pub w es pub' w' es' A P w]
  by (auto simp: list_all_iff)

lemma attempt_setup_steps:
  assumes "a \<in> A" "attempt_setup c a pwr timeout n w = (i, cid, wc, cell, w')"
  shows "steps A P w w'"
proof -
  let ?w1 = "if n > 0 then count_retry a w else w"
  let ?w2 = "upd_act a (\<lambda>x. x\<lparr> act_Attempts := n + 1, act_LastAttempt := Some (w_now ?w1) \<rparr>) ?w1"
  let ?w3 = "snd (new_ctx ?w2)"
  let ?w4 = "snd (waitForPower wc (CommandTarget i) (expectedPower pwr) ?w3)"
  have w': "w' = set_state a ActionStateWaitingConfirmation ?w4"
    using assms(2) by (auto simp: attempt_setup_def Let_def split_beta)
  have "steps A P w ?w1" by (simp add: metric_steps)
  also have "steps A P ?w1 ?w2" by (rule step1 [OF atomic.act]) (simp_all add: assms act_static_def)
  also have "steps A P ?w2 ?w3" by (rule step1 [OF atomic.context_new])
  also have "steps A P ?w3 ?w4" by (rule waitForPower_steps)
  also have "steps A P ?w4 w'" unfolding w' by (rule set_state_steps [OF assms(1)])
  finally show ?thesis .
qed

lemma attempt_await_steps:
  assumes "attempt_await c cid wc cell w es = Some (res, w', es')"
  shows "steps A (insert False P) w w'"
proof -
  from assms obtain w1 where
    "block (\<lambda>w. cell_ch w cell \<noteq> None) (ctx_deadline wc) w es = Some (w1, es')" "w' = cancel_ctx cid w1"
    by (auto simp: attempt_await_def bind_eq_Some_conv Let_def)
  then show ?thesis using block_steps cancel_ctx_steps by (meson rtranclp_trans)
qed

lemma attempt_once_steps:
  assumes "a \<in> A" "attempt_once c a pwr timeout n w es = Some (res, w', es')"
  shows "steps A (insert False P) w w'"
proof -
  obtain i cid wc cell w1 where set: "attempt_setup c a pwr timeout n w = (i, cid, wc, cell, w1)"
    by (cases "attempt_setup c a pwr timeout n w")
  from assms(2) obtain pub w2 es2 where
    lp: "send_loop external_step c wc (vi_BridgeName i) (CommandTarget i) pwr
      (nat (sendCount pwr i)) 0 False w1 es = Some (pub, w2, es2)"
    and fin: "(if \<not> pub then Some (Unpublished, cancel_ctx cid w2, es2)
      else attempt_await c cid wc cell w2 es2) = Some (res, w', es')"
    by (auto simp: attempt_once_def set bind_eq_Some_conv)
  have "steps A (insert False P) w w1" by (rule attempt_setup_steps [OF assms(1) set])
  also have "steps A (insert False P) w1 w2" by (rule send_loop_steps [OF lp])
  also have "steps A (insert False P) w2 w'"
    using fin attempt_await_steps cancel_ctx_steps by (auto split: if_splits)
  finally show ?thesis .
qed

lemma attempt_loop_steps:
  assumes "a \<in> A" "pwr \<in> insert False P"
    and "attempt_loop c a pwr rc timeout k n w es = Some (err, w', es')"
  shows "steps A (insert False P) w w'"
  using assms(3)
proof (induction k arbitrary: n w es)
  case 0
  then show ?case by simp
next
  case (Suc k)
  from Suc.prems obtain res w1 es1 where
    one: "attempt_once c a pwr timeout n w es = Some (res, w1, es1)"
    and rest: "(case res of
          Confirmed \<Rightarrow> Some (None, applyDeviceState pwr w1, es1)
        | AttemptCtx e \<Rightarrow> Some (Some (ContextError e), set_state a ActionStateCancelled w1, es1)
        | _ \<Rightarrow> attempt_loop c a pwr rc timeout k (n + 1) w1 es1) = Some (err, w', es')"
    by (auto simp: bind_eq_Some_conv simp del: split_paired_Ex)
  have "steps A (insert False P) w w1" by (rule attempt_once_steps [OF assms(1) one])
  also have "steps A (insert False P) w1 w'"
    using rest Suc.IH [of "n + 1" w1 es1] applyDeviceState_steps [OF assms(2)] set_state_steps [OF assms(1)]
    by (auto split: attempt_result.splits)
  finally show ?case .
qed

lemma attemptWithRetry_steps:
  assumes "a \<in> A" "pwr \<in> insert False P"
    and "attemptWithRetry c a pwr rc timeout w es = Some (err, w', es')"
  shows "steps A (insert False P) w w'"
  using assms attempt_loop_steps [OF assms(1,2)] set_state_steps [OF assms(1)]
  unfolding attemptWithRetry_def by (meson rtranclp_trans)

lemma exec_begin_steps:
  assumes "a \<in> A" "a < w_next_act w"
  shows "steps A P w (snd (exec_begin a w))"
proof -
  from assms have "atomic A P (snd (new_ctx w))
      (upd_pl (\<lambda>p. p\<lparr> p_cancelFn := Some (w_next_ctx w), p_current := Some a \<rparr>) (snd (new_ctx w)))"
    by (intro atomic.slot) (auto simp: new_ctx_def)
  with step1 [OF atomic.context_new] show ?thesis
    by (auto simp: exec_begin_def new_ctx_def intro: steps_then)
qed

lemma exec_finish_steps:
  assumes "a \<in> A" "a < w_next_act w"
  shows "steps A P w (exec_finish cid a w)"
proof -
  let ?w = "upd_pl (\<lambda>p. p\<lparr> p_cancelFn := None, p_current := None \<rparr>) (cancel_ctx cid w)"
  have "steps A P w ?w" by (rule steps_then [OF cancel_ctx_steps atomic.slot]) simp_all
  then show ?thesis
    using atomic.history [OF assms(1), of ?w P] assms(2) by (auto simp: exec_finish_def Let_def upd_pl_def intro: steps_then)
qed

lemma exec_failed_steps:
  assumes "a \<in> A"
  shows "steps A P w (exec_failed a pwr err w)"
proof (cases "act_State (w_acts w a) \<noteq> ActionStateCancelled")
  case True
  let ?w1 = "upd_act a (\<lambda>x. x\<lparr> act_State := ActionStateFailed, act_FailedAt := Some (w_now w),
               act_ErrorMessage := err \<rparr>) w"
  let ?w2 = "if \<not> IsInternalSafetyPing (w_acts ?w1 a) then count_action a ''failed'' ?w1 else ?w1"
  have 1: "steps A P w ?w1" by (rule step1 [OF atomic.act]) (simp_all add: assms act_static_def)
  have 2: "steps A P ?w1 ?w2" by (simp add: metric_steps)
  have 3: "steps A P u (if \<not> pwr then markCloseUnconfirmed u else u)" for u
    by (simp add: markCloseUnconfirmed_steps)
  have "exec_failed a pwr err w = (if \<not> pwr then markCloseUnconfirmed ?w2 else ?w2)"
    unfolding exec_failed_def Let_def using True by (rule if_P)
  then show ?thesis by (rule ssubst) (rule rtranclp_trans [OF rtranclp_trans [OF 1 2] 3])
next
  case False
  then show ?thesis by (simp add: exec_failed_def)
qed

lemma exec_fulfilled_steps:
  assumes "a \<in> A"
  shows "steps A P w (exec_fulfilled a pwr w)"
proof -
  let ?w1 = "if \<not> pwr then spawn_check w else w"
  let ?w2 = "upd_act a (\<lambda>x. x\<lparr> act_FulfilledAt := Some (w_now ?w1), act_State := ActionStateFulfilled \<rparr>) ?w1"
  have 1: "steps A P w ?w1" by (auto intro: step1 atomic.check)
  have 2: "steps A P ?w1 ?w2" by (rule step1 [OF atomic.act]) (simp_all add: assms act_static_def)
  have 3: "steps A P ?w2 (observe_duration a x (count_action a r ?w2))" for x r
    by (rule rtranclp_trans [OF metric_steps(2) metric_steps(3)])
  from rtranclp_trans [OF 1 2] rtranclp_trans [OF rtranclp_trans [OF 1 2] 3]
  show ?thesis unfolding exec_fulfilled_def Let_def by (simp only: simp_thms split: if_split)
qed

lemma exec_closed_steps:
  assumes "a \<in> A"
  shows "steps A P w (exec_closed a err w)"
proof -
  let ?w1 = "upd_act a (\<lambda>x. x\<lparr> act_ClosedAt := Some (w_now (spawn_check w)) \<rparr>) (spawn_check w)"
  have w1: "steps A P w ?w1"
    by (rule steps_then [OF step1 [OF atomic.check] atomic.act]) (simp_all add: assms act_static_def)
  show ?thesis
  proof (cases err)
    case None
    with rtranclp_trans [OF w1 set_state_steps [OF assms]] show ?thesis
      by (simp add: exec_closed_def Let_def)
  next
    case (Some e)
    have "steps A P w (upd_act a (\<lambda>x. x\<lparr> act_State := ActionStateFailed,
        act_FailedAt := Some (w_now (spawn_check w)), act_ErrorMessage := CloseNotConfirmed e \<rparr>) ?w1)"
      by (rule steps_then [OF w1 atomic.act]) (simp_all add: assms act_static_def)
    from rtranclp_trans [OF rtranclp_trans [OF this metric_steps(2)] markCloseUnconfirmed_steps]
    show ?thesis by (simp add: exec_closed_def Let_def Some)
  qed
qed

subsection \<open>What only grows\<close>

text \<open>
  The order in which worlds evolve: time, the cancelled contexts and the allocated
  references grow, what went out is only appended to, a waiter keeps what it waits for and
  stays finished once it is.
\<close>

definition cell_le :: "wait_cell \<Rightarrow> wait_cell \<Rightarrow> bool" where
  "cell_le c d \<longleftrightarrow> wc_device d = wc_device c \<and> wc_sub d = wc_sub c \<and> wc_expected d = wc_expected c \<and>
     wc_ctx d = wc_ctx c \<and> (wc_done c \<longrightarrow> d = c)"

definition world_le :: "world \<Rightarrow> world \<Rightarrow> bool" where
  "world_le w w' \<longleftrightarrow>
     w_now w \<le> w_now w' \<and> set (w_cancelled w) \<subseteq> set (w_cancelled w') \<and>
     w_next_ctx w \<le> w_next_ctx w' \<and> w_next_act w \<le> w_next_act w' \<and>
     w_rand w' = w_rand w \<and> w_paho w' = w_paho w \<and>
     (\<exists>xs. w_sends w' = w_sends w @ xs) \<and> (\<exists>xs. w_writes w' = w_writes w @ xs) \<and>
     (\<exists>xs. w_checks w' = w_checks w @ xs) \<and>
     vi_Name (info w') = vi_Name (info w) \<and> vi_Namespace (info w') = vi_Namespace (info w) \<and>
     length (w_cells w) \<le> length (w_cells w') \<and>
     (\<forall>i < length (w_cells w). cell_le (w_cells w ! i) (w_cells w' ! i))"

lemma cell_le_refl [simp]: "cell_le c c"
  by (simp add: cell_le_def)

lemma cell_le_trans: "cell_le c d \<Longrightarrow> cell_le d e \<Longrightarrow> cell_le c e"
  by (auto simp: cell_le_def)

lemma world_le_refl: "world_le w w"
  by (simp add: world_le_def)

lemma world_le_trans: "world_le u v \<Longrightarrow> world_le v w \<Longrightarrow> world_le u w"
  by (auto simp: world_le_def intro: cell_le_trans dest: less_le_trans)

lemmas update_defs = upd_pl_def upd_info_def upd_act_def upd_metrics_def new_ctx_def alloc_act_def
  UpdateConfig_def sensor_fields_def apply_info_def log_send_def UpdateValveStatus_call_def
  spawn_check_def addToHistory_def

lemma close_cell_simps:
  "w_cells (close_cell i v w) = (w_cells w)[i := (w_cells w ! i)\<lparr> wc_done := True, wc_ch := Some v \<rparr>]"
  "w_disp (close_cell i v w) = Unsubscribe (w_disp w) (wc_device (w_cells w ! i)) (wc_sub (w_cells w ! i))"
  "w_now (close_cell i v w) = w_now w" "w_cancelled (close_cell i v w) = w_cancelled w"
  "w_next_ctx (close_cell i v w) = w_next_ctx w" "w_acts (close_cell i v w) = w_acts w"
  "w_next_act (close_cell i v w) = w_next_act w" "w_rand (close_cell i v w) = w_rand w"
  "w_mgr (close_cell i v w) = w_mgr w" "w_paho (close_cell i v w) = w_paho w"
  "w_metrics (close_cell i v w) = w_metrics w" "w_pl (close_cell i v w) = w_pl w"
  "w_sends (close_cell i v w) = w_sends w" "w_writes (close_cell i v w) = w_writes w"
  "w_checks (close_cell i v w) = w_checks w"
  by (simp_all add: close_cell_def Let_def)

lemma add_cell_simps:
  "w_cells (add_cell c dev p w) = w_cells w @ [\<lparr> wc_device = dev,
     wc_sub = fst (Subscribe (w_disp w) dev (length (w_cells w))),
     wc_expected = p, wc_ctx = c, wc_done = False, wc_ch = None \<rparr>]"
  "w_disp (add_cell c dev p w) = snd (Subscribe (w_disp w) dev (length (w_cells w)))"
  "w_now (add_cell c dev p w) = w_now w" "w_cancelled (add_cell c dev p w) = w_cancelled w"
  "w_next_ctx (add_cell c dev p w) = w_next_ctx w" "w_acts (add_cell c dev p w) = w_acts w"
  "w_next_act (add_cell c dev p w) = w_next_act w" "w_rand (add_cell c dev p w) = w_rand w"
  "w_mgr (add_cell c dev p w) = w_mgr w" "w_paho (add_cell c dev p w) = w_paho w"
  "w_metrics (add_cell c dev p w) = w_metrics w" "w_pl (add_cell c dev p w) = w_pl w"
  "w_sends (add_cell c dev p w) = w_sends w" "w_writes (add_cell c dev p w) = w_writes w"
  "w_checks (add_cell c dev p w) = w_checks w"
  by (simp_all add: add_cell_def split_beta Let_def)

lemma cell_le_close: "i < length cs \<Longrightarrow> \<not> wc_done (cs ! i) \<Longrightarrow> k < length cs \<Longrightarrow>
    cell_le (cs ! k) (cs[i := (cs ! i)\<lparr> wc_done := True, wc_ch := Some v \<rparr>] ! k)"
  by (cases "k = i") (auto simp: cell_le_def)

lemma atomic_le: "atomic A P w w' \<Longrightarrow> world_le w w'"
  by (induction rule: atomic.induct)
    (auto simp: world_le_def update_defs Let_def close_cell_simps add_cell_simps nth_append
      intro: cell_le_close)

lemma steps_le: "steps A P w w' \<Longrightarrow> world_le w w'"
  by (rule steps_rel [of A P world_le]) (auto intro: atomic_le world_le_refl world_le_trans)

subsection \<open>An execution is a sequence of steps\<close>

lemma exec_hold_steps:
  assumes "a \<in> A" "exec_hold c a w es = Some (w', es')"
  shows "steps A (insert False P) w w'"
proof -
  let ?w1 = "upd_act a (\<lambda>x. x\<lparr> act_ExpiresAt := Some (w_now w + act_Duration x),
               act_State := ActionStateClosing \<rparr>) w"
  have 1: "steps A (insert False P) w ?w1" by (rule step1 [OF atomic.act]) (simp_all add: assms act_static_def)
  have 2: "steps A (insert False P) ?w1 (updateActionID aid ?w1)" for aid by (rule updateActionID_steps)
  from block_steps [OF assms(2) [unfolded exec_hold_def Let_def]]
  show ?thesis by (rule rtranclp_trans [OF rtranclp_trans [OF 1 2]])
qed

lemma exec_close_steps:
  assumes "insert a {w_next_act w..} \<subseteq> A" "exec_close a cfg w es = Some (w', es')"
  shows "steps A (insert False P) w w'"
proof -
  let ?w1 = "snd (new_ctx w)"
  let ?al = "alloc_act (act_ValveName (w_acts w a)) (act_Namespace (w_acts w a)) ActionTypeClose 0 ?w1"
  let ?c = "WithDeadline (w_now w + 2 * Minute) (WithCancel (w_next_ctx w) Background)"
  from assms(2) obtain err w2 es2 where
    att: "attemptWithRetry ?c (fst ?al) False (RetryCount cfg) (CommandTimeout cfg) (snd ?al) es
          = Some (err, w2, es2)"
    and w': "w' = exec_closed a err (cancel_ctx (w_next_ctx w) w2)"
    by (auto simp: exec_close_def new_ctx_def Let_def split_beta bind_eq_Some_conv)
  have cl: "fst ?al \<in> A" using assms(1) by (auto simp: alloc_act_def new_ctx_def Let_def)
  have 1: "steps A (insert False P) w (snd ?al)"
    by (rule steps_then [OF step1 [OF atomic.context_new] atomic.alloc])
  have 2: "steps A (insert False P) (snd ?al) w2" by (rule attemptWithRetry_steps [OF cl _ att]) simp
  have 3: "steps A (insert False P) w2 w'"
    unfolding w' by (rule rtranclp_trans [OF cancel_ctx_steps exec_closed_steps]) (use assms(1) in simp)
  show ?thesis by (rule rtranclp_trans [OF rtranclp_trans [OF 1 2] 3])
qed

text \<open>
  The steps of \<open>execute\<close>: it writes its own action and the close actions it allocates, and
  records the position \<open>open\<close> only for an action that opens.
\<close>

definition opens :: "ActionType \<Rightarrow> bool" where
  "opens t \<longleftrightarrow> t \<noteq> ActionTypeClose \<and> t \<noteq> ActionTypeKeepClose"

lemma steps_own_mono: "steps (insert a {w_next_act v..}) P v v' \<Longrightarrow> world_le w v \<Longrightarrow>
    steps (insert a {w_next_act w..}) P v v'"
  by (erule steps_mono) (auto simp: world_le_def)

lemma upgrade_open_simps [simp]:
  "act_ID (upgrade_open cfg x) = act_ID x" "act_State (upgrade_open cfg x) = act_State x"
  "act_ValveName (upgrade_open cfg x) = act_ValveName x" "act_Namespace (upgrade_open cfg x) = act_Namespace x"
  "act_RequestedAt (upgrade_open cfg x) = act_RequestedAt x"
  "opens (act_Type (upgrade_open cfg x)) = opens (act_Type x)"
  "IsInternalSafetyPing (upgrade_open cfg x) = IsInternalSafetyPing x"
  by (auto simp: upgrade_open_def opens_def IsInternalSafetyPing_def)

lemma upd_act_simps [simp]:
  "w_acts (upd_act a f w) = (w_acts w)(a := f (w_acts w a))" "w_now (upd_act a f w) = w_now w"
  "w_next_act (upd_act a f w) = w_next_act w" "w_next_ctx (upd_act a f w) = w_next_ctx w"
  "w_pl (upd_act a f w) = w_pl w" "w_cancelled (upd_act a f w) = w_cancelled w"
  "w_cells (upd_act a f w) = w_cells w" "w_disp (upd_act a f w) = w_disp w"
  "w_sends (upd_act a f w) = w_sends w" "w_mgr (upd_act a f w) = w_mgr w"
  "w_paho (upd_act a f w) = w_paho w" "w_writes (upd_act a f w) = w_writes w"
  by (simp_all add: upd_act_def)

definition exec_start :: "actref \<Rightarrow> world \<Rightarrow> world" where
  "exec_start a w = snd (exec_begin a (upd_act a (upgrade_open (config w)) w))"

lemma opens_alt: "opens t \<longleftrightarrow> t = ActionTypeOpen \<or> t = ActionTypeOpenTimed"
  by (cases t) (auto simp: opens_def)

text \<open>The body of \<open>execute\<close> after the action slot is taken.\<close>

definition exec_after :: "nat \<Rightarrow> ctx \<Rightarrow> actref \<Rightarrow> bool \<Rightarrow> ValveConfig \<Rightarrow> action_error option proc
    \<Rightarrow> (world \<times> external timeline) option" where
  "exec_after cid c a pwr cfg att =
     do {
       (err, w, es) \<leftarrow> att;
       (case err of
          Some e \<Rightarrow> Some (exec_finish cid a (exec_failed a pwr e w), es)
        | None \<Rightarrow>
            (let w = exec_fulfilled a pwr w in
             if act_Type (w_acts w a) = ActionTypeOpenTimed
             then do {
               (w, es) \<leftarrow> exec_hold (WithCancel cid c) a w es;
               (w, es) \<leftarrow> exec_close a cfg w es;
               Some (exec_finish cid a (updateActionID '''' w), es)
             }
             else Some (exec_finish cid a (updateActionID '''' w), es)))
     }"

lemma execute_unfold:
  "execute c a w es =
     (let pwr = opens (act_Type (w_acts w a)) in
      if Disabled (config w) \<and> pwr
      then Some (addToHistory a (set_state a ActionStateCancelled (upd_act a (upgrade_open (config w)) w)), es)
      else exec_after (w_next_ctx w) c a pwr (config w)
        (attemptWithRetry (WithCancel (w_next_ctx w) c) a pwr (RetryCount (config w))
           (CommandTimeout (config w)) (exec_start a w) es))"
proof -
  let ?T = "act_Type (w_acts w a)"
  let ?w0 = "upd_act a (upgrade_open (config w)) w"
  have T: "act_Type (w_acts ?w0 a) = ActionTypeOpen \<or> act_Type (w_acts ?w0 a) = ActionTypeOpenTimed \<longleftrightarrow> opens ?T"
    using upgrade_open_simps(6) [of "config w" "w_acts w a"] by (simp add: opens_alt)
  have start: "exec_begin a ?w0 = (w_next_ctx w, exec_start a w)"
    by (simp add: exec_start_def exec_begin_def new_ctx_def)
  have pwr: "(act_Type (w_acts (exec_start a w) a) \<noteq> ActionTypeClose \<and>
      act_Type (w_acts (exec_start a w) a) \<noteq> ActionTypeKeepClose) = opens ?T"
    using upgrade_open_simps(6) [of "config w" "w_acts w a"]
    by (simp add: opens_def exec_start_def exec_begin_def new_ctx_def upd_pl_def)
  show ?thesis
    unfolding execute_def exec_after_def Let_def T start split_conv pwr by (rule refl)
qed

lemma execute_cases:
  assumes "execute c a w es = Some (w', es')"
  obtains
    (rejected) "Disabled (config w)" "opens (act_Type (w_acts w a))" "es' = es"
      "w' = addToHistory a (set_state a ActionStateCancelled (upd_act a (upgrade_open (config w)) w))"
  | (failed) e w2 where "\<not> (Disabled (config w) \<and> opens (act_Type (w_acts w a)))"
      "attemptWithRetry (WithCancel (w_next_ctx w) c) a (opens (act_Type (w_acts w a)))
         (RetryCount (config w)) (CommandTimeout (config w)) (exec_start a w) es = Some (Some e, w2, es')"
      "w' = exec_finish (w_next_ctx w) a (exec_failed a (opens (act_Type (w_acts w a))) e w2)"
  | (plain) w2 where "\<not> (Disabled (config w) \<and> opens (act_Type (w_acts w a)))"
      "attemptWithRetry (WithCancel (w_next_ctx w) c) a (opens (act_Type (w_acts w a)))
         (RetryCount (config w)) (CommandTimeout (config w)) (exec_start a w) es = Some (None, w2, es')"
      "act_Type (w_acts (exec_fulfilled a (opens (act_Type (w_acts w a))) w2) a) \<noteq> ActionTypeOpenTimed"
      "w' = exec_finish (w_next_ctx w) a (updateActionID '''' (exec_fulfilled a (opens (act_Type (w_acts w a))) w2))"
  | (timed) w2 es2 w3 es3 w4 where "\<not> (Disabled (config w) \<and> opens (act_Type (w_acts w a)))"
      "attemptWithRetry (WithCancel (w_next_ctx w) c) a (opens (act_Type (w_acts w a)))
         (RetryCount (config w)) (CommandTimeout (config w)) (exec_start a w) es = Some (None, w2, es2)"
      "act_Type (w_acts (exec_fulfilled a (opens (act_Type (w_acts w a))) w2) a) = ActionTypeOpenTimed"
      "exec_hold (WithCancel (w_next_ctx w) c) a (exec_fulfilled a (opens (act_Type (w_acts w a))) w2) es2
         = Some (w3, es3)"
      "exec_close a (config w) w3 es3 = Some (w4, es')"
      "w' = exec_finish (w_next_ctx w) a (updateActionID '''' w4)"
proof (cases "Disabled (config w) \<and> opens (act_Type (w_acts w a))")
  case True
  with assms show thesis by (auto simp: execute_unfold Let_def intro!: rejected)
next
  case False
  let ?T = "act_Type (w_acts w a)"
  let ?att = "attemptWithRetry (WithCancel (w_next_ctx w) c) a (opens ?T)
       (RetryCount (config w)) (CommandTimeout (config w)) (exec_start a w) es"
  from assms False have "exec_after (w_next_ctx w) c a (opens ?T) (config w) ?att = Some (w', es')"
    by (simp add: execute_unfold Let_def)
  then obtain err w2 es2 where att: "?att = Some (err, w2, es2)"
    and rest: "exec_after (w_next_ctx w) c a (opens ?T) (config w) (Some (err, w2, es2)) = Some (w', es')"
    by (cases ?att) (auto simp: exec_after_def)
  show thesis
  proof (cases err)
    case (Some e)
    with rest att False show ?thesis by (auto simp: exec_after_def intro: failed)
  next
    case None
    show ?thesis
    proof (cases "act_Type (w_acts (exec_fulfilled a (opens ?T) w2) a) = ActionTypeOpenTimed")
      case True
      with rest None show ?thesis
        by (auto simp: exec_after_def Let_def bind_eq_Some_conv intro: timed [OF False att [unfolded None] True])
    next
      case F: False
      with rest None have "es2 = es'" "w' = exec_finish (w_next_ctx w) a
          (updateActionID '''' (exec_fulfilled a (opens ?T) w2))" by (simp_all add: exec_after_def Let_def)
      with plain [OF False _ F] att None show ?thesis by simp
    qed
  qed
qed

lemma execute_steps:
  assumes "execute c a w es = Some (w', es')" "a < w_next_act w"
  shows "steps (insert a {w_next_act w..}) (insert False {opens (act_Type (w_acts w a))})
           (upd_act a (upgrade_open (config w)) w) w'"
  using assms(1)
proof (cases rule: execute_cases)
  let ?w0 = "upd_act a (upgrade_open (config w)) w"
  let ?S = "steps (insert a {w_next_act w..}) (insert False {opens (act_Type (w_acts w a))})"
  have start: "?S ?w0 (exec_start a w)" unfolding exec_start_def
    by (rule exec_begin_steps) (simp_all add: assms(2))
  have att: "?S ?w0 w2" if "attemptWithRetry (WithCancel (w_next_ctx w) c) a (opens (act_Type (w_acts w a)))
         (RetryCount (config w)) (CommandTimeout (config w)) (exec_start a w) es = Some (err, w2, es2)" for err w2 es2
    by (rule rtranclp_trans [OF start attemptWithRetry_steps [OF _ _ that]]) simp_all
  have fin: "?S ?w0 (exec_finish i a v)" if "?S ?w0 v" for i v
  proof (rule rtranclp_trans [OF that exec_finish_steps])
    show "a < w_next_act v" using steps_le [OF that] assms(2) by (simp add: world_le_def)
  qed simp
  have ful: "?S v (exec_fulfilled a p v)" for p v by (rule exec_fulfilled_steps) simp
  have aid: "?S ?w0 (exec_finish i a (updateActionID x v))" if "?S ?w0 v" for i x v
    by (rule fin [OF rtranclp_trans [OF that updateActionID_steps]])
  {
    case rejected
    have "?S ?w0 (set_state a ActionStateCancelled ?w0)" by (rule set_state_steps) simp
    from steps_then [OF this atomic.history] show ?thesis
      unfolding rejected by (simp add: set_state_def assms(2))
  next
    case (failed e w2)
    have "?S w2 (exec_failed a (opens (act_Type (w_acts w a))) e w2)" by (rule exec_failed_steps) simp
    from fin [OF rtranclp_trans [OF att [OF failed(2)] this]]
    show ?thesis unfolding failed(3) .
  next
    case (plain w2)
    from aid [OF rtranclp_trans [OF att [OF plain(2)] ful]]
    show ?thesis unfolding plain(4) .
  next
    case (timed w2 es2 w3 es3 w4)
    have "?S (exec_fulfilled a (opens (act_Type (w_acts w a))) w2) w3"
      by (rule exec_hold_steps [OF _ timed(4)]) simp
    from rtranclp_trans [OF att [OF timed(2)] rtranclp_trans [OF ful this]] have 3: "?S ?w0 w3" .
    have "w_next_act w \<le> w_next_act w3" using steps_le [OF 3] by (simp add: world_le_def)
    then have "?S w3 w4" by (intro exec_close_steps [OF _ timed(5)]) auto
    from aid [OF rtranclp_trans [OF 3 this]] show ?thesis unfolding timed(6) .
  }
qed

subsection \<open>Frame properties and invariants of the steps\<close>

lemma steps_acts:
  assumes "steps A P w w'"
  shows "r < w_next_act w \<Longrightarrow> act_static (w_acts w' r) = act_static (w_acts w r) \<and>
    (r \<notin> A \<longrightarrow> w_acts w' r = w_acts w r)"
proof -
  let ?R = "\<lambda>w w'. w_next_act w \<le> w_next_act w' \<and> (\<forall>r < w_next_act w.
    act_static (w_acts w' r) = act_static (w_acts w r) \<and> (r \<notin> A \<longrightarrow> w_acts w' r = w_acts w r))"
  have "?R w w'" if "atomic A P w w'" for w w'
    using that by (induction rule: atomic.induct)
      (auto simp: update_defs Let_def close_cell_simps add_cell_simps)
  from steps_rel [of A P ?R, OF this _ _ assms] show "r < w_next_act w \<Longrightarrow> ?thesis" by fastforce
qed

lemma steps_position:
  assumes "steps A P w w'" "True \<notin> P" "vi_State (info w) \<noteq> ValveStateOpen"
  shows "vi_State (info w') \<noteq> ValveStateOpen"
proof (rule steps_inv [of A P "\<lambda>w. vi_State (info w) \<noteq> ValveStateOpen", OF _ assms(1,3)])
  show "vi_State (info w') \<noteq> ValveStateOpen"
    if "atomic A P w w'" "vi_State (info w) \<noteq> ValveStateOpen" for w w'
    using that assms(2) by (induction rule: atomic.induct)
      (auto simp: update_defs Let_def close_cell_simps add_cell_simps valve_states_distinct)
qed

end
