(* ===== verification/Invariants.thy ===== *)
theory Invariants
  imports Steps
begin

text \<open>
  The invariant of a pipeline's world and its consequences: bounded queue and history, one
  action slot, and exactly the unfinished confirmation waiters subscribed at the dispatcher.
  Every step of the executing goroutine and of its environment keeps it.
\<close>

lemma set_tl_subset: "set (tl xs) \<subseteq> set xs"
  by (cases xs) auto

subsection \<open>The bounded queue and history\<close>

interpretation queue: bounded_log chan_put actionCh_cap
proof (unfold_locales, goal_cases)
  case (1 xs x) then show ?case by (auto simp: chan_put_def actionCh_cap_def)
next
  case (2 x xs) show ?case by (simp add: chan_put_def)
next
  case (3 x xs) show ?case using set_tl_subset [of xs] by (auto simp: chan_put_def)
next
  case (4 xs x) then show ?case by (auto simp: chan_put_def)
qed

interpretation hist: bounded_log history_put maxHistorySize
proof (unfold_locales, goal_cases)
  case (1 xs x) then show ?case by (auto simp: history_put_def Let_def)
next
  case (2 x xs) show ?case by (simp add: history_put_def maxHistorySize_def Let_def take_Cons')
next
  case (3 x xs) show ?case by (auto simp: history_put_def Let_def dest: in_set_takeD)
next
  case (4 xs x) then show ?case by (auto simp: history_put_def Let_def)
qed

subsection \<open>The invariant\<close>

definition live_cells :: "wait_cell list \<Rightarrow> (string \<times> nat \<times> nat) set" where
  "live_cells cs = {(dispatchKey (wc_device (cs ! i)), wc_sub (cs ! i), i) | i.
     i < length cs \<and> \<not> wc_done (cs ! i)}"

definition waiters_ok :: "world \<Rightarrow> bool" where
  "waiters_ok w \<longleftrightarrow> disp_inv (w_disp w) \<and> disp_active (w_disp w) = live_cells (w_cells w) \<and>
     (\<forall>i < length (w_cells w). wc_done (w_cells w ! i) \<longleftrightarrow> wc_ch (w_cells w ! i) \<noteq> None)"

definition slots_ok :: "world \<Rightarrow> bool" where
  "slots_ok w \<longleftrightarrow>
     length (p_actionCh (w_pl w)) \<le> actionCh_cap \<and> length (p_history (w_pl w)) \<le> maxHistorySize \<and>
     set (p_actionCh (w_pl w)) \<union> set (p_history (w_pl w)) \<union> set_option (p_current (w_pl w))
       \<subseteq> {..<w_next_act w} \<and>
     (p_cancelFn (w_pl w) = None \<longleftrightarrow> p_current (w_pl w) = None)"

definition wf_world :: "world \<Rightarrow> bool" where
  "wf_world w \<longleftrightarrow> waiters_ok w \<and> slots_ok w"

lemma mem_live_cells:
  "x \<in> live_cells cs \<longleftrightarrow> snd (snd x) < length cs \<and> \<not> wc_done (cs ! snd (snd x)) \<and>
     fst x = dispatchKey (wc_device (cs ! snd (snd x))) \<and> fst (snd x) = wc_sub (cs ! snd (snd x))"
  by (cases x) (auto simp: live_cells_def)

lemma live_cells_close:
  assumes "disp_inv d" "disp_active d = live_cells cs" "i < length cs" "\<not> wc_done (cs ! i)"
  shows "disp_active (Unsubscribe d (wc_device (cs ! i)) (wc_sub (cs ! i))) =
    live_cells (cs[i := (cs ! i)\<lparr> wc_done := True, wc_ch := v \<rparr>])"
proof -
  let ?k = "dispatchKey (wc_device (cs ! i))" and ?s = "wc_sub (cs ! i)"
  have i: "(?k, ?s, i) \<in> disp_active d" using assms by (auto simp: live_cells_def)
  have one: "(?k, ?s, h) \<in> disp_active d \<Longrightarrow> h = i" for h
  proof -
    assume "(?k, ?s, h) \<in> disp_active d"
    with i obtain s s' where "s \<in> set (subs_of d ?k)" "s' \<in> set (subs_of d ?k)"
      "sub_id s = ?s" "sub_id s' = ?s" "sub_handler s = i" "sub_handler s' = h"
      by (auto simp: mem_disp_active)
    moreover have "distinct (map sub_id (subs_of d ?k))" using assms(1) by (simp add: disp_inv_def)
    ultimately show "h = i" by (metis distinct_map inj_onD)
  qed
  have "disp_active (Unsubscribe d (wc_device (cs ! i)) ?s) = disp_active d - {(?k, ?s, i)}"
    using one i by (auto simp: disp_active_Unsubscribe [OF assms(1)])
  also have "\<dots> = live_cells (cs[i := (cs ! i)\<lparr> wc_done := True, wc_ch := v \<rparr>])"
    using assms(3) unfolding assms(2) live_cells_def by (auto simp: nth_list_update)
  finally show ?thesis .
qed

lemma live_cells_append:
  "\<not> wc_done c \<Longrightarrow> live_cells (cs @ [c]) =
     insert (dispatchKey (wc_device c), wc_sub c, length cs) (live_cells cs)"
  by (intro set_eqI) (auto simp: mem_live_cells nth_append less_Suc_eq)

lemma atomic_waiters: "atomic A P w w' \<Longrightarrow> waiters_ok w \<Longrightarrow> waiters_ok w'"
proof (induction rule: atomic.induct)
  case (cell i w v)
  then show ?case
    using live_cells_close [of "w_disp w" "w_cells w" i "Some v"]
    by (auto simp: waiters_ok_def close_cell_simps disp_inv_Unsubscribe nth_list_update)
next
  case (waiter w c dev p)
  then show ?case
    by (auto simp: waiters_ok_def add_cell_simps disp_inv_Subscribe disp_active_Subscribe live_cells_append
      nth_append)
qed (auto simp: waiters_ok_def update_defs Let_def)

lemma atomic_slots: "atomic A P w w' \<Longrightarrow> slots_ok w \<Longrightarrow> slots_ok w'"
proof (induction rule: atomic.induct)
  case (put a w)
  then show ?case
    using queue.put_bound [of "p_actionCh (w_pl w)" a] queue.put_subset [of a "p_actionCh (w_pl w)"]
    by (auto simp: slots_ok_def upd_pl_def)
next
  case (take w)
  then show ?case
    by (auto simp: slots_ok_def upd_pl_def dest: subsetD [OF set_tl_subset])
next
  case (history a w)
  then show ?case
    using hist.put_bound [of "p_history (w_pl w)" a] hist.put_subset [of a "p_history (w_pl w)"]
    by (auto simp: slots_ok_def addToHistory_def upd_pl_def)
qed (auto simp: slots_ok_def update_defs Let_def close_cell_simps add_cell_simps)

lemma steps_wf: "steps A P w w' \<Longrightarrow> wf_world w \<Longrightarrow> wf_world w'"
  by (rule steps_inv [of A P wf_world]) (auto simp: wf_world_def intro: atomic_waiters atomic_slots)

end
