(* ===== verification/Waits.thy ===== *)
theory Waits
  imports Invariants
begin

text \<open>
  Facts about blocking: when a wait ends, that it ends, how long it takes, which waiters it
  finishes, and that a waiter is only ever satisfied by a sensor message that names its
  device and reports the position it waits for.
\<close>

subsection \<open>The end of a wait\<close>

lemma wait_post:
  "wait env ready dl w es = Some (w', es') \<Longrightarrow> ready w' \<or> reached dl w'"
proof (induction es arbitrary: w)
  case Nil
  then show ?case by (auto simp: reached_def split: if_splits option.splits)
next
  case (Cons x es)
  then show ?case by (cases x) (auto simp: reached_def split: if_splits option.splits)
qed

lemma wait_total: "\<exists>r. wait env ready (Some d) w es = Some r"
  by (induction es arbitrary: w) auto

lemma wait_ready: "ready w \<Longrightarrow> wait env ready dl w es = Some (w, es)"
  by (cases es) auto

lemma wait_suffix: "wait env ready dl w es = Some (w', es') \<Longrightarrow> \<exists>pre. es = pre @ es'"
proof (induction es arbitrary: w)
  case Nil
  then show ?case by (auto split: if_splits option.splits)
next
  case (Cons x es)
  obtain t e where x: "x = (t, e)" by (cases x)
  from Cons.prems have "es' = x # es \<or> (\<exists>v. wait env ready dl v es = Some (w', es'))"
    by (auto simp: x split: if_splits option.splits)
  with Cons.IH show ?case by (metis append_Cons append_Nil)
qed

lemma wait_time:
  assumes "\<And>e w. w_now (env e w) = w_now w" "wait env ready (Some d) w es = Some (w', es')"
  shows "w_now w' \<le> max (w_now w) d"
  using assms(2)
proof (induction es arbitrary: w)
  case Nil
  then show ?case by (auto split: if_splits)
next
  case (Cons x es)
  obtain t e where x: "x = (t, e)" by (cases x)
  show ?case
  proof (cases "ready w \<or> reached (Some d) w \<or> d \<le> t")
    case True
    with Cons.prems show ?thesis by (auto simp: x split: if_splits)
  next
    case False
    with Cons.prems have "wait env ready (Some d) (env e (advance t w)) es = Some (w', es')" by (simp add: x)
    from Cons.IH [OF this] False show ?thesis by (auto simp: assms(1))
  qed
qed

lemma dispatch_frame_simps [simp]:
  "w_now (dispatch_event ev w) = w_now w" "w_cancelled (dispatch_event ev w) = w_cancelled w"
  "w_acts (dispatch_event ev w) = w_acts w" "w_pl (dispatch_event ev w) = w_pl w"
  "w_sends (dispatch_event ev w) = w_sends w" "w_mgr (dispatch_event ev w) = w_mgr w"
  "w_next_act (dispatch_event ev w) = w_next_act w"
  using dispatch_frame [of ev w] by auto

lemma fold_dispatch_frame:
  "w_now (fold dispatch_event evs w) = w_now w"  "w_pl (fold dispatch_event evs w) = w_pl w"
  "w_acts (fold dispatch_event evs w) = w_acts w" "w_sends (fold dispatch_event evs w) = w_sends w"
  "w_mgr (fold dispatch_event evs w) = w_mgr w" "w_cancelled (fold dispatch_event evs w) = w_cancelled w"
  by (induction evs arbitrary: w) simp_all

lemmas pipeline_ops = Enqueue_def request_def alloc_act_def UpdateConfig_def ping_apply_def
  applyDeviceState_def update_sensor_def upd_pl_def upd_info_def upd_metrics_def
  set_state_gauge_def UpdateValveStatus_call_def Let_def split_beta

lemma external_now [simp]: "w_now (external_step e w) = w_now w"
  by (cases e) (auto simp: pipeline_ops fold_dispatch_frame split: option.splits)

lemma external_sends [simp]: "w_sends (external_step e w) = w_sends w"
  by (cases e) (auto simp: pipeline_ops fold_dispatch_frame split: option.splits)

subsection \<open>Settling finishes the waiters whose context ended\<close>

lemma length_waiter [simp]:
  "length (w_cells (waiter_ctx i w)) = length (w_cells w)"
  "length (w_cells (waiter_handler i ev w)) = length (w_cells w)"
  by (auto simp: waiter_ctx_def waiter_handler_def close_cell_simps split: option.splits)

lemma length_fold_cells:
  "(\<And>x w. length (w_cells (f x w)) = length (w_cells w)) \<Longrightarrow>
   length (w_cells (fold f xs w)) = length (w_cells w)"
  by (induction xs arbitrary: w) auto

lemma length_settle [simp]: "length (w_cells (settle w)) = length (w_cells w)"
  unfolding settle_def by (rule length_fold_cells) simp

lemma length_advance [simp]: "length (w_cells (advance t w)) = length (w_cells w)"
  "length (w_cells (cancel_ctx i w)) = length (w_cells w)"
  by (simp_all add: advance_def cancel_ctx_def)

lemma length_dispatch [simp]: "length (w_cells (dispatch_event ev w)) = length (w_cells w)"
  unfolding dispatch_event_def by (rule length_fold_cells) simp

lemma length_external [simp]: "length (w_cells (external_step e w)) = length (w_cells w)"
  by (cases e) (auto simp: pipeline_ops length_fold_cells split: option.splits)

lemma waiter_ctx_done:
  "i < length (w_cells w) \<Longrightarrow> ctx_done w (wc_ctx (w_cells w ! i)) \<Longrightarrow> wc_done (w_cells (waiter_ctx i w) ! i)"
  by (auto simp: waiter_ctx_def ctx_done_def close_cell_simps split: option.splits)

lemma settle_done:
  assumes "i < length (w_cells w)" "ctx_done w (wc_ctx (w_cells w ! i))"
  shows "wc_done (w_cells (settle w) ! i)"
proof -
  let ?n = "length (w_cells w)"
  let ?w1 = "fold waiter_ctx [0..<i] w"
  have split: "[0..<?n] = [0..<i] @ i # [Suc i..<?n]"
    using assms(1) by (metis less_imp_le upt_add_eq_append upt_conv_Cons le0 ordered_cancel_comm_monoid_diff_class.add_diff_inverse)
  have 1: "steps {} {} w ?w1" by (rule fold_steps) (rule waiter_steps)
  have 2: "steps {} {} (waiter_ctx i ?w1) (settle w)"
    unfolding settle_def split by simp (rule fold_steps, rule waiter_steps)
  have len: "length (w_cells ?w1) = ?n" by (rule length_fold_cells) simp
  have "cell_le (w_cells w ! i) (w_cells ?w1 ! i)" using steps_le [OF 1] assms(1) by (simp add: world_le_def)
  moreover have "ctx_done ?w1 (wc_ctx (w_cells w ! i))"
    using assms(2) steps_le [OF 1] by (auto simp: world_le_def elim: ctx_done_mono)
  ultimately have "wc_done (w_cells (waiter_ctx i ?w1) ! i)"
    using waiter_ctx_done [of i ?w1] assms(1) len by (simp add: cell_le_def)
  then show ?thesis
    using steps_le [OF 2] assms(1) len by (auto simp: world_le_def cell_le_def)
qed

subsection \<open>Only a matching sensor message satisfies a waiter\<close>

fun confirms :: "string \<Rightarrow> int \<Rightarrow> external \<Rightarrow> bool" where
  "confirms dev p (Sensor topic payload) =
     (case ParseSensorPayload (BridgeNameFromTopic topic) payload of
        Inl _ \<Rightarrow> False
      | Inr evs \<Rightarrow> \<exists>ev \<in> set evs. event_covers ev (dispatchKey dev) \<and> ev_Power ev = Some p)"
| "confirms dev p _ = False"

definition pending :: "nat \<Rightarrow> string \<Rightarrow> int \<Rightarrow> world \<Rightarrow> bool" where
  "pending i dev p w \<longleftrightarrow> waiters_ok w \<and> i < length (w_cells w) \<and> wc_device (w_cells w ! i) = dev \<and>
     wc_expected (w_cells w ! i) = p \<and> wc_ch (w_cells w ! i) \<noteq> Some None"

lemma steps_waiters: "steps A P w w' \<Longrightarrow> waiters_ok w \<Longrightarrow> waiters_ok w'"
  by (rule steps_inv [of A P waiters_ok]) (auto intro: atomic_waiters)

lemma pending_cong:
  "pending i dev p w \<Longrightarrow> w_cells w' = w_cells w \<Longrightarrow> w_disp w' = w_disp w \<Longrightarrow> pending i dev p w'"
  by (simp add: pending_def waiters_ok_def)

lemma pending_waiter_ctx: "pending i dev p w \<Longrightarrow> pending i dev p (waiter_ctx j w)"
  using steps_waiters [OF waiter_steps(2) [of "{}" "{}" w j]]
  by (auto simp: pending_def waiter_ctx_def close_cell_simps nth_list_update split: option.splits)

lemma pending_waiter_handler:
  "pending i dev p w \<Longrightarrow> j \<noteq> i \<or> ev_Power ev \<noteq> Some p \<Longrightarrow> pending i dev p (waiter_handler j ev w)"
  using steps_waiters [OF waiter_steps(1) [of "{}" "{}" w j ev]]
  by (auto simp: pending_def waiter_handler_def close_cell_simps nth_list_update)

lemma pending_settle: "pending i dev p w \<Longrightarrow> pending i dev p (settle w)"
  unfolding settle_def by (rule fold_invariant [where Q = "\<lambda>_. True"]) (auto intro: pending_waiter_ctx)

lemma pending_advance:
  "pending i dev p w \<Longrightarrow> pending i dev p (advance t w)"
  "pending i dev p w \<Longrightarrow> pending i dev p (cancel_ctx k w)"
  unfolding advance_def cancel_ctx_def by (auto intro!: pending_settle elim: pending_cong)

lemma pending_dispatch:
  assumes "pending i dev p w" "\<not> (event_covers ev (dispatchKey dev) \<and> ev_Power ev = Some p)"
  shows "pending i dev p (dispatch_event ev w)"
  unfolding dispatch_event_def
proof (rule fold_invariant [where Q = "\<lambda>s. sub_handler s = i \<longrightarrow> ev_Power ev \<noteq> Some p"])
  fix s assume "s \<in> set (Dispatch (w_disp w) ev)"
  then obtain k where k: "s \<in> set (subs_of (w_disp w) k)" "event_covers ev k"
    using assms(1) by (auto simp: pending_def waiters_ok_def set_Dispatch)
  then have "(k, sub_id s, sub_handler s) \<in> disp_active (w_disp w)" by (auto simp: mem_disp_active)
  then have "(k, sub_id s, sub_handler s) \<in> live_cells (w_cells w)"
    using assms(1) by (simp add: pending_def waiters_ok_def)
  with k assms show "sub_handler s = i \<longrightarrow> ev_Power ev \<noteq> Some p"
    by (auto simp: pending_def mem_live_cells)
qed (use assms(1) pending_waiter_handler in auto)

lemma pending_Enqueue: "pending i dev p w \<Longrightarrow> pending i dev p (Enqueue a w)"
proof -
  assume "pending i dev p w"
  then have "pending i dev p (case p_cancelFn (w_pl w) of
      Some c \<Rightarrow> if act_Type (w_acts w a) = ActionTypeClose then cancel_ctx c w else w | None \<Rightarrow> w)"
    by (auto intro: pending_advance(2) split: option.splits)
  then show ?thesis unfolding Enqueue_def Let_def by (rule pending_cong) (simp_all add: upd_pl_def)
qed

lemma pending_external:
  assumes "pending i dev p w" "\<not> confirms dev p e"
  shows "pending i dev p (external_step e w)"
proof (cases e)
  case (Sensor topic payload)
  obtain evs m where h: "handleSensor topic payload (w_metrics w) = (evs, m)"
    by (cases "handleSensor topic payload (w_metrics w)")
  have ev: "ev \<in> set evs \<Longrightarrow> \<not> (event_covers ev (dispatchKey dev) \<and> ev_Power ev = Some p)" for ev
    using assms(2) h by (auto simp: Sensor handleSensor_def Let_def split: sum.splits)
  have "pending i dev p (fold dispatch_event evs (w\<lparr> w_metrics := m \<rparr>))"
  proof (rule fold_invariant [where Q = "\<lambda>ev. ev \<in> set evs"])
    show "pending i dev p (w\<lparr> w_metrics := m \<rparr>)" by (rule pending_cong [OF assms(1)]) simp_all
    show "pending i dev p (dispatch_event x s)" if "x \<in> set evs" "pending i dev p s" for x s
      by (rule pending_dispatch [OF that(2) ev [OF that(1)]])
  qed
  then show ?thesis by (simp add: Sensor h)
next
  case (Request t d)
  have "pending i dev p (snd (alloc_act (vi_Name (info w)) (vi_Namespace (info w)) t d w))"
    by (rule pending_cong [OF assms(1)]) (simp_all add: alloc_act_def Let_def)
  then show ?thesis by (auto simp: Request request_def split_beta intro: pending_Enqueue)
qed (use assms pending_advance(2) in
  \<open>auto simp: pipeline_ops elim!: pending_cong split: option.splits\<close>)

interpretation unconfirmed: rely external_step "\<lambda>e. \<not> confirms dev p e" "pending i dev p" for dev p i
proof (unfold_locales, goal_cases)
  case (1 w t) then show ?case by (rule pending_advance)
next
  case (2 w e) then show ?case by (rule pending_external)
next
  case (3 w b d q pub) then show ?case by (rule pending_cong) (simp_all add: log_send_def)
qed

end
