(* ===== verification/Scheduler.thy ===== *)
theory Scheduler
  imports Waits "HOL-Library.AList"
begin

text \<open>
  \<^verbatim>\<open>internal/scheduler/scheduler.go\<close>: the registry of pipelines and the entry points
  of the REST API and the reconcilers. The pipelines share the dispatcher, the bridges, the
  metrics and the clock: these parts are one world, into which the pipeline an operation
  works on is put (\<open>focus\<close>) and from which it is taken back (\<open>unfocus\<close>). A Go map is an
  association list here; the order of a range over it is the list's, which stands for an
  arbitrary one.
\<close>

datatype sched_error =
    ErrValveNotFound string
  | ErrValveDisabled
  | AmbiguousValve string "string list"
  | ActionNotFound string

record Scheduler =
  s_world :: world
  s_pipelines :: "(string \<times> pipeline) list"
  s_cancels :: "(string \<times> nat) list"
  s_running :: "(string \<times> ctx) list"     \<comment> \<open>the goroutines started with \<open>go p.run\<close>\<close>

definition NewScheduler :: "world \<Rightarrow> Scheduler" where
  "NewScheduler w = \<lparr> s_world = w, s_pipelines = [], s_cancels = [], s_running = [] \<rparr>"

definition focus :: "Scheduler \<Rightarrow> pipeline \<Rightarrow> world" where
  "focus s p = (s_world s)\<lparr> w_pl := p \<rparr>"

definition unfocus :: "Scheduler \<Rightarrow> string \<Rightarrow> world \<Rightarrow> Scheduler" where
  "unfocus s key w = s\<lparr> s_world := w, s_pipelines := AList.update key (w_pl w) (s_pipelines s) \<rparr>"

definition getPipeline :: "Scheduler \<Rightarrow> string \<Rightarrow> sched_error + pipeline" where
  "getPipeline s key =
     (case map_of (s_pipelines s) key of None \<Rightarrow> Inl (ErrValveNotFound key) | Some p \<Rightarrow> Inr p)"

definition RegisterValve :: "ctx \<Rightarrow> ValveInfo \<Rightarrow> Scheduler \<Rightarrow> Scheduler" where
  "RegisterValve c i s =
     (let key = Key i in
      case map_of (s_pipelines s) key of
        Some p \<Rightarrow> unfocus s key (UpdateConfig i (focus s p))
      | None \<Rightarrow>
          (let (cid, w) = new_ctx (s_world s)
           in s\<lparr> s_world := set_state_gauge i (stateVal (vi_State i)) w,
                 s_pipelines := AList.update key (newPipeline i) (s_pipelines s),
                 s_cancels := AList.update key cid (s_cancels s),
                 s_running := s_running s @ [(key, WithCancel cid c)] \<rparr>))"

definition DeregisterValve :: "string \<Rightarrow> Scheduler \<Rightarrow> Scheduler" where
  "DeregisterValve key s =
     (case map_of (s_cancels s) key of
        None \<Rightarrow> s
      | Some cid \<Rightarrow>
          s\<lparr> s_pipelines := AList.delete key (s_pipelines s),
             s_cancels := AList.delete key (s_cancels s),
             s_world := cancel_ctx cid (s_world s) \<rparr>)"

definition Open :: "string \<Rightarrow> duration \<Rightarrow> Scheduler \<Rightarrow> (sched_error + actref) \<times> Scheduler" where
  "Open key d s =
     (case getPipeline s key of
        Inl e \<Rightarrow> (Inl e, s)
      | Inr p \<Rightarrow>
          (let w = focus s p; i = GetInfo w in
           if Disabled (vi_Config i) then (Inl ErrValveDisabled, s)
           else
             let t = (if d > 0 then ActionTypeOpenTimed else ActionTypeOpen);
                 (a, w) = alloc_act (vi_Name i) (vi_Namespace i) t d w
             in (Inr a, unfocus s key (Enqueue a w))))"

definition Close :: "string \<Rightarrow> Scheduler \<Rightarrow> (sched_error + actref) \<times> Scheduler" where
  "Close key s =
     (case getPipeline s key of
        Inl e \<Rightarrow> (Inl e, s)
      | Inr p \<Rightarrow>
          (let w = focus s p; i = GetInfo w;
               (a, w) = alloc_act (vi_Name i) (vi_Namespace i) ActionTypeClose 0 w
           in (Inr a, unfocus s key (Enqueue a w))))"

definition GetAction :: "string \<Rightarrow> string \<Rightarrow> Scheduler \<Rightarrow> sched_error + actref" where
  "GetAction key actionID s =
     (case getPipeline s key of
        Inl e \<Rightarrow> Inl e
      | Inr p \<Rightarrow>
          (let w = focus s p;
               found = (case find (\<lambda>a. act_ID (w_acts w a) = actionID) (GetHistory w) of
                          Some a \<Rightarrow> Inr a | None \<Rightarrow> Inl (ActionNotFound actionID))
           in case GetCurrent w of
                Some cur \<Rightarrow> if act_ID (w_acts w cur) = actionID then Inr cur else found
              | None \<Rightarrow> found))"

definition ListActions :: "string \<Rightarrow> Scheduler \<Rightarrow> sched_error + actref list" where
  "ListActions key s =
     (case getPipeline s key of
        Inl e \<Rightarrow> Inl e
      | Inr p \<Rightarrow>
          (let w = focus s p; history = GetHistory w in
           case GetCurrent w of
             Some cur \<Rightarrow> Inr (cur # history)
           | None \<Rightarrow> Inr history))"

definition GetValveInfo :: "string \<Rightarrow> Scheduler \<Rightarrow> sched_error + ValveInfo" where
  "GetValveInfo key s =
     (case getPipeline s key of Inl e \<Rightarrow> Inl e | Inr p \<Rightarrow> Inr (GetInfo (focus s p)))"

definition FindKey :: "string \<Rightarrow> Scheduler \<Rightarrow> sched_error + string" where
  "FindKey name s =
     (let matches = filter (\<lambda>key. let parts = SplitN key CHR ''/'' 2
                                  in length parts = 2 \<and> parts ! 1 = name) (map fst (s_pipelines s))
      in case matches of
           [] \<Rightarrow> Inl (ErrValveNotFound name)
         | [key] \<Rightarrow> Inr key
         | _ \<Rightarrow> Inl (AmbiguousValve name matches))"

definition ListValves :: "Scheduler \<Rightarrow> string list" where
  "ListValves s = map fst (s_pipelines s)"

definition UpdateSensorFields :: "string \<Rightarrow> SensorEvent \<Rightarrow> Scheduler \<Rightarrow> Scheduler" where
  "UpdateSensorFields key ev s =
     (case map_of (s_pipelines s) key of
        None \<Rightarrow> s
      | Some p \<Rightarrow> unfocus s key (update_sensor ev (focus s p)))"

end
