(* ===== verification/GoTime.thy ===== *)
theory GoTime
  imports Prelude
begin

text \<open>
  \<open>time.ParseDuration\<close> and \<open>strconv.Atoi\<close> of the Go standard library, as the REST handlers use
  them. The library computes with unsigned 64-bit integers: the wrap-around is written out
  where its own overflow checks do not exclude it. A fraction of a unit is computed in
  float64: \<open>float64_round\<close> rounds a positive rational to 53 significant bits, ties to even
  (the values here are far from the limits of the exponent).
\<close>

datatype parse_error = InvalidSyntax | Overflow

subsection \<open>float64\<close>

definition pow2 :: "int \<Rightarrow> rat" where
  "pow2 k = (if k \<ge> 0 then 2 ^ nat k else 1 / 2 ^ nat (- k))"

text \<open>The exponent of the highest bit of a positive rational.\<close>

fun bit_length :: "int \<Rightarrow> int" where
  "bit_length n = (if n \<le> 0 then 0 else 1 + bit_length (n div 2))"

declare bit_length.simps [simp del]

definition high_bit :: "rat \<Rightarrow> int" where
  "high_bit q =
     (let (n, d) = quotient_of q;
          k = bit_length n - bit_length d
      in if pow2 k \<le> q then k else k - 1)"

definition half_even :: "rat \<Rightarrow> int" where
  "half_even q =
     (let f = \<lfloor>q\<rfloor>; r = q - of_int f
      in if r < 1 / 2 \<or> r = 1 / 2 \<and> even f then f else f + 1)"

definition float64_round :: "rat \<Rightarrow> rat" where
  "float64_round q =
     (if q \<le> 0 then 0
      else let e = high_bit q - 52 in of_int (half_even (q / pow2 e)) * pow2 e)"

text \<open>\<open>uint64(float64(f) * (float64(unit) / scale))\<close>\<close>

definition fraction_ns :: "int \<Rightarrow> int \<Rightarrow> int \<Rightarrow> int" where
  "fraction_ns f unit scale =
     \<lfloor>float64_round (float64_round (of_int f) * float64_round (of_int unit / of_int scale))\<rfloor>"

subsection \<open>Digits\<close>

definition is_digit :: "char \<Rightarrow> bool" where
  "is_digit c \<longleftrightarrow> 48 \<le> (of_char c :: int) \<and> (of_char c :: int) \<le> 57"

definition digit_val :: "char \<Rightarrow> int" where
  "digit_val c = of_char c - 48"

fun leadingInt :: "int \<Rightarrow> string \<Rightarrow> parse_error + int \<times> string" where
  "leadingInt x [] = Inr (x, [])"
| "leadingInt x (c # s) =
     (if \<not> is_digit c then Inr (x, c # s)
      else if x > 2 ^ 63 div 10 then Inl Overflow
      else let x = x * 10 + digit_val c
           in if x > 2 ^ 63 then Inl Overflow else leadingInt x s)"

text \<open>
  The digits after the point: value, scale and rest. Digits that no longer fit are skipped;
  the scale is a power of ten below \<open>10 ^ 20\<close>, which float64 holds exactly.
\<close>

fun leadingFraction :: "int \<Rightarrow> int \<Rightarrow> bool \<Rightarrow> string \<Rightarrow> int \<times> int \<times> string" where
  "leadingFraction x scale ovf [] = (x, scale, [])"
| "leadingFraction x scale ovf (c # s) =
     (if \<not> is_digit c then (x, scale, c # s)
      else if ovf then leadingFraction x scale ovf s
      else if x > (2 ^ 63 - 1) div 10 then leadingFraction x scale True s
      else let y = x * 10 + digit_val c
           in if y > 2 ^ 63 then leadingFraction x scale True s
              else leadingFraction y (scale * 10) False s)"

subsection \<open>Elements\<close>

text \<open>The micro sign and the Greek letter mu are two bytes each.\<close>

definition unitMap :: "string \<Rightarrow> int option" where
  "unitMap u = map_of [(''ns'', 1), (''us'', 1000),
     ([CHR 0xC2, CHR 0xB5, CHR ''s''], 1000), ([CHR 0xCE, CHR 0xBC, CHR ''s''], 1000),
     (''ms'', 1000000), (''s'', 1000000000), (''m'', 60000000000), (''h'', 3600000000000)] u"

definition unit_char :: "char \<Rightarrow> bool" where
  "unit_char c \<longleftrightarrow> \<not> (c = CHR ''.'' \<or> is_digit c)"

text \<open>The number of one element: integer part, fraction, scale, and the rest of the string.\<close>

definition parse_number :: "string \<Rightarrow> parse_error + int \<times> int \<times> int \<times> string" where
  "parse_number s =
     (if s = [] \<or> unit_char (hd s) then Inl InvalidSyntax
      else case leadingInt 0 s of
        Inl e \<Rightarrow> Inl e
      | Inr (v, s1) \<Rightarrow>
          (let pre = (length s1 \<noteq> length s) in
           if s1 \<noteq> [] \<and> hd s1 = CHR ''.'' then
             (let (f, scale, r) = leadingFraction 0 1 False (tl s1);
                  post = (length r \<noteq> length (tl s1))
              in if \<not> pre \<and> \<not> post then Inl InvalidSyntax else Inr (v, f, scale, r))
           else if \<not> pre then Inl InvalidSyntax
           else Inr (v, 0, 1, s1)))"

text \<open>One element of the duration: its value in nanoseconds and the rest of the string.\<close>

definition parse_element :: "string \<Rightarrow> parse_error + int \<times> string" where
  "parse_element s =
     (case parse_number s of
        Inl e \<Rightarrow> Inl e
      | Inr (v, f, scale, s2) \<Rightarrow>
          (case unitMap (takeWhile unit_char s2) of
             None \<Rightarrow> Inl InvalidSyntax
           | Some unit \<Rightarrow>
               if v > 2 ^ 63 div unit then Inl Overflow
               else if f > 0 then
                 (let v = v * unit + fraction_ns f unit scale
                  in if v > 2 ^ 63 then Inl Overflow else Inr (v, dropWhile unit_char s2))
               else Inr (v * unit, dropWhile unit_char s2)))"

lemma length_leadingInt: "leadingInt x s = Inr (v, r) \<Longrightarrow> length r \<le> length s"
  by (induction x s rule: leadingInt.induct) (auto simp: Let_def split: if_splits)

lemma length_leadingFraction: "leadingFraction x sc b s = (f, scale, r) \<Longrightarrow> length r \<le> length s"
  by (induction x sc b s rule: leadingFraction.induct) (auto simp: Let_def split: if_splits)

lemma length_parse_number: "parse_number s = Inr (v, f, scale, r) \<Longrightarrow> length r \<le> length s"
  unfolding parse_number_def
  by (auto simp: Let_def split: if_splits sum.splits prod.splits
      dest!: length_leadingInt length_leadingFraction)

lemma unitMap_Nil [simp]: "unitMap [] = None"
  by (simp add: unitMap_def)

lemma length_dropWhile_less: "takeWhile P xs \<noteq> [] \<Longrightarrow> length (dropWhile P xs) < length xs"
  by (cases xs) (auto simp: le_imp_less_Suc length_dropWhile_le split: if_splits)

lemma parse_element_shorter: "parse_element s = Inr (v, r) \<Longrightarrow> length r < length s"
  unfolding parse_element_def
  by (auto simp: Let_def split: if_splits sum.splits prod.splits option.splits
      dest!: length_parse_number intro!: less_le_trans [OF length_dropWhile_less])

function parse_elements :: "int \<Rightarrow> string \<Rightarrow> parse_error + int" where
  "parse_elements d s =
     (if s = [] then Inr d
      else case parse_element s of
        Inl e \<Rightarrow> Inl e
      | Inr (v, rest) \<Rightarrow>
          (let d = (d + v) mod 2 ^ 64
           in if d > 2 ^ 63 then Inl Overflow else parse_elements d rest))"
  by pat_completeness auto
termination
  by (relation "measure (\<lambda>(d, s). length s)") (auto dest: parse_element_shorter)

declare parse_elements.simps [simp del]

definition ParseDuration :: "string \<Rightarrow> parse_error + duration" where
  "ParseDuration orig =
     (let signed = (orig \<noteq> [] \<and> (hd orig = CHR ''-'' \<or> hd orig = CHR ''+''));
          neg = (signed \<and> hd orig = CHR ''-'');
          s = (if signed then tl orig else orig)
      in if s = ''0'' then Inr 0
         else if s = [] then Inl InvalidSyntax
         else case parse_elements 0 s of
                Inl e \<Rightarrow> Inl e
              | Inr d \<Rightarrow> if neg then Inr (- d)
                         else if d > 2 ^ 63 - 1 then Inl Overflow else Inr d)"

lemma parse_elements_bound: "parse_elements d s = Inr n \<Longrightarrow> 0 \<le> d \<Longrightarrow> d \<le> 2 ^ 63 \<Longrightarrow> 0 \<le> n \<and> n \<le> 2 ^ 63"
proof (induction d s rule: parse_elements.induct)
  case (1 d s)
  show ?case
    using 1(2-) parse_elements.simps [of d s] 1(1)
    by (auto simp: Let_def split: if_splits sum.splits prod.splits)
qed

lemma ParseDuration_in_int64: "ParseDuration s = Inr d \<Longrightarrow> in_signed 64 d"
  unfolding ParseDuration_def
  by (auto simp: Let_def in_signed_def split: if_splits sum.splits dest!: parse_elements_bound)

subsection \<open>Reading back a printed number\<close>

definition decimal_val :: "int \<Rightarrow> string \<Rightarrow> int" where
  "decimal_val = foldl (\<lambda>x c. x * 10 + digit_val c)"

lemma decimal_val_simps [simp]:
  "decimal_val x [] = x" "decimal_val x (c # s) = decimal_val (x * 10 + digit_val c) s"
  "decimal_val x (s @ t) = decimal_val (decimal_val x s) t"
  by (simp_all add: decimal_val_def)

lemma decimal_val_ge: "list_all is_digit s \<Longrightarrow> 0 \<le> x \<Longrightarrow> x \<le> decimal_val x s"
proof (induction s arbitrary: x)
  case (Cons c s)
  have "0 \<le> digit_val c" using Cons.prems by (simp add: is_digit_def digit_val_def)
  then show ?case using Cons.IH [of "x * 10 + digit_val c"] Cons.prems by simp
qed simp

lemma digit_cases: "n < 10 \<Longrightarrow> is_digit (digit n) \<and> digit_val (digit n) = int n"
  by (auto simp: less_Suc_eq numeral_eq_Suc digit_def is_digit_def digit_val_def)

lemma decimal_digits: "list_all is_digit (decimal n)"
  by (induction n rule: decimal.induct) (subst decimal.simps, auto simp: digit_cases)

lemma decimal_nonempty [simp]: "decimal n \<noteq> []"
  by (subst decimal.simps) auto

lemma decimal_hd_digit: "is_digit (hd (decimal n))"
  using decimal_digits [of n] list.set_sel(1) [OF decimal_nonempty] by (auto simp: list_all_iff)

lemma decimal_unsigned [simp]: "hd (decimal n) \<noteq> CHR ''-''" "hd (decimal n) \<noteq> CHR ''+''"
  using decimal_hd_digit [of n] by (auto simp: is_digit_def)

lemma decimal_val_decimal [simp]: "decimal_val 0 (decimal n) = int n"
proof (induction n rule: decimal.induct)
  case (1 n)
  have "int (n div 10) * 10 + int (n mod 10) = int n" by presburger
  with 1 show ?case by (subst decimal.simps) (auto simp: digit_cases)
qed

lemma leadingInt_digits:
  assumes "list_all is_digit ds" "r = [] \<or> \<not> is_digit (hd r)" "0 \<le> x" "decimal_val x ds \<le> 2 ^ 63"
  shows "leadingInt x (ds @ r) = Inr (decimal_val x ds, r)"
  using assms
proof (induction ds arbitrary: x)
  case Nil
  then show ?case by (cases r) auto
next
  case (Cons c ds)
  have d: "0 \<le> digit_val c" using Cons.prems by (simp add: is_digit_def digit_val_def)
  then have "x * 10 + digit_val c \<le> 2 ^ 63"
    using Cons.prems decimal_val_ge [of ds "x * 10 + digit_val c"] by simp
  then show ?case using Cons d by (auto simp: Let_def)
qed

lemma unit_no_digit: "unitMap u = Some k \<Longrightarrow> u \<noteq> [] \<and> list_all unit_char u \<and> 0 < k \<and> k \<le> 3600000000000"
  by (auto simp: unitMap_def unit_char_def is_digit_def split: if_splits)

lemma parse_element_printed:
  assumes u: "unitMap u = Some k" and n: "int n * k \<le> 2 ^ 63" and r: "r = [] \<or> is_digit (hd r)"
  shows "parse_element (decimal n @ u @ r) = Inr (int n * k, r)"
proof -
  note U = unit_no_digit [OF u]
  have "hd u \<in> set u" using U by auto
  then have hu: "\<not> is_digit (hd u)" "hd u \<noteq> CHR ''.''"
    using U by (auto simp: list_all_iff unit_char_def)
  have nk: "int n \<le> 2 ^ 63 div k" using n U zdiv_mono1 [of "int n * k" "2 ^ 63" k] by simp
  have "int n * 1 \<le> int n * k" using U by (intro mult_left_mono) auto
  then have "int n \<le> 2 ^ 63" using n by simp
  then have li: "leadingInt 0 (decimal n @ u @ r) = Inr (int n, u @ r)"
    using leadingInt_digits [OF decimal_digits, of "u @ r" 0 n] hu U by auto
  have "\<not> unit_char (hd (decimal n @ u @ r))"
    using decimal_hd_digit [of n] by (simp add: unit_char_def)
  then have "parse_number (decimal n @ u @ r) = Inr (int n, 0, 1, u @ r)"
    using li hu U by (simp add: parse_number_def)
  moreover have "takeWhile unit_char (u @ r) = u" "dropWhile unit_char (u @ r) = r"
    using U r by (cases r; auto simp: list_all_iff unit_char_def takeWhile_append2 dropWhile_append2)+
  ultimately show ?thesis using nk u unfolding parse_element_def by simp
qed

text \<open>
  A duration without fractions as people write it: numbers with units, such as \<open>1h30m\<close>; its
  text and what it means.
\<close>

definition duration_text :: "(nat \<times> string) list \<Rightarrow> string" where
  "duration_text xs = concat (map (\<lambda>(n, u). decimal n @ u) xs)"

definition duration_ns :: "(nat \<times> string) list \<Rightarrow> duration" where
  "duration_ns xs = sum_list (map (\<lambda>(n, u). int n * the (unitMap u)) xs)"

definition known_units :: "(nat \<times> string) list \<Rightarrow> bool" where
  "known_units xs \<longleftrightarrow> list_all (\<lambda>(n, u). unitMap u \<noteq> None) xs"

lemma duration_text_simps [simp]:
  "duration_text [] = []" "duration_text ((n, u) # xs) = decimal n @ u @ duration_text xs"
  by (simp_all add: duration_text_def)

lemma duration_ns_simps [simp]:
  "duration_ns [] = 0" "duration_ns ((n, u) # xs) = int n * the (unitMap u) + duration_ns xs"
  by (simp_all add: duration_ns_def)

lemma known_units_simps [simp]:
  "known_units []" "known_units ((n, u) # xs) \<longleftrightarrow> unitMap u \<noteq> None \<and> known_units xs"
  by (simp_all add: known_units_def)

lemma duration_ns_nonneg: "known_units xs \<Longrightarrow> 0 \<le> duration_ns xs"
proof (induction xs)
  case (Cons x xs)
  then show ?case using unit_no_digit by (cases x) fastforce
qed simp

lemma duration_text_digit: "duration_text xs = [] \<or> is_digit (hd (duration_text xs))"
  by (cases xs) (auto simp: duration_text_def decimal_hd_digit)

lemma parse_elements_text:
  assumes "known_units xs" "0 \<le> d" "d + duration_ns xs \<le> 2 ^ 63"
  shows "parse_elements d (duration_text xs) = Inr (d + duration_ns xs)"
  using assms
proof (induction xs arbitrary: d)
  case Nil
  then show ?case by (simp add: parse_elements.simps [of _ "[]"])
next
  case (Cons x xs)
  obtain n u where x: "x = (n, u)" by (cases x)
  with Cons.prems obtain k where k: "unitMap u = Some k" by auto
  have pos: "0 \<le> int n * k" "0 \<le> duration_ns xs"
    using unit_no_digit [OF k] duration_ns_nonneg [of xs] Cons.prems x by simp_all
  then have "(d + int n * k) mod 2 ^ 64 = d + int n * k" using Cons.prems x k by (intro mod_pos_pos_trivial) auto
  moreover have "parse_elements (d + int n * k) (duration_text xs) = Inr (d + int n * k + duration_ns xs)"
    using Cons.prems x k pos by (intro Cons.IH) auto
  ultimately show ?case
    using parse_element_printed [OF k _ duration_text_digit, of n xs] Cons.prems pos
    by (simp add: x k parse_elements.simps [of _ "decimal n @ u @ duration_text xs"])
qed

lemma ParseDuration_text:
  assumes "known_units xs" "xs \<noteq> []" "duration_ns xs < 2 ^ 63"
  shows "ParseDuration (duration_text xs) = Inr (duration_ns xs)"
proof -
  obtain n u ys where xs: "xs = (n, u) # ys" using assms(2) by (metis list.exhaust prod.exhaust)
  obtain k where k: "unitMap u = Some k" using assms(1) xs by auto
  have "duration_text xs \<noteq> ''0''" using unit_no_digit [OF k] xs by (cases "decimal n") auto
  moreover have "hd (duration_text xs) \<noteq> CHR ''-''" "hd (duration_text xs) \<noteq> CHR ''+''" "duration_text xs \<noteq> []"
    by (simp_all add: xs)
  ultimately show ?thesis
    using parse_elements_text [OF assms(1), of 0] assms(3) by (simp add: ParseDuration_def Let_def)
qed

subsection \<open>Integers\<close>

text \<open>\<open>strconv.Atoi\<close>: an optional sign and decimal digits, within 64 bits.\<close>

definition Atoi :: "string \<Rightarrow> parse_error + int" where
  "Atoi orig =
     (let signed = (orig \<noteq> [] \<and> (hd orig = CHR ''-'' \<or> hd orig = CHR ''+''));
          neg = (signed \<and> hd orig = CHR ''-'');
          s = (if signed then tl orig else orig);
          n = decimal_val 0 s
      in if s = [] \<or> \<not> list_all is_digit s then Inl InvalidSyntax
         else if \<not> neg \<and> n \<ge> 2 ^ 63 \<or> neg \<and> n > 2 ^ 63 then Inl Overflow
         else Inr (if neg then - n else n))"

lemma Atoi_Itoa:
  assumes "in_signed 64 x"
  shows "Atoi (Itoa x) = Inr x"
  using assms by (auto simp: Atoi_def Itoa_def Let_def in_signed_def decimal_digits)

end
