(* ===== verification/Api.thy ===== *)
theory Api
  imports Scheduler GoTime
begin

text \<open>
  \<^verbatim>\<open>internal/api\<close>: the REST handlers over the scheduler and the bridges. A request is
  what the handlers read of it: the URL parameters the router extracted, the query and
  header values (empty when absent), and the number of verified certificate chains of its
  TLS connection. A response is its status, content type and body; a body is the value
  that is encoded, not its JSON text, so times and durations stay values. The state is the
  scheduler's, whose world holds the bridges.
\<close>

record http_request =
  rq_name :: string                    \<comment> \<open>\<open>chi.URLParam(r, "name")\<close>\<close>
  rq_actionID :: string
  rq_namespace :: string               \<comment> \<open>query\<close>
  rq_duration :: string                \<comment> \<open>query\<close>
  rq_limit :: string                   \<comment> \<open>query\<close>
  rq_offset :: string                  \<comment> \<open>query\<close>
  rq_X_Namespace :: string             \<comment> \<open>header\<close>
  rq_chains :: "nat option"            \<comment> \<open>None: no TLS; else \<open>len(r.TLS.VerifiedChains)\<close>\<close>

record actionResponse =
  ar_ID :: string
  ar_ValveName :: string
  ar_Type :: string
  ar_State :: string
  ar_Duration :: "duration option"
  ar_RequestedAt :: time
  ar_FulfilledAt :: "time option"
  ar_ClosedAt :: "time option"
  ar_ExpiresAt :: "time option"
  ar_FailedAt :: "time option"
  ar_Attempts :: int
  ar_Error :: action_error

record valveResponse =
  vr_Name :: string
  vr_Namespace :: string
  vr_State :: string
  vr_Disabled :: bool
  vr_FriendlyName :: string
  vr_BridgeName :: string
  vr_LinkQuality :: int
  vr_BatteryPercentage :: int
  vr_Reachable :: bool
  vr_DailyIrrigationVolume :: rat
  vr_LastValveOpenDuration :: int
  vr_LastOpenTime :: "time option"
  vr_LastCloseTime :: "time option"
  vr_CurrentAction :: "actionResponse option"

record 'a collectionResponse =
  cr_Items :: "'a list"
  cr_Total :: int
  cr_Limit :: int
  cr_Offset :: int

datatype api_body =
    ErrorBody sched_error string                  \<comment> \<open>the error and its code\<close>
  | ErrorText string                              \<comment> \<open>the literal text of \<open>http.Error\<close>\<close>
  | ValveBody valveResponse
  | ValvesBody "valveResponse collectionResponse"
  | ActionBody actionResponse
  | ActionsBody "actionResponse collectionResponse"
  | StatusBody string "(string \<times> bool) list option"
  | LibraryBody string                            \<comment> \<open>written by a library's handler\<close>

record http_response =
  rs_status :: int
  rs_type :: string
  rs_body :: api_body

type_synonym handler = "http_request \<Rightarrow> Scheduler \<Rightarrow> http_response \<times> Scheduler"

subsection \<open>Responses\<close>

definition writeJSON :: "int \<Rightarrow> api_body \<Rightarrow> http_response" where
  "writeJSON status v = \<lparr> rs_status = status, rs_type = ''application/json'', rs_body = v \<rparr>"

fun classifyError :: "sched_error \<Rightarrow> string \<times> int" where
  "classifyError (ErrValveNotFound _) = (''VALVE_NOT_FOUND'', 404)"
| "classifyError ErrValveDisabled = (''VALVE_DISABLED'', 422)"
| "classifyError _ = (''INTERNAL_ERROR'', 500)"

definition writeError :: "sched_error \<Rightarrow> http_response" where
  "writeError err =
     (let (code, status) = classifyError err
      in \<lparr> rs_status = status, rs_type = ''application/json'', rs_body = ErrorBody err code \<rparr>)"

text \<open>\<open>http.Error\<close> of the standard library: the text, as plain text.\<close>

definition http_Error :: "string \<Rightarrow> int \<Rightarrow> http_response" where
  "http_Error msg status =
     \<lparr> rs_status = status, rs_type = ''text/plain; charset=utf-8'', rs_body = ErrorText msg \<rparr>"

definition requireClientCert :: "handler \<Rightarrow> handler" where
  "requireClientCert nxt r s =
     (if rq_chains r = None \<or> rq_chains r = Some 0
      then (http_Error ''{\"error\":\"client certificate required\",\"code\":\"UNAUTHORIZED\"}'' 401, s)
      else nxt r s)"

subsection \<open>Pagination\<close>

datatype page_error = InvalidLimit | LimitTooLarge | InvalidOffset

definition defaultLimit :: int where
  "defaultLimit = 20"

definition maxLimit :: int where
  "maxLimit = 100"

definition parse_limit :: "string \<Rightarrow> page_error + int" where
  "parse_limit v =
     (if v = '''' then Inr defaultLimit
      else case Atoi v of
        Inl _ \<Rightarrow> Inl InvalidLimit
      | Inr n \<Rightarrow> if n < 1 then Inl InvalidLimit
                 else if n > maxLimit then Inl LimitTooLarge else Inr n)"

definition parse_offset :: "string \<Rightarrow> page_error + int" where
  "parse_offset v =
     (if v = '''' then Inr 0
      else case Atoi v of
        Inl _ \<Rightarrow> Inl InvalidOffset
      | Inr n \<Rightarrow> if n < 0 then Inl InvalidOffset else Inr n)"

definition parsePagination :: "http_request \<Rightarrow> page_error + int \<times> int" where
  "parsePagination r =
     (case parse_limit (rq_limit r) of
        Inl e \<Rightarrow> Inl e
      | Inr limit \<Rightarrow>
          (case parse_offset (rq_offset r) of Inl e \<Rightarrow> Inl e | Inr off \<Rightarrow> Inr (limit, off)))"

subsection \<open>Representations\<close>

definition toActionResponse :: "Action \<Rightarrow> actionResponse" where
  "toActionResponse a =
     \<lparr> ar_ID = act_ID a, ar_ValveName = act_ValveName a,
       ar_Type = ActionType_string (act_Type a), ar_State = ActionState_string (act_State a),
       ar_Duration = (if act_Duration a > 0 then Some (act_Duration a) else None),
       ar_RequestedAt = act_RequestedAt a,
       ar_FulfilledAt = act_FulfilledAt a, ar_ClosedAt = act_ClosedAt a,
       ar_ExpiresAt = act_ExpiresAt a, ar_FailedAt = act_FailedAt a,
       ar_Attempts = act_Attempts a, ar_Error = act_ErrorMessage a \<rparr>"

definition toValveResponse :: "ValveInfo \<Rightarrow> Scheduler \<Rightarrow> valveResponse" where
  "toValveResponse i s =
     \<lparr> vr_Name = vi_Name i, vr_Namespace = vi_Namespace i, vr_State = vi_State i,
       vr_Disabled = Disabled (vi_Config i), vr_FriendlyName = vi_FriendlyName i,
       vr_BridgeName = vi_BridgeName i, vr_LinkQuality = vi_LinkQuality i,
       vr_BatteryPercentage = vi_BatteryPercentage i, vr_Reachable = vi_Reachable i,
       vr_DailyIrrigationVolume = vi_DailyIrrigationVolume i,
       vr_LastValveOpenDuration = vi_LastValveOpenDuration i,
       vr_LastOpenTime = vi_LastOpenTime i, vr_LastCloseTime = vi_LastCloseTime i,
       vr_CurrentAction =
         (case ListActions (Key i) s of
            Inr (a # _) \<Rightarrow> (let x = w_acts (s_world s) a
                           in if \<not> IsTerminal x then Some (toActionResponse x) else None)
          | _ \<Rightarrow> None) \<rparr>"

definition collection :: "'a list \<Rightarrow> 'a collectionResponse" where
  "collection items = \<lparr> cr_Items = items, cr_Total = int (length items),
                         cr_Limit = int (length items), cr_Offset = 0 \<rparr>"

subsection \<open>Handlers\<close>

definition resolveValveKey :: "http_request \<Rightarrow> Scheduler \<Rightarrow> sched_error + string" where
  "resolveValveKey r s =
     (let name = rq_name r in
      if CHR ''/'' \<in> set name then Inr name
      else let ns = (if rq_namespace r = '''' then rq_X_Namespace r else rq_namespace r)
           in if ns \<noteq> '''' then Inr (ns @ ''/'' @ name) else FindKey name s)"

definition ListValves_handler :: handler where
  "ListValves_handler r s =
     (let items = concat (map (\<lambda>key. case GetValveInfo key s of
                                       Inl _ \<Rightarrow> [] | Inr i \<Rightarrow> [toValveResponse i s]) (ListValves s))
      in (writeJSON 200 (ValvesBody (collection items)), s))"

definition GetValve :: handler where
  "GetValve r s =
     (case resolveValveKey r s of
        Inl e \<Rightarrow> (writeError e, s)
      | Inr key \<Rightarrow>
          (case GetValveInfo key s of
             Inl e \<Rightarrow> (writeError e, s)
           | Inr i \<Rightarrow> (writeJSON 200 (ValveBody (toValveResponse i s)), s)))"

definition invalid_format :: string where
  "invalid_format = ''{\"error\":\"invalid duration format\",\"code\":\"INVALID_INPUT\"}''"

definition not_positive :: string where
  "not_positive = ''{\"error\":\"duration must be positive\",\"code\":\"INVALID_INPUT\"}''"

text \<open>The optional duration of an open request; the error is the text of the answer.\<close>

definition requested_duration :: "http_request \<Rightarrow> string + duration" where
  "requested_duration r =
     (if rq_duration r = '''' then Inr 0
      else case ParseDuration (rq_duration r) of
        Inl _ \<Rightarrow> Inl invalid_format
      | Inr dur \<Rightarrow> if dur \<le> 0 then Inl not_positive else Inr dur)"

definition OpenValve :: handler where
  "OpenValve r s =
     (case resolveValveKey r s of
        Inl e \<Rightarrow> (writeError e, s)
      | Inr key \<Rightarrow>
          (case requested_duration r of
             Inl msg \<Rightarrow> (http_Error msg 422, s)
           | Inr dur \<Rightarrow>
               (case Open key dur s of
                  (Inl e, s) \<Rightarrow> (writeError e, s)
                | (Inr a, s) \<Rightarrow> (writeJSON 202 (ActionBody (toActionResponse (w_acts (s_world s) a))), s))))"

definition CloseValve :: handler where
  "CloseValve r s =
     (case resolveValveKey r s of
        Inl e \<Rightarrow> (writeError e, s)
      | Inr key \<Rightarrow>
          (case Close key s of
             (Inl e, s) \<Rightarrow> (writeError e, s)
           | (Inr a, s) \<Rightarrow> (writeJSON 202 (ActionBody (toActionResponse (w_acts (s_world s) a))), s)))"

definition ListActions_handler :: handler where
  "ListActions_handler r s =
     (case resolveValveKey r s of
        Inl e \<Rightarrow> (writeError e, s)
      | Inr key \<Rightarrow>
          (case ListActions key s of
             Inl e \<Rightarrow> (writeError e, s)
           | Inr actions \<Rightarrow>
               (writeJSON 200 (ActionsBody (collection
                  (map (\<lambda>a. toActionResponse (w_acts (s_world s) a)) actions))), s)))"

definition GetAction_handler :: handler where
  "GetAction_handler r s =
     (case resolveValveKey r s of
        Inl e \<Rightarrow> (writeError e, s)
      | Inr key \<Rightarrow>
          (case GetAction key (rq_actionID r) s of
             Inl e \<Rightarrow> (writeError e, s)
           | Inr a \<Rightarrow> (writeJSON 200 (ActionBody (toActionResponse (w_acts (s_world s) a))), s)))"

definition Healthz :: handler where
  "Healthz r s = (writeJSON 200 (StatusBody ''ok'' None), s)"

text \<open>The bridges the loop of \<open>Readyz\<close> ranges over are listed in \<open>names\<close>.\<close>

fun all_connected :: "(string \<times> bool) list \<Rightarrow> bool" where
  "all_connected [] = True"
| "all_connected ((_, c) # states) = (if \<not> c then False else all_connected states)"

definition connection_states :: "string list \<Rightarrow> Manager \<Rightarrow> (string \<times> bool) list" where
  "connection_states names mgr =
     concat (map (\<lambda>n. case ConnectionStates mgr n of None \<Rightarrow> [] | Some c \<Rightarrow> [(n, c)]) names)"

definition Readyz :: "string list \<Rightarrow> handler" where
  "Readyz names r s =
     (let states = connection_states names (w_mgr (s_world s))
      in if \<not> all_connected states
         then (writeJSON 503 (StatusBody ''not ready'' (Some states)), s)
         else (writeJSON 200 (StatusBody ''ok'' (Some states)), s))"

subsection \<open>The router\<close>

text \<open>
  The mounted routes: method (\<open>None\<close> for any), pattern, handler. Matching a request against
  the patterns is the router library's; \<open>NewRouter\<close> gives the handler it ends up calling.
  The handler of the metrics endpoint is the Prometheus library's, an argument here.
\<close>

datatype endpoint =
    EHealthz | EReadyz | EMetrics | EListValves | EGetValve | EOpenValve | ECloseValve
  | EListActions | EGetAction

definition routes :: "(string option \<times> string \<times> endpoint) list" where
  "routes =
     [(Some ''GET'', ''/api/v1/healthz'', EHealthz),
      (Some ''GET'', ''/api/v1/readyz'', EReadyz),
      (None, ''/metrics'', EMetrics),
      (Some ''GET'', ''/api/v1/valves'', EListValves),
      (Some ''GET'', ''/api/v1/valves/{name}'', EGetValve),
      (Some ''PUT'', ''/api/v1/valves/{name}/open'', EOpenValve),
      (Some ''PUT'', ''/api/v1/valves/{name}/close'', ECloseValve),
      (Some ''GET'', ''/api/v1/valves/{name}/actions'', EListActions),
      (Some ''GET'', ''/api/v1/valves/{name}/actions/{actionID}'', EGetAction)]"

fun NewRouter :: "string list \<Rightarrow> handler \<Rightarrow> endpoint \<Rightarrow> handler" where
  "NewRouter names prom EHealthz = Healthz"
| "NewRouter names prom EReadyz = Readyz names"
| "NewRouter names prom EMetrics = prom"
| "NewRouter names prom EListValves = requireClientCert ListValves_handler"
| "NewRouter names prom EGetValve = requireClientCert GetValve"
| "NewRouter names prom EOpenValve = requireClientCert OpenValve"
| "NewRouter names prom ECloseValve = requireClientCert CloseValve"
| "NewRouter names prom EListActions = requireClientCert ListActions_handler"
| "NewRouter names prom EGetAction = requireClientCert GetAction_handler"

end
