(* ===== verification/SchedulerProps.thy ===== *)
theory SchedulerProps
  imports Scheduler
begin

text \<open>The registry's invariant, what each entry point does, and how valves stay apart.\<close>

subsection \<open>Invariant\<close>

definition sched_inv :: "Scheduler \<Rightarrow> bool" where
  "sched_inv s \<longleftrightarrow> distinct (map fst (s_pipelines s)) \<and>
     dom (map_of (s_cancels s)) = dom (map_of (s_pipelines s)) \<and>
     (\<forall>k p. map_of (s_pipelines s) k = Some p \<longrightarrow> Key (p_info p) = k \<and> slots_ok (focus s p))"

datatype sched_op =
    Register ctx ValveInfo
  | Deregister string
  | RequestOpen string duration
  | RequestClose string
  | SensorUpdate string SensorEvent

fun sched_step :: "sched_op \<Rightarrow> Scheduler \<Rightarrow> Scheduler" where
  "sched_step (Register c i) s = RegisterValve c i s"
| "sched_step (Deregister k) s = DeregisterValve k s"
| "sched_step (RequestOpen k d) s = snd (Open k d s)"
| "sched_step (RequestClose k) s = snd (Close k s)"
| "sched_step (SensorUpdate k ev) s = UpdateSensorFields k ev s"

lemma slots_ok_mono: "slots_ok w \<Longrightarrow> w_pl w' = w_pl w \<Longrightarrow> w_next_act w \<le> w_next_act w' \<Longrightarrow> slots_ok w'"
  by (auto simp: slots_ok_def)

lemma steps_slots: "steps A P w w' \<Longrightarrow> slots_ok w \<Longrightarrow> slots_ok w'"
  by (rule steps_inv [of A P slots_ok]) (auto intro: atomic_slots)

lemma sched_inv_unfocus:
  assumes "sched_inv s" "map_of (s_pipelines s) k = Some p" "steps A P (focus s p) w"
  shows "sched_inv (unfocus s k w)"
proof -
  have le: "world_le (focus s p) w" by (rule steps_le [OF assms(3)])
  have k: "Key (p_info p) = k" "slots_ok (focus s p)" using assms(1,2) by (auto simp: sched_inv_def)
  have "Key (info w) = k" using le k(1) by (simp add: world_le_def Key_def focus_def)
  moreover have "slots_ok (focus (unfocus s k w) (w_pl w))"
    using steps_slots [OF assms(3) k(2)] by (simp add: focus_def unfocus_def)
  moreover have "slots_ok (focus (unfocus s k w) q)" if "slots_ok (focus s q)" for q
    using that le by (rule_tac slots_ok_mono [OF that]) (auto simp: focus_def unfocus_def world_le_def)
  ultimately show ?thesis
    using assms(1,2) unfolding sched_inv_def
    by (auto simp: unfocus_def distinct_update dom_update update_conv' focus_def split: if_splits)
qed

lemma sched_inv_Register: 
  assumes "sched_inv s" shows "sched_inv (RegisterValve c i s)"
proof (cases "map_of (s_pipelines s) (Key i)")
  case (Some p)
  have "steps {} {} (focus s p) (UpdateConfig i (focus s p))" by (rule step1 [OF atomic.config])
  from sched_inv_unfocus [OF assms Some this] show ?thesis by (simp add: RegisterValve_def Some Let_def)
next
  case None
  let ?s = "RegisterValve c i s"
  have s: "s_pipelines ?s = AList.update (Key i) (newPipeline i) (s_pipelines s)"
    "s_cancels ?s = AList.update (Key i) (w_next_ctx (s_world s)) (s_cancels s)"
    "w_next_act (s_world ?s) = w_next_act (s_world s)"
    by (simp_all add: RegisterValve_def None Let_def new_ctx_def set_state_gauge_def upd_metrics_def)
  have "slots_ok (focus ?s (newPipeline i))" by (simp add: slots_ok_def focus_def newPipeline_def)
  moreover have "slots_ok (focus ?s q)" if "slots_ok (focus s q)" for q
    using that s(3) by (rule_tac slots_ok_mono [OF that]) (simp_all add: focus_def)
  ultimately show ?thesis
    using assms s(1,2) unfolding sched_inv_def
    by (auto simp: distinct_update dom_update update_conv' newPipeline_def split: if_splits)
qed

lemma sched_inv_Deregister:
  assumes "sched_inv s" shows "sched_inv (DeregisterValve k s)"
proof (cases "map_of (s_cancels s) k")
  case None
  with assms show ?thesis by (simp add: DeregisterValve_def)
next
  case (Some cid)
  let ?s = "DeregisterValve k s"
  have s: "s_pipelines ?s = AList.delete k (s_pipelines s)" "s_cancels ?s = AList.delete k (s_cancels s)"
    "w_next_act (s_world ?s) = w_next_act (s_world s)"
    by (simp_all add: DeregisterValve_def Some)
  have "slots_ok (focus ?s q)" if "slots_ok (focus s q)" for q
    using that s(3) by (rule_tac slots_ok_mono [OF that]) (simp_all add: focus_def)
  then show ?thesis
    using assms s(1,2) unfolding sched_inv_def
    by (auto simp: distinct_delete delete_conv' map_of_delete split: if_splits)
qed

lemma alloc_Enqueue_steps:
  assumes "alloc_act n ns t d w = (a, w')"
  shows "steps A P w (Enqueue a w')"
proof -
  have "atomic A P w w'" using atomic.alloc [of A P w n ns t d] assms by simp
  moreover have "a < w_next_act w'" using assms by (auto simp: alloc_act_def Let_def)
  ultimately show ?thesis by (meson Enqueue_steps converse_rtranclp_into_rtranclp)
qed

lemma sched_inv_Open:
  assumes "sched_inv s" shows "sched_inv (snd (Open k d s))"
proof (cases "map_of (s_pipelines s) k")
  case None
  with assms show ?thesis by (simp add: Open_def getPipeline_def)
next
  case (Some p)
  obtain a w' where "alloc_act (vi_Name (p_info p)) (vi_Namespace (p_info p))
      (if d > 0 then ActionTypeOpenTimed else ActionTypeOpen) d (focus s p) = (a, w')" by fastforce
  with sched_inv_unfocus [OF assms Some alloc_Enqueue_steps [OF this]] assms Some show ?thesis
    by (simp add: Open_def getPipeline_def Let_def GetInfo_def focus_def)
qed

lemma sched_inv_Close:
  assumes "sched_inv s" shows "sched_inv (snd (Close k s))"
proof (cases "map_of (s_pipelines s) k")
  case None
  with assms show ?thesis by (simp add: Close_def getPipeline_def)
next
  case (Some p)
  obtain a w' where "alloc_act (vi_Name (p_info p)) (vi_Namespace (p_info p)) ActionTypeClose 0 (focus s p) = (a, w')"
    by fastforce
  with sched_inv_unfocus [OF assms Some alloc_Enqueue_steps [OF this]] Some show ?thesis
    by (simp add: Close_def getPipeline_def Let_def GetInfo_def focus_def)
qed

lemma sched_inv_Sensor: "sched_inv s \<Longrightarrow> sched_inv (UpdateSensorFields k ev s)"
  using sched_inv_unfocus [OF _ _ update_sensor_steps]
  by (auto simp: UpdateSensorFields_def split: option.splits)

lemma sched_inv_step: "sched_inv s \<Longrightarrow> sched_inv (sched_step op s)"
  by (cases op) (auto intro: sched_inv_Register sched_inv_Deregister sched_inv_Open sched_inv_Close sched_inv_Sensor)

lemma sched_inv_New: "sched_inv (NewScheduler w)"
  by (simp add: sched_inv_def NewScheduler_def)

text \<open>
  C22: However the scheduler is used, every pipeline is registered under the key of its own
  valve, has a cancel function, and keeps its queue and history within bounds with valid
  references; no key occurs twice.
\<close>

theorem scheduler_invariant: "sched_inv (fold sched_step ops (NewScheduler w))"
proof -
  have "sched_inv s \<Longrightarrow> sched_inv (fold sched_step ops s)" for s
    by (induction ops arbitrary: s) (auto intro: sched_inv_step)
  then show ?thesis by (simp add: sched_inv_New)
qed

subsection \<open>The registry\<close>

abbreviation pipeline_of :: "Scheduler \<Rightarrow> string \<Rightarrow> pipeline option" where
  "pipeline_of s k \<equiv> map_of (s_pipelines s) k"

interpretation valves: registry pipeline_of "RegisterValve c" Key DeregisterValve sched_inv for c
proof (unfold_locales, goal_cases)
  case (1 s i) then show ?case by (rule sched_inv_Register)
next
  case (2 s k) then show ?case by (rule sched_inv_Deregister)
next
  case (3 s i) show ?case
    by (auto simp: RegisterValve_def Let_def unfocus_def split_beta update_conv' split: option.splits)
next
  case (4 s k i) then show ?case
    by (auto simp: RegisterValve_def Let_def unfocus_def split_beta update_conv' split: option.splits)
next
  case (5 s k)
  then have "map_of (s_cancels s) k = None \<Longrightarrow> map_of (s_pipelines s) k = None"
    unfolding sched_inv_def by (metis domIff)
  then show ?case by (auto simp: DeregisterValve_def map_of_delete delete_conv' split: option.splits)
next
  case (6 s k j) then show ?case
    by (auto simp: DeregisterValve_def delete_conv' split: option.splits)
qed

text \<open>
  A valve has a pipeline exactly when the last registration event for its key was a
  registration (or there was none and it had one): no registration is lost, no
  deregistration is undone, and other valves do not matter.
\<close>

theorem registered_iff_last_event:
  assumes "sched_inv s"
  shows "map_of (s_pipelines (fold (\<lambda>x. case x of Inl i \<Rightarrow> RegisterValve c i | Inr k \<Rightarrow> DeregisterValve k) evs s)) k \<noteq> None
    \<longleftrightarrow> registers Key evs k (map_of (s_pipelines s) k \<noteq> None)"
  using valves.registered_after [OF assms, of c evs k] by (simp add: valves.run_ops_def)

text \<open>A registered valve, used by the witnesses.\<close>

definition reg_config :: ValveConfig where
  "reg_config = \<lparr> Disabled = False, RetryCount = 3, CommandTimeout = 30 * Second, KeepClosedInterval = 5 * Minute,
     MaxOpenDuration = 0, CloseRepeatCount = 3 \<rparr>"

definition reg_info :: "string \<Rightarrow> string \<Rightarrow> ValveInfo" where
  "reg_info ns name = \<lparr> vi_Name = name, vi_Namespace = ns, vi_Config = reg_config, vi_FriendlyName = '''',
     vi_ShortAddr = '''', vi_BridgeName = '''', vi_BridgeHost = '''', vi_BridgePort = 1883, vi_State = '''',
     vi_LinkQuality = 0, vi_BatteryPercentage = 0, vi_Reachable = False, vi_DailyIrrigationVolume = 0,
     vi_LastValveOpenDuration = 0, vi_CurrentActionID = '''', vi_LastOpenTime = None, vi_LastCloseTime = None \<rparr>"

definition reg_world :: world where
  "reg_world = \<lparr> w_now = 0, w_cancelled = [], w_next_ctx = 0, w_acts = (\<lambda>_. newAction [] 0 '''' '''' ActionTypeClose 0),
     w_next_act = 0, w_rand = (\<lambda>_. []), w_disp = NewDispatcher, w_cells = [], w_mgr = NewManager '''',
     w_paho = (\<lambda>_. PubNever), w_metrics = new_metrics, w_pl = newPipeline (reg_info '''' ''''),
     w_sends = [], w_writes = [], w_checks = [] \<rparr>"

definition reg_sched :: Scheduler where
  "reg_sched = RegisterValve Background (reg_info ''ns'' ''v'') (NewScheduler reg_world)"

lemma reg_key: "Key (reg_info ns name) = ns @ ''/'' @ name"
  by (simp add: Key_def reg_info_def)

lemma reg_sched_inv: "sched_inv reg_sched"
  unfolding reg_sched_def by (rule sched_inv_Register [OF sched_inv_New])

lemma reg_sched_simps:
  "s_pipelines reg_sched = [(''ns/v'', newPipeline (reg_info ''ns'' ''v''))]"
  "s_cancels reg_sched = [(''ns/v'', 0)]" "s_running reg_sched = [(''ns/v'', WithCancel 0 Background)]"
  by (simp_all add: reg_sched_def RegisterValve_def NewScheduler_def Key_def reg_info_def new_ctx_def Let_def reg_world_def)

theorem registered_iff_last_event_witness:
  "map_of (s_pipelines (fold (\<lambda>x. case x of Inl i \<Rightarrow> RegisterValve Background i | Inr k \<Rightarrow> DeregisterValve k)
      [Inr ''ns/v'', Inl (reg_info ''ns'' ''v'')] reg_sched)) ''ns/v'' \<noteq> None"
  using registered_iff_last_event [OF reg_sched_inv, of Background "[Inr ''ns/v'', Inl (reg_info ''ns'' ''v'')]" "''ns/v''"]
  by (simp add: Key_def reg_info_def)

text \<open>
  Registering a valve that runs already only takes over its configuration, addresses and
  bridge: queue, history, executing action, cancel function and recorded state stay, and no
  second goroutine is started.
\<close>

theorem reregister_updates_in_place:
  assumes "map_of (s_pipelines s) (Key i) = Some p"
  shows "\<exists>q. map_of (s_pipelines (RegisterValve c i s)) (Key i) = Some q \<and>
    s_running (RegisterValve c i s) = s_running s \<and> s_cancels (RegisterValve c i s) = s_cancels s \<and>
    p_actionCh q = p_actionCh p \<and> p_history q = p_history p \<and> p_current q = p_current p \<and>
    p_cancelFn q = p_cancelFn p \<and> vi_State (p_info q) = vi_State (p_info p) \<and>
    vi_Config (p_info q) = vi_Config i \<and> CommandTarget (p_info q) = CommandTarget i \<and>
    vi_BridgeName (p_info q) = vi_BridgeName i"
  using assms
  by (simp add: RegisterValve_def unfocus_def focus_def UpdateConfig_def upd_info_def upd_pl_def Let_def
      update_conv' CommandTarget_def)

theorem reregister_updates_in_place_witness:
  "s_running (RegisterValve Background (reg_info ''ns'' ''v'') reg_sched) = s_running reg_sched"
  using reregister_updates_in_place [of reg_sched "reg_info ''ns'' ''v''" "newPipeline (reg_info ''ns'' ''v'')" Background]
  by (auto simp: reg_sched_simps reg_key)

text \<open>
  Registering a new valve starts one goroutine; deregistering the valve ends that
  goroutine's context and restores the set of registered pipelines.
\<close>

theorem deregister_stops_the_goroutine:
  assumes "map_of (s_pipelines s) (Key i) = None" "sched_inv s"
  shows "\<exists>x. s_running (RegisterValve c i s) = s_running s @ [(Key i, x)] \<and>
    ctx_done (s_world (DeregisterValve (Key i) (RegisterValve c i s))) x \<and>
    map_of (s_pipelines (DeregisterValve (Key i) (RegisterValve c i s))) = map_of (s_pipelines s)"
proof -
  have "map_of (s_cancels s) (Key i) = None" using assms unfolding sched_inv_def by (metis domIff)
  then show ?thesis
    using assms(1)
    by (auto simp: RegisterValve_def DeregisterValve_def Let_def new_ctx_def update_conv' delete_conv' ctx_done_def
        ctx_err_def)
qed

theorem deregister_stops_the_goroutine_witness:
  "\<exists>x. s_running (RegisterValve Background (reg_info ''ns'' ''u'') reg_sched) = s_running reg_sched @ [(''ns/u'', x)] \<and>
    ctx_done (s_world (DeregisterValve ''ns/u'' (RegisterValve Background (reg_info ''ns'' ''u'') reg_sched))) x"
proof -
  have "Key (reg_info ''ns'' ''u'') = ''ns/u''" by (simp add: reg_key)
  with deregister_stops_the_goroutine [of reg_sched "reg_info ''ns'' ''u''" Background] show ?thesis
    by (auto simp: reg_sched_simps reg_sched_inv)
qed

subsection \<open>Requests\<close>

fun op_key :: "sched_op \<Rightarrow> string" where
  "op_key (Register c i) = Key i"
| "op_key (Deregister k) = k"
| "op_key (RequestOpen k d) = k"
| "op_key (RequestClose k) = k"
| "op_key (SensorUpdate k ev) = k"

text \<open>
  Valves stay apart: an operation for one valve leaves the pipeline of every other valve
  (queue, history, executing action, recorded state) as it is.
\<close>

theorem valves_stay_apart:
  assumes "k \<noteq> op_key op"
  shows "map_of (s_pipelines (sched_step op s)) k = map_of (s_pipelines s) k"
  using assms
  by (cases op) (auto simp: RegisterValve_def DeregisterValve_def Open_def Close_def UpdateSensorFields_def
      getPipeline_def unfocus_def Let_def split_beta update_conv' delete_conv' split: option.splits sum.splits)

theorem valves_stay_apart_witness:
  "map_of (s_pipelines (sched_step (RequestClose ''ns/u'') reg_sched)) ''ns/v'' =
     Some (newPipeline (reg_info ''ns'' ''v''))"
  using valves_stay_apart [of "''ns/v''" "RequestClose ''ns/u''" reg_sched] by (simp add: reg_sched_simps)

lemma Enqueue_frame:
  "p_actionCh (w_pl (Enqueue a w)) = chan_put a (p_actionCh (w_pl w))" "w_acts (Enqueue a w) = w_acts w"
  by (auto simp: Enqueue_def Let_def upd_pl_def split: option.splits)

lemma Open_accepts:
  assumes "map_of (s_pipelines s) k = Some p" "\<not> Disabled (vi_Config (p_info p))"
  obtains a s' q where "Open k d s = (Inr a, s')" "a = w_next_act (s_world s)"
    "map_of (s_pipelines s') k = Some q" "p_actionCh q = chan_put a (p_actionCh p)"
    "w_acts (s_world s') a = newAction (w_rand (s_world s) a) (w_now (s_world s)) (vi_Name (p_info p))
       (vi_Namespace (p_info p)) (if d > 0 then ActionTypeOpenTimed else ActionTypeOpen) d"
proof (rule that)
  let ?t = "if d > 0 then ActionTypeOpenTimed else ActionTypeOpen"
  let ?w = "snd (alloc_act (vi_Name (p_info p)) (vi_Namespace (p_info p)) ?t d (focus s p))"
  show "Open k d s = (Inr (w_next_act (s_world s)), unfocus s k (Enqueue (w_next_act (s_world s)) ?w))"
    using assms by (simp add: Open_def getPipeline_def GetInfo_def focus_def alloc_act_def Let_def)
  show "p_actionCh (w_pl (Enqueue (w_next_act (s_world s)) ?w)) = chan_put (w_next_act (s_world s)) (p_actionCh p)"
    by (simp add: Enqueue_frame alloc_act_def focus_def Let_def)
qed (auto simp: unfocus_def Enqueue_frame alloc_act_def focus_def Let_def update_conv')

lemma chan_put_last: "chan_put a ch \<noteq> []" "last (chan_put a ch) = a"
  by (simp_all add: chan_put_def)

text \<open>
  An accepted open request is a fresh pending action of the right type at the end of the
  valve's queue: timed exactly when a positive duration was given. A disabled valve refuses
  it and nothing changes; an unknown valve is reported as such.
\<close>

theorem Open_outcome:
  "case map_of (s_pipelines s) k of
     None \<Rightarrow> Open k d s = (Inl (ErrValveNotFound k), s)
   | Some p \<Rightarrow>
       if Disabled (vi_Config (p_info p)) then Open k d s = (Inl ErrValveDisabled, s)
       else \<exists>a s' q. Open k d s = (Inr a, s') \<and> a = w_next_act (s_world s) \<and>
         map_of (s_pipelines s') k = Some q \<and> last (p_actionCh q) = a \<and> p_actionCh q \<noteq> [] \<and>
         act_State (w_acts (s_world s') a) = ActionStatePending \<and>
         act_Type (w_acts (s_world s') a) = (if d > 0 then ActionTypeOpenTimed else ActionTypeOpen) \<and>
         act_Duration (w_acts (s_world s') a) = d \<and>
         act_ValveName (w_acts (s_world s') a) = vi_Name (p_info p)"
proof (cases "map_of (s_pipelines s) k")
  case None
  then show ?thesis by (simp add: Open_def getPipeline_def)
next
  case (Some p)
  show ?thesis
  proof (cases "Disabled (vi_Config (p_info p))")
    case True
    with Some show ?thesis by (simp add: Open_def getPipeline_def GetInfo_def focus_def Let_def)
  next
    case False
    from Open_accepts [OF Some this, of d] obtain a s' q where
      "Open k d s = (Inr a, s')" "a = w_next_act (s_world s)" "map_of (s_pipelines s') k = Some q"
      "p_actionCh q = chan_put a (p_actionCh p)"
      "w_acts (s_world s') a = newAction (w_rand (s_world s) a) (w_now (s_world s)) (vi_Name (p_info p))
         (vi_Namespace (p_info p)) (if d > 0 then ActionTypeOpenTimed else ActionTypeOpen) d" .
    with Some False show ?thesis by (simp add: chan_put_last newAction_def)
  qed
qed

text \<open>
  A close request is accepted for every registered valve, disabled ones included, and a
  running action of that valve is cancelled by it.
\<close>

theorem Close_always_accepted:
  assumes "map_of (s_pipelines s) k = Some p"
  shows "\<exists>a s' q. Close k s = (Inr a, s') \<and> map_of (s_pipelines s') k = Some q \<and>
    last (p_actionCh q) = a \<and> p_actionCh q \<noteq> [] \<and> act_Type (w_acts (s_world s') a) = ActionTypeClose \<and>
    (\<forall>cid. p_cancelFn p = Some cid \<longrightarrow> ctx_done (s_world s') (WithCancel cid c))"
proof -
  note Enqueue_frame
  moreover have "ctx_done (Enqueue a w) (WithCancel cid c)"
    if "act_Type (w_acts w a) = ActionTypeClose" "p_cancelFn (w_pl w) = Some cid" for a w cid
    using that by (simp add: Enqueue_def Let_def upd_pl_def ctx_done_def ctx_err_def)
  ultimately show ?thesis
    using assms
    by (auto simp: Close_def getPipeline_def GetInfo_def focus_def Let_def alloc_act_def unfocus_def update_conv'
        chan_put_def newAction_def)
qed

theorem Close_always_accepted_witness:
  "\<exists>a s'. Close ''ns/v'' reg_sched = (Inr a, s') \<and> act_Type (w_acts (s_world s') a) = ActionTypeClose"
  using Close_always_accepted [of reg_sched "''ns/v''" "newPipeline (reg_info ''ns'' ''v'')" Background]
  by (auto simp: reg_sched_simps)

subsection \<open>Lookups\<close>

lemma distinct_singleton_list: "distinct xs \<Longrightarrow> xs = [k] \<longleftrightarrow> set xs = {k}"
  by (cases xs; cases "tl xs") auto

text \<open>
  Resolving a bare valve name succeeds exactly when one registered valve has it, and
  then gives that valve's key; Kubernetes namespaces contain no slash.
\<close>

theorem FindKey_unique:
  assumes "sched_inv s" "\<forall>k p. map_of (s_pipelines s) k = Some p \<longrightarrow> CHR ''/'' \<notin> set (vi_Namespace (p_info p))"
  shows "FindKey name s = Inr k \<longleftrightarrow>
    (\<exists>p. map_of (s_pipelines s) k = Some p \<and> vi_Name (p_info p) = name) \<and>
    (\<forall>k' p'. map_of (s_pipelines s) k' = Some p' \<and> vi_Name (p_info p') = name \<longrightarrow> k' = k)"
proof -
  let ?P = "\<lambda>key. let parts = SplitN key CHR ''/'' 2 in length parts = 2 \<and> parts ! 1 = name"
  let ?ms = "filter ?P (map fst (s_pipelines s))"
  have P: "?P k \<longleftrightarrow> vi_Name (p_info p) = name" if "map_of (s_pipelines s) k = Some p" for k p
  proof -
    have "Key (p_info p) = k" "CHR ''/'' \<notin> set (vi_Namespace (p_info p))" using assms that by (auto simp: sched_inv_def)
    with Key_SplitN [of "p_info p"] show ?thesis by (simp add: Let_def)
  qed
  have dist: "distinct ?ms" using assms(1) by (simp add: sched_inv_def)
  have mem: "k \<in> set ?ms \<longleftrightarrow> (\<exists>p. map_of (s_pipelines s) k = Some p \<and> vi_Name (p_info p) = name)" for k
  proof -
    have "k \<in> fst ` set (s_pipelines s) \<longleftrightarrow> (\<exists>p. map_of (s_pipelines s) k = Some p)"
      by (metis domD domI dom_map_of_conv_image_fst)
    then show ?thesis using P [of k] by auto
  qed
  have "FindKey name s = Inr k \<longleftrightarrow> ?ms = [k]"
    unfolding FindKey_def Let_def by (auto split: list.splits)
  also have "\<dots> \<longleftrightarrow> set ?ms = {k}"
    by (rule distinct_singleton_list [OF dist])
  also have "\<dots> \<longleftrightarrow> k \<in> set ?ms \<and> (\<forall>k'. k' \<in> set ?ms \<longrightarrow> k' = k)" by auto
  finally show ?thesis unfolding mem by blast
qed

theorem FindKey_unique_witness: "FindKey ''v'' reg_sched = Inr ''ns/v''"
  using FindKey_unique [of reg_sched "''v''" "''ns/v''"]
  by (auto simp: reg_sched_simps reg_sched_inv newPipeline_def reg_info_def split: if_splits)

lemma GetAction_via_list:
  "GetAction k aid s =
     (case ListActions k s of
        Inl e \<Rightarrow> Inl e
      | Inr as \<Rightarrow> (case find (\<lambda>a. act_ID (w_acts (s_world s) a) = aid) as of
                     Some a \<Rightarrow> Inr a | None \<Rightarrow> Inl (ActionNotFound aid)))"
  by (auto simp: GetAction_def ListActions_def getPipeline_def focus_def GetHistory_def GetCurrent_def Let_def
      split: option.splits)

lemma find_image: "(find (\<lambda>a. f a = y) xs \<noteq> None) \<longleftrightarrow> y \<in> f ` set xs"
  by (induction xs) auto

text \<open>
  An action is found by its identifier exactly when it is listed, that is when it is
  executing or in the history: a queued action that has not started is not found, although
  its identifier was handed out when it was requested.
\<close>

theorem GetAction_iff_listed:
  "(\<exists>a. GetAction k aid s = Inr a) \<longleftrightarrow>
   (\<exists>as. ListActions k s = Inr as \<and> aid \<in> (\<lambda>a. act_ID (w_acts (s_world s) a)) ` set as)"
  unfolding find_image [symmetric]
  by (auto simp: GetAction_via_list split: sum.splits option.splits)

end
