(* ===== verification/ApiProps.thy ===== *)
theory ApiProps
  imports Api SchedulerProps
begin

text \<open>
  What the REST interface promises: who may use it, what each answer says of the scheduler,
  and that a refused request leaves no trace.
\<close>

definition unverified :: "http_request \<Rightarrow> bool" where
  "unverified r \<longleftrightarrow> rq_chains r = None \<or> rq_chains r = Some 0"

lemma Close_error_unchanged: "Close key s = (Inl e, s') \<Longrightarrow> s' = s \<and> getPipeline s key = Inl e"
  by (auto simp: Close_def Let_def split: sum.splits prod.splits)

lemma Open_error_unchanged: "Open key d s = (Inl e, s') \<Longrightarrow> s' = s"
  by (auto simp: Open_def Let_def split: sum.splits prod.splits if_splits)

lemma requireClientCert_verified: "\<not> unverified r \<Longrightarrow> requireClientCert h r s = h r s"
  by (auto simp: requireClientCert_def unverified_def)

lemma requireClientCert_unverified:
  "unverified r \<Longrightarrow> snd (requireClientCert h r s) = s \<and> rs_status (fst (requireClientCert h r s)) = 401"
  by (auto simp: requireClientCert_def unverified_def http_Error_def)

lemma handlers_read_only:
  "snd (ListValves_handler r s) = s" "snd (GetValve r s) = s" "snd (ListActions_handler r s) = s"
  "snd (GetAction_handler r s) = s" "snd (Healthz r s) = s" "snd (Readyz names r s) = s"
  by (simp_all add: ListValves_handler_def GetValve_def ListActions_handler_def GetAction_handler_def
      Healthz_def Readyz_def Let_def split: sum.splits)

lemma OpenValve_change: "snd (OpenValve r s) \<noteq> s \<Longrightarrow> rs_status (fst (OpenValve r s)) = 202"
  by (auto simp: OpenValve_def writeJSON_def dest: Open_error_unchanged split: sum.splits prod.splits)

lemma CloseValve_change: "snd (CloseValve r s) \<noteq> s \<Longrightarrow> rs_status (fst (CloseValve r s)) = 202"
  by (auto simp: CloseValve_def writeJSON_def dest: Close_error_unchanged split: sum.splits prod.splits)

subsection \<open>Access\<close>

text \<open>
  C23: Without a verified client certificate no valve endpoint does anything: the answer is
  401 and the scheduler is untouched, whatever the request asks for.
\<close>

theorem no_access_without_certificate:
  assumes "rq_chains r = None \<or> rq_chains r = Some 0" "e \<notin> {EHealthz, EReadyz, EMetrics}"
  shows "rs_status (fst (NewRouter names prom e r s)) = 401 \<and> snd (NewRouter names prom e r s) = s"
  using assms requireClientCert_unverified [of r _ s] by (cases e) (auto simp: unverified_def)

definition metrics_page :: handler where
  "metrics_page r s = (writeJSON 200 (LibraryBody ''''), s)"

definition open_request :: "nat option \<Rightarrow> http_request" where
  "open_request ch = \<lparr> rq_name = ''v'', rq_actionID = '''', rq_namespace = ''ns'', rq_duration = ''15m'',
     rq_limit = '''', rq_offset = '''', rq_X_Namespace = '''', rq_chains = ch \<rparr>"

theorem no_access_without_certificate_witness:
  "snd (NewRouter [] metrics_page EOpenValve (open_request (Some 0)) reg_sched) = reg_sched"
  using no_access_without_certificate [of "open_request (Some 0)" EOpenValve] by (simp add: open_request_def)

text \<open>
  C25: A request changes the scheduler only when it is an authenticated open or close request
  that was answered with 202: every other answer, errors included, leaves no trace.
\<close>

theorem api_changes_only_when_accepted:
  assumes "snd (NewRouter names prom e r s) \<noteq> s" "e \<noteq> EMetrics"
  shows "e \<in> {EOpenValve, ECloseValve} \<and> rs_status (fst (NewRouter names prom e r s)) = 202 \<and>
    (\<exists>n. rq_chains r = Some n \<and> 0 < n)"
proof -
  have v: "\<not> unverified r \<longleftrightarrow> (\<exists>n. rq_chains r = Some n \<and> 0 < n)"
    by (auto simp: unverified_def)
  show ?thesis
  proof (cases "unverified r")
    case True
    then have "snd (requireClientCert h r s) = s" for h by (simp add: requireClientCert_unverified)
    with assms show ?thesis by (cases e) (auto simp: handlers_read_only)
  next
    case False
    with assms v show ?thesis
      by (cases e) (auto simp: requireClientCert_verified handlers_read_only OpenValve_change CloseValve_change)
  qed
qed

subsection \<open>Requests\<close>

lemma resolve_given_namespace:
  assumes "CHR ''/'' \<notin> set (rq_name r)" "rq_namespace r \<noteq> ''''"
  shows "resolveValveKey r s = Inr (rq_namespace r @ ''/'' @ rq_name r)"
  using assms by (simp add: resolveValveKey_def Let_def)

lemma open_request_handled:
  assumes "rq_chains r = Some (Suc m)"
    and "CHR ''/'' \<notin> set (rq_name r)" "rq_namespace r \<noteq> ''''"
    and "rq_duration r = duration_text xs" "known_units xs" "0 < duration_ns xs" "duration_ns xs < 2 ^ 63"
    and p: "map_of (s_pipelines s) (rq_namespace r @ ''/'' @ rq_name r) = Some p"
    and en: "\<not> Disabled (vi_Config (p_info p))"
  obtains a s' q where "Open (rq_namespace r @ ''/'' @ rq_name r) (duration_ns xs) s = (Inr a, s')"
    "NewRouter names prom EOpenValve r s = (writeJSON 202 (ActionBody (toActionResponse (w_acts (s_world s') a))), s')"
    "map_of (s_pipelines s') (rq_namespace r @ ''/'' @ rq_name r) = Some q" "a = w_next_act (s_world s)"
    "p_actionCh q = chan_put a (p_actionCh p)"
    "w_acts (s_world s') a = newAction (w_rand (s_world s) a) (w_now (s_world s)) (vi_Name (p_info p))
       (vi_Namespace (p_info p)) ActionTypeOpenTimed (duration_ns xs)"
proof -
  have dur: "requested_duration r = Inr (duration_ns xs)"
    using ParseDuration_text [OF assms(5) _ assms(7)] assms(4,6) by (cases xs) (auto simp: requested_duration_def)
  obtain a s' q where o: "Open (rq_namespace r @ ''/'' @ rq_name r) (duration_ns xs) s = (Inr a, s')"
    "a = w_next_act (s_world s)" "map_of (s_pipelines s') (rq_namespace r @ ''/'' @ rq_name r) = Some q"
    "p_actionCh q = chan_put a (p_actionCh p)"
    "w_acts (s_world s') a = newAction (w_rand (s_world s) a) (w_now (s_world s)) (vi_Name (p_info p))
       (vi_Namespace (p_info p)) (if duration_ns xs > 0 then ActionTypeOpenTimed else ActionTypeOpen) (duration_ns xs)"
    by (rule Open_accepts [OF p en])
  have "\<not> unverified r" using assms(1) by (simp add: unverified_def)
  then have "NewRouter names prom EOpenValve r s =
      (writeJSON 202 (ActionBody (toActionResponse (w_acts (s_world s') a))), s')"
    using resolve_given_namespace [OF assms(2,3)] dur o(1)
    by (simp add: requireClientCert_verified OpenValve_def)
  with that o assms(6) show ?thesis by simp
qed

text \<open>
  C26: Opening a registered, enabled valve for a time such as \<open>15m\<close> or \<open>1h30m\<close> (numbers with
  units, together positive and within 64-bit nanoseconds) is answered with 202 and puts a timed open of
  exactly that duration at the end of the valve's queue.
\<close>

theorem open_request_is_queued:
  assumes "rq_chains r = Some (Suc m)"
    and "CHR ''/'' \<notin> set (rq_name r)" "rq_namespace r \<noteq> ''''"
    and "rq_duration r = duration_text xs" "known_units xs" "0 < duration_ns xs" "duration_ns xs < 2 ^ 63"
    and p: "map_of (s_pipelines s) (rq_namespace r @ ''/'' @ rq_name r) = Some p"
    and en: "\<not> Disabled (vi_Config (p_info p))"
  shows "\<exists>resp s' q a. NewRouter names prom EOpenValve r s = (resp, s') \<and> rs_status resp = 202 \<and>
    map_of (s_pipelines s') (rq_namespace r @ ''/'' @ rq_name r) = Some q \<and>
    p_actionCh q = chan_put a (p_actionCh p) \<and>
    act_Type (w_acts (s_world s') a) = ActionTypeOpenTimed \<and>
    act_Duration (w_acts (s_world s') a) = duration_ns xs \<and>
    act_State (w_acts (s_world s') a) = ActionStatePending"
proof (rule open_request_handled [OF assms, of names prom])
  fix a s' q
  assume "NewRouter names prom EOpenValve r s =
      (writeJSON 202 (ActionBody (toActionResponse (w_acts (s_world s') a))), s')"
    "map_of (s_pipelines s') (rq_namespace r @ ''/'' @ rq_name r) = Some q" "p_actionCh q = chan_put a (p_actionCh p)"
    "w_acts (s_world s') a = newAction (w_rand (s_world s) a) (w_now (s_world s)) (vi_Name (p_info p))
       (vi_Namespace (p_info p)) ActionTypeOpenTimed (duration_ns xs)"
  then show ?thesis by (auto simp: writeJSON_def newAction_def)
qed

theorem open_request_is_queued_witness:
  "\<exists>resp s'. NewRouter [] metrics_page EOpenValve (open_request (Some 1)) reg_sched = (resp, s') \<and>
     rs_status resp = 202"
proof -
  have "duration_text [(15, ''m'')] = ''15m''" by (simp add: decimal.simps digit_def)
  then show ?thesis
    using open_request_is_queued [of "open_request (Some 1)" 0 "[(15, ''m'')]" reg_sched "newPipeline (reg_info ''ns'' ''v'')"
        "[]" metrics_page]
    by (auto simp: open_request_def reg_sched_simps unitMap_def newPipeline_def reg_info_def reg_config_def)
qed

theorem api_changes_only_when_accepted_witness:
  "rs_status (fst (NewRouter [] metrics_page ECloseValve (open_request (Some 1)) reg_sched)) = 202"
proof -
  let ?x = "NewRouter [] metrics_page ECloseValve (open_request (Some 1)) reg_sched"
  have "w_next_act (s_world (snd ?x)) \<noteq> w_next_act (s_world reg_sched)"
    by (simp add: requireClientCert_def CloseValve_def resolveValveKey_def open_request_def Close_def getPipeline_def
        reg_sched_simps unfocus_def focus_def alloc_act_def Enqueue_def newPipeline_def upd_pl_def GetInfo_def Let_def)
  then have "snd ?x \<noteq> reg_sched" by metis
  then show ?thesis
    using api_changes_only_when_accepted [of "[]" metrics_page ECloseValve "open_request (Some 1)" reg_sched]
    by simp
qed


subsection \<open>Probes\<close>

lemma all_connected_iff: "all_connected xs \<longleftrightarrow> (\<forall>(n, c) \<in> set xs. c)"
  by (induction xs rule: all_connected.induct) auto

lemma set_connection_states:
  "set (connection_states names mgr) =
     {(n, IsConnected bc) | n bc. n \<in> set names \<and> mgr_bridges mgr n = Some bc}"
  by (auto simp: connection_states_def ConnectionStates_def split: option.splits) (metis option.inject)+

text \<open>
  The readiness probe answers 200 exactly when every registered bridge is connected, and
  503 otherwise.
\<close>

theorem readyz_iff_all_connected:
  assumes "set names = dom (mgr_bridges (w_mgr (s_world s)))"
  shows "rs_status (fst (NewRouter names prom EReadyz r s)) =
    (if \<forall>n bc. mgr_bridges (w_mgr (s_world s)) n = Some bc \<longrightarrow> IsConnected bc then 200 else 503)"
  using assms
  by (auto simp: Readyz_def Let_def all_connected_iff set_connection_states writeJSON_def)

theorem readyz_iff_all_connected_witness:
  "rs_status (fst (NewRouter [] metrics_page EReadyz (open_request None) reg_sched)) = 200"
  using readyz_iff_all_connected [of "[]" reg_sched metrics_page "open_request None"]
  by (simp add: reg_sched_def RegisterValve_def NewScheduler_def new_ctx_def reg_world_def NewManager_def Let_def
      set_state_gauge_def upd_metrics_def)

end
