(* ===== verification/Attempts.thy ===== *)
theory Attempts
  imports Waits
begin

text \<open>
  One attempt and the retry loop: the commands they send, what a confirmation means, that no
  subscription outlives an attempt, how long they take and that they end.
\<close>

subsection \<open>The commands of an attempt\<close>

definition commands :: "string \<Rightarrow> string \<Rightarrow> bool \<Rightarrow> zbsend_call list \<Rightarrow> bool" where
  "commands bridge target pwr xs \<longleftrightarrow>
     list_all (\<lambda>x. zs_bridge x = bridge \<and> zs_target x = target \<and> zs_power x = pwr) xs"

text \<open>
  What sending relies on of the rest of the program: it does not move the clock, sends no
  command on this goroutine's account, registers no waiter and leaves the MQTT library's
  answers alone.
\<close>

locale quiet_env =
  fixes env :: "'e \<Rightarrow> world \<Rightarrow> world"
  assumes env_now: "w_now (env e w) = w_now w"
    and env_sends: "w_sends (env e w) = w_sends w"
    and env_cells: "length (w_cells (env e w)) = length (w_cells w)"
    and env_paho: "w_paho (env e w) = w_paho w"
begin

lemma wait_quiet:
  assumes "wait env ready dl w es = Some (w', es')"
  shows "w_sends w' = w_sends w \<and> length (w_cells w') = length (w_cells w) \<and> w_paho w' = w_paho w \<and>
    w_now w \<le> w_now w'"
proof -
  let ?Q = "\<lambda>v. w_sends v = w_sends w \<and> length (w_cells v) = length (w_cells w) \<and> w_paho v = w_paho w \<and>
    w_now w \<le> w_now v"
  have "stable env (\<lambda>_. True) ?Q"
    by unfold_locales (auto simp: env_now env_sends env_cells env_paho)
  from stable.wait_rely [OF this assms] show "?Q w'" by (auto simp: list_all_iff)
qed

lemma wait_until: "wait env ready (Some d) w es = Some (w', es') \<Longrightarrow> w_now w' \<le> max (w_now w) d"
  by (rule wait_time [OF env_now])

lemma SendZbSend_cases:
  assumes "SendZbSend env c b dev p w es = Some (err, w', es')"
  obtains (absent) "mgr_bridges (w_mgr w) b = None" "w' = log_send b dev p False w" "es' = es" "err \<noteq> None"
  | (waited) dl where "mgr_bridges (w_mgr w) b \<noteq> None"
      "dl = min_time (case w_paho w (length (w_sends w)) of PubDone d ok \<Rightarrow> Some (w_now w + d) | PubNever \<Rightarrow> None)
        (ctx_deadline c)"
      "wait env (\<lambda>w. ctx_done w c) dl (log_send b dev p True w) es = Some (w', es')"
  using assms by (cases "mgr_bridges (w_mgr w) b") (auto simp: SendZbSend_def client_SendZbSend_def Let_def bind_eq_Some_conv)

lemma SendZbSend_log:
  assumes "SendZbSend env c b dev p w es = Some (err, w', es')"
  shows "(\<exists>pub. w_sends w' = w_sends w @ [\<lparr> zs_time = w_now w, zs_bridge = b, zs_target = dev,
      zs_power = p, zs_published = pub \<rparr>]) \<and>
    length (w_cells w') = length (w_cells w) \<and> w_paho w' = w_paho w \<and> w_now w \<le> w_now w'"
  using assms
proof (cases rule: SendZbSend_cases)
  case absent
  then show ?thesis by (auto simp: log_send_def)
next
  case (waited dl)
  from wait_quiet [OF waited(3)] show ?thesis by (auto simp: log_send_def)
qed

lemma SendZbSend_time:
  assumes "SendZbSend env c b dev p w es = Some (err, w', es')" "ctx_deadline c = Some d"
  shows "w_now w' \<le> max (w_now w) d"
  using assms(1)
proof (cases rule: SendZbSend_cases)
  case absent
  then show ?thesis by (simp add: log_send_def)
next
  case (waited dl)
  with assms(2) obtain x where "dl = Some x" "x \<le> d"
    by (cases "w_paho w (length (w_sends w))") auto
  with wait_until [OF waited(3) [unfolded \<open>dl = Some x\<close>]] show ?thesis by (simp add: log_send_def)
qed

lemma SendZbSend_total:
  assumes "ctx_deadline c \<noteq> None \<or> (\<forall>n. w_paho w n \<noteq> PubNever)"
  shows "\<exists>r. SendZbSend env c b dev p w es = Some r"
proof (cases "mgr_bridges (w_mgr w) b")
  case None
  then show ?thesis by (simp add: SendZbSend_def client_SendZbSend_def)
next
  case (Some x)
  let ?dl = "min_time (case w_paho w (length (w_sends w)) of PubDone d ok \<Rightarrow> Some (w_now w + d) | PubNever \<Rightarrow> None)
    (ctx_deadline c)"
  from assms obtain dl where "?dl = Some dl"
    by (cases "ctx_deadline c"; cases "w_paho w (length (w_sends w))") auto
  with wait_total [of env "\<lambda>w. ctx_done w c" dl "log_send b dev p True w" es] Some
  show ?thesis by (auto simp: SendZbSend_def client_SendZbSend_def Let_def)
qed

lemma send_loop_log:
  "send_loop env c wc b dev p n i pub w es = Some (pub', w', es') \<Longrightarrow>
   (\<exists>xs. w_sends w' = w_sends w @ xs \<and> length xs = n \<and> commands b dev p xs \<and>
      (n > 0 \<longrightarrow> i \<le> 0 \<longrightarrow> zs_time (hd xs) = w_now w)) \<and>
   length (w_cells w') = length (w_cells w) \<and> w_paho w' = w_paho w \<and> w_now w \<le> w_now w'"
proof (induction n arbitrary: i pub w es)
  case 0
  then show ?case by (simp add: commands_def)
next
  case (Suc n)
  from Suc.prems obtain w1 es1 w2 es2 err where
    pause: "(if i > 0 then wait env (\<lambda>w. ctx_done w wc)
       (min_time (Some (w_now w + 500 * Millisecond)) (ctx_deadline wc)) w es
       else Some (w, es)) = Some (w1, es1)"
    and snd: "SendZbSend env c b dev p w1 es1 = Some (err, w2, es2)"
    and rest: "send_loop env c wc b dev p n (i + 1) (pub \<or> err = None) w2 es2 = Some (pub', w', es')"
    by (auto simp: bind_eq_Some_conv simp del: split_paired_Ex)
  have p: "w_sends w1 = w_sends w \<and> length (w_cells w1) = length (w_cells w) \<and> w_paho w1 = w_paho w \<and>
    w_now w \<le> w_now w1 \<and> (i \<le> 0 \<longrightarrow> w_now w1 = w_now w)"
    using pause wait_quiet [of _ _ w es w1 es1] by (auto split: if_splits)
  from SendZbSend_log [OF snd] Suc.IH [OF rest] p show ?case
    by (auto simp: commands_def)
qed

lemma send_loop_time:
  "send_loop env c wc b dev p n i pub w es = Some (pub', w', es') \<Longrightarrow>
   ctx_deadline c = Some d \<Longrightarrow> ctx_deadline wc = Some d' \<Longrightarrow> d' \<le> d \<Longrightarrow> w_now w' \<le> max (w_now w) d"
proof (induction n arbitrary: i pub w es)
  case 0
  then show ?case by simp
next
  case (Suc n)
  from Suc.prems(1) obtain w1 es1 w2 es2 err where
    pause: "(if i > 0 then wait env (\<lambda>w. ctx_done w wc)
       (min_time (Some (w_now w + 500 * Millisecond)) (ctx_deadline wc)) w es
       else Some (w, es)) = Some (w1, es1)"
    and snd: "SendZbSend env c b dev p w1 es1 = Some (err, w2, es2)"
    and rest: "send_loop env c wc b dev p n (i + 1) (pub \<or> err = None) w2 es2 = Some (pub', w', es')"
    by (auto simp: bind_eq_Some_conv simp del: split_paired_Ex)
  have "w_now w1 \<le> max (w_now w) d"
    using pause Suc.prems(3,4) wait_until [of "\<lambda>w. ctx_done w wc" _ w es w1 es1]
    by (fastforce split: if_splits)
  with SendZbSend_time [OF snd Suc.prems(2)] Suc.IH [OF rest Suc.prems(2-4)] show ?case by simp
qed

lemma send_loop_total:
  "ctx_deadline c \<noteq> None \<or> (\<forall>n. w_paho w n \<noteq> PubNever) \<Longrightarrow>
   \<exists>r. send_loop env c wc b dev p n i pub w es = Some r"
proof (induction n arbitrary: i pub w es)
  case 0
  then show ?case by simp
next
  case (Suc n)
  obtain dl where dl: "min_time (Some (w_now w + 500 * Millisecond)) (ctx_deadline wc) = Some dl"
    by (cases "ctx_deadline wc") auto
  obtain w1 es1 where pause: "(if i > 0 then wait env (\<lambda>w. ctx_done w wc)
       (min_time (Some (w_now w + 500 * Millisecond)) (ctx_deadline wc)) w es
       else Some (w, es)) = Some (w1, es1)"
    unfolding dl using wait_total [of env "\<lambda>w. ctx_done w wc" dl w es] by fastforce
  then have paho: "w_paho w1 = w_paho w" using wait_quiet [of _ _ w es w1 es1] by (auto split: if_splits)
  then obtain err w2 es2 where snd: "SendZbSend env c b dev p w1 es1 = Some (err, w2, es2)"
    using SendZbSend_total [of c w1 b dev p es1] Suc.prems by auto
  have "w_paho w2 = w_paho w" using SendZbSend_log [OF snd] paho by simp
  with Suc.IH [of w2] Suc.prems pause snd show ?case by simp
qed

end

lemma external_paho: "w_paho (external_step e w) = w_paho w"
  using steps_le [OF external_steps [of UNIV "{}" w e]] by (simp add: world_le_def)

interpretation external: quiet_env external_step
  by unfold_locales (simp_all add: external_paho)


subsection \<open>One attempt\<close>

definition attempt_rec :: "int \<Rightarrow> time \<Rightarrow> Action \<Rightarrow> Action" where
  "attempt_rec n t x = x\<lparr> act_Attempts := n + 1, act_LastAttempt := Some t,
     act_State := ActionStateWaitingConfirmation \<rparr>"

lemma add_cell_pending:
  "waiters_ok w \<Longrightarrow> pending (length (w_cells w)) dev p (add_cell c dev p w)"
  using atomic_waiters [OF atomic.waiter [of "{}" "{}" w c dev p]]
  by (simp add: pending_def add_cell_simps)

lemma waiter_ctx_keeps: "wc_ctx (w_cells (waiter_ctx j w) ! i) = wc_ctx (w_cells w ! i)"
  by (auto simp: waiter_ctx_def close_cell_simps nth_list_update split: option.splits)

lemma attempt_setup_spec:
  assumes "attempt_setup c a pwr timeout n w = (i, cid, wc, cell, w1)"
  shows "i = info w" "cid = w_next_ctx w" "wc = WithDeadline (w_now w + timeout) (WithCancel cid c)"
    "cell = length (w_cells w)" "length (w_cells w1) = Suc (length (w_cells w))"
    "wc_ctx (w_cells w1 ! cell) = wc"
    "w_sends w1 = w_sends w" "w_now w1 = w_now w" "w_paho w1 = w_paho w" "w_pl w1 = w_pl w"
    "w_cancelled w1 = w_cancelled w" "w_mgr w1 = w_mgr w" "w_next_act w1 = w_next_act w"
    "w_acts w1 = (w_acts w)(a := attempt_rec n (w_now w) (w_acts w a))"
    "waiters_ok w \<Longrightarrow> pending cell (CommandTarget i) (expectedPower pwr) w1"
proof -
  let ?w0 = "if n > 0 then count_retry a w else w"
  let ?w2 = "snd (new_ctx (upd_act a (\<lambda>x. x\<lparr> act_Attempts := n + 1, act_LastAttempt := Some (w_now ?w0) \<rparr>) ?w0))"
  let ?w3 = "add_cell wc (CommandTarget i) (expectedPower pwr) ?w2"
  have eqs: "i = info w" "cid = w_next_ctx w" "wc = WithDeadline (w_now w + timeout) (WithCancel cid c)"
    "cell = length (w_cells w)"
    and w1: "w1 = set_state a ActionStateWaitingConfirmation (waiter_ctx cell ?w3)"
    using assms by (auto simp: attempt_setup_def Let_def split_beta waitForPower_def GetInfo_def
        new_ctx_def count_retry_def upd_metrics_def)
  show "i = info w" "cid = w_next_ctx w" "wc = WithDeadline (w_now w + timeout) (WithCancel cid c)"
    "cell = length (w_cells w)" by (fact eqs)+
  have w2: "w_cells ?w2 = w_cells w" "w_disp ?w2 = w_disp w" "w_sends ?w2 = w_sends w" "w_now ?w2 = w_now w"
    "w_paho ?w2 = w_paho w" "w_pl ?w2 = w_pl w" "w_cancelled ?w2 = w_cancelled w" "w_mgr ?w2 = w_mgr w"
    "w_next_act ?w2 = w_next_act w"
    "w_acts ?w2 = (w_acts w)(a := (w_acts w a)\<lparr> act_Attempts := n + 1, act_LastAttempt := Some (w_now w) \<rparr>)"
    by (auto simp: new_ctx_def count_retry_def upd_metrics_def)
  show "length (w_cells w1) = Suc (length (w_cells w))" by (simp add: w1 set_state_def add_cell_simps w2)
  show "wc_ctx (w_cells w1 ! cell) = wc"
    by (simp add: w1 set_state_def waiter_ctx_keeps add_cell_simps w2 eqs(4))
  show "w_sends w1 = w_sends w" "w_now w1 = w_now w" "w_paho w1 = w_paho w" "w_pl w1 = w_pl w"
    "w_cancelled w1 = w_cancelled w" "w_mgr w1 = w_mgr w" "w_next_act w1 = w_next_act w"
    "w_acts w1 = (w_acts w)(a := attempt_rec n (w_now w) (w_acts w a))"
    by (simp_all add: w1 set_state_def add_cell_simps w2 attempt_rec_def)
  assume "waiters_ok w"
  then have "waiters_ok ?w2" by (simp add: waiters_ok_def w2)
  from pending_waiter_ctx [OF add_cell_pending [OF this]]
  have "pending cell (CommandTarget i) (expectedPower pwr) (waiter_ctx cell ?w3)"
    by (simp only: eqs(4) w2)
  then show "pending cell (CommandTarget i) (expectedPower pwr) w1"
    unfolding w1 by (rule pending_cong) (simp_all add: set_state_def)
qed

lemma cancel_ctx_done:
  assumes "i < length (w_cells w)" "wc_ctx (w_cells w ! i) = WithDeadline d (WithCancel cid c)"
  shows "wc_done (w_cells (cancel_ctx cid w) ! i)"
  unfolding cancel_ctx_def
  by (rule settle_done) (simp_all add: assms ctx_done_def ctx_err_def)

lemma attempt_onceE:
  assumes "attempt_once c a pwr timeout n w es = Some (res, w', es')"
  obtains cid wc w1 pub w2 es2 w3 where
    "attempt_setup c a pwr timeout n w = (info w, cid, wc, length (w_cells w), w1)"
    "send_loop external_step c wc (vi_BridgeName (info w)) (CommandTarget (info w)) pwr
      (nat (sendCount pwr (info w))) 0 False w1 es = Some (pub, w2, es2)"
    "w' = cancel_ctx cid w3"
    "\<not> pub \<and> res = Unpublished \<and> w3 = w2 \<and> es' = es2 \<or>
     pub \<and> block (\<lambda>w. cell_ch w (length (w_cells w1) - 1) \<noteq> None) (ctx_deadline wc) w2 es2 = Some (w3, es') \<and>
       (res = Confirmed \<longleftrightarrow> the (cell_ch w3 (length (w_cells w1) - 1)) = None) \<and>
       (\<forall>e. res = AttemptCtx e \<longrightarrow> ctx_err w' c = Some e) \<and> (res = TimedOut \<longrightarrow> ctx_err w' c = None) \<and>
       res \<noteq> Unpublished"
proof -
  obtain i cid wc cell w1 where set: "attempt_setup c a pwr timeout n w = (i, cid, wc, cell, w1)"
    by (cases "attempt_setup c a pwr timeout n w")
  note sp = attempt_setup_spec [OF set]
  from assms obtain pub w2 es2 where
    lp: "send_loop external_step c wc (vi_BridgeName i) (CommandTarget i) pwr
      (nat (sendCount pwr i)) 0 False w1 es = Some (pub, w2, es2)"
    and fin: "(if \<not> pub then Some (Unpublished, cancel_ctx cid w2, es2)
      else attempt_await c cid wc cell w2 es2) = Some (res, w', es')"
    by (auto simp: attempt_once_def set bind_eq_Some_conv)
  show thesis
  proof (cases pub)
    case False
    with fin lp set sp that show ?thesis by auto
  next
    case True
    with fin obtain w3 where
      "block (\<lambda>w. cell_ch w cell \<noteq> None) (ctx_deadline wc) w2 es2 = Some (w3, es')" "w' = cancel_ctx cid w3"
      "res = (if the (cell_ch w3 cell) = None then Confirmed
              else case ctx_err w' c of Some e \<Rightarrow> AttemptCtx e | None \<Rightarrow> TimedOut)"
      by (auto simp: attempt_await_def bind_eq_Some_conv Let_def)
    with True lp set sp(1,4,5) show ?thesis by (intro that) (auto split: if_splits option.splits)
  qed
qed

lemma attempt_once_spec:
  assumes "attempt_once c a pwr timeout n w es = Some (res, w', es')"
  shows "\<exists>xs. w_sends w' = w_sends w @ xs \<and> length xs = nat (sendCount pwr (info w)) \<and>
      commands (vi_BridgeName (info w)) (CommandTarget (info w)) pwr xs \<and> zs_time (hd xs) = w_now w"
    and "length (w_cells w') = Suc (length (w_cells w))" "wc_done (w_cells w' ! length (w_cells w))"
    and "w_paho w' = w_paho w" "w_now w \<le> w_now w'"
    and "a < w_next_act w \<Longrightarrow> w_acts w' a = attempt_rec n (w_now w) (w_acts w a)"
    and "res = AttemptCtx e \<Longrightarrow> ctx_err w' c = Some e"
proof -
  from assms obtain cid wc w1 pub w2 es2 w3 where
    set: "attempt_setup c a pwr timeout n w = (info w, cid, wc, length (w_cells w), w1)"
    and lp: "send_loop external_step c wc (vi_BridgeName (info w)) (CommandTarget (info w)) pwr
      (nat (sendCount pwr (info w))) 0 False w1 es = Some (pub, w2, es2)"
    and w': "w' = cancel_ctx cid w3"
    and fin: "\<not> pub \<and> res = Unpublished \<and> w3 = w2 \<and> es' = es2 \<or>
     pub \<and> block (\<lambda>w. cell_ch w (length (w_cells w1) - 1) \<noteq> None) (ctx_deadline wc) w2 es2 = Some (w3, es') \<and>
       (res = Confirmed \<longleftrightarrow> the (cell_ch w3 (length (w_cells w1) - 1)) = None) \<and>
       (\<forall>e. res = AttemptCtx e \<longrightarrow> ctx_err w' c = Some e) \<and> (res = TimedOut \<longrightarrow> ctx_err w' c = None) \<and>
       res \<noteq> Unpublished"
    by (rule attempt_onceE)
  note sp = attempt_setup_spec [OF set]
  note log = external.send_loop_log [OF lp]
  have w3: "w_sends w3 = w_sends w2" "length (w_cells w3) = length (w_cells w2)" "w_paho w3 = w_paho w2"
    "w_now w2 \<le> w_now w3"
    using fin external.wait_quiet by auto
  have st: "steps {} {False} w1 w3"
    using send_loop_steps [OF lp, of "{}" "{}"] fin block_steps [of _ _ w2 es2 w3 es' "{}" "{}"]
    by (auto intro: rtranclp_trans)
  have cnt: "nat (sendCount pwr (info w)) > 0" by (auto simp: sendCount_def close_count_def)
  show "\<exists>xs. w_sends w' = w_sends w @ xs \<and> length xs = nat (sendCount pwr (info w)) \<and>
      commands (vi_BridgeName (info w)) (CommandTarget (info w)) pwr xs \<and> zs_time (hd xs) = w_now w"
    using log w3 sp cnt by (auto simp: w')
  show "length (w_cells w') = Suc (length (w_cells w))" "w_paho w' = w_paho w" "w_now w \<le> w_now w'"
    using log w3 sp by (auto simp: w')
  have "cell_le (w_cells w1 ! length (w_cells w)) (w_cells w3 ! length (w_cells w))"
    using steps_le [OF st] sp(5) by (simp add: world_le_def)
  then have "wc_ctx (w_cells w3 ! length (w_cells w)) = WithDeadline (w_now w + timeout) (WithCancel cid c)"
    using sp(3,6) by (simp add: cell_le_def)
  then show "wc_done (w_cells w' ! length (w_cells w))"
    unfolding w' by (rule cancel_ctx_done [rotated]) (use log w3 sp in simp)
  show "w_acts w' a = attempt_rec n (w_now w) (w_acts w a)" if "a < w_next_act w"
    using steps_acts [OF st, of a] that sp by (simp add: w')
  show "ctx_err w' c = Some e" if "res = AttemptCtx e" using fin that by auto
qed

subsection \<open>A wait for a confirmation is always answered\<close>

definition settled_cell :: "nat \<Rightarrow> world \<Rightarrow> bool" where
  "settled_cell i w \<longleftrightarrow> i < length (w_cells w) \<and>
     (wc_done (w_cells w ! i) \<or> \<not> ctx_done w (wc_ctx (w_cells w ! i)))"

lemma settled_cell_le:
  "settled_cell i w \<Longrightarrow> world_le w w' \<Longrightarrow> w_now w' = w_now w \<Longrightarrow> w_cancelled w' = w_cancelled w \<Longrightarrow>
   settled_cell i w'"
  by (auto simp: settled_cell_def world_le_def cell_le_def ctx_done_def ctx_err_def)

lemma settled_cell_settle: "i < length (w_cells w) \<Longrightarrow> settled_cell i (settle w)"
  using settle_done [of i w] steps_le [OF settle_steps [of "{}" "{}" w]]
  by (auto simp: settled_cell_def world_le_def cell_le_def ctx_done_def ctx_err_def)

lemma settled_cell_cancel: "i < length (w_cells w) \<Longrightarrow> settled_cell i (cancel_ctx k w)"
  unfolding cancel_ctx_def by (rule settled_cell_settle) simp

lemma settled_cell_cong:
  "settled_cell i w \<Longrightarrow> w_cells w' = w_cells w \<Longrightarrow> w_now w' = w_now w \<Longrightarrow> w_cancelled w' = w_cancelled w \<Longrightarrow>
   settled_cell i w'"
  by (simp add: settled_cell_def ctx_done_def ctx_err_def)

lemma settled_cell_Enqueue: "settled_cell i w \<Longrightarrow> settled_cell i (Enqueue a w)"
proof -
  assume "settled_cell i w"
  then have "settled_cell i (case p_cancelFn (w_pl w) of
      Some c \<Rightarrow> if act_Type (w_acts w a) = ActionTypeClose then cancel_ctx c w else w | None \<Rightarrow> w)"
    by (auto intro: settled_cell_cancel simp: settled_cell_def [of i w] split: option.splits)
  then show ?thesis unfolding Enqueue_def Let_def by (rule settled_cell_cong) (simp_all add: upd_pl_def)
qed

lemma settled_cell_external:
  assumes "settled_cell i w"
  shows "settled_cell i (external_step e w)"
proof -
  have le: "world_le w (external_step e w)" by (rule steps_le [OF external_steps [of UNIV "{}"]]) simp
  consider (req) t d where "e = Request t d" | (stop) cid where "e = Stop cid"
    | (same) "w_cancelled (external_step e w) = w_cancelled w"
    by (cases e) (auto simp: pipeline_ops fold_dispatch_frame split: option.splits)
  then show ?thesis
  proof cases
    case req
    have "settled_cell i (snd (alloc_act (vi_Name (info w)) (vi_Namespace (info w)) t d w))"
      by (rule settled_cell_cong [OF assms]) (simp_all add: alloc_act_def Let_def)
    then show ?thesis by (auto simp: req request_def split_beta intro: settled_cell_Enqueue)
  next
    case (stop cid)
    then show ?thesis using assms settled_cell_cancel [of i w cid] by (simp add: settled_cell_def [of i w])
  next
    case same
    with assms le show ?thesis by (auto intro: settled_cell_le)
  qed
qed

interpretation answered: rely external_step "\<lambda>_. True" "settled_cell i" for i
proof (unfold_locales, goal_cases)
  case (1 w t)
  then show ?case unfolding advance_def by (intro settled_cell_settle) (simp add: settled_cell_def)
next
  case (2 w e) then show ?case by (intro settled_cell_external)
next
  case (3 w b d q pub)
  then show ?case by (simp add: settled_cell_def log_send_def ctx_done_def ctx_err_def)
qed

lemma attempt_setup_settled:
  assumes "attempt_setup c a pwr timeout n w = (i, cid, wc, cell, w1)"
  shows "settled_cell cell w1"
proof -
  obtain v where w1: "w1 = set_state a ActionStateWaitingConfirmation (waiter_ctx cell v)"
    and len: "cell < length (w_cells v)"
    using assms by (auto simp: attempt_setup_def Let_def split_beta waitForPower_def add_cell_simps
        new_ctx_def count_retry_def upd_metrics_def split: if_splits)
  have "settled_cell cell (waiter_ctx cell v)"
    using waiter_ctx_done [OF len] len waiter_ctx_keeps [of cell v cell]
    by (auto simp: settled_cell_def ctx_done_def ctx_err_def)
  then show ?thesis by (simp add: w1 settled_cell_def set_state_def ctx_done_def ctx_err_def)
qed

text \<open>
  After the wait the waiter's channel holds an answer, and a nil answer means that a sensor
  message with the commanded position of the target was consumed.
\<close>

lemma attempt_wait_answered:
  assumes set: "attempt_setup c a pwr timeout n w = (i, cid, wc, cell, w1)"
    and lp: "send_loop external_step c wc b dev pwr k 0 False w1 es = Some (pub, w2, es2)"
    and bl: "block (\<lambda>w. cell_ch w cell \<noteq> None) (ctx_deadline wc) w2 es2 = Some (w3, es3)"
    and ok: "waiters_ok w"
  shows "cell_ch w3 cell \<noteq> None"
    and "cell_ch w3 cell = Some None \<Longrightarrow>
      \<exists>pre. es = pre @ es3 \<and> (\<exists>x \<in> set pre. confirms (CommandTarget i) (expectedPower pwr) (snd x))"
proof -
  let ?p = "expectedPower pwr"
  note sp = attempt_setup_spec [OF set]
  have pend: "pending cell (CommandTarget i) ?p w1" by (rule sp(15) [OF ok])
  have st: "steps {} {False} w1 w3" using send_loop_steps [OF lp] block_steps [OF bl] by (meson rtranclp_trans)
  then have wok: "waiters_ok w3" using pend by (auto simp: pending_def intro: steps_waiters)
  have set3: "settled_cell cell w3"
    using answered.rely_chain [OF answered.send_loop_rely [OF lp] answered.wait_rely [OF bl], of cell]
      attempt_setup_settled [OF set] by (auto simp: list_all_iff)
  have wc: "wc_ctx (w_cells w3 ! cell) = wc"
    using steps_le [OF st] sp(4-6) by (simp add: world_le_def cell_le_def)
  show "cell_ch w3 cell \<noteq> None"
    using wait_post [OF bl] ctx_done_deadline [of wc w3] set3 wc wok
    by (auto simp: settled_cell_def waiters_ok_def cell_ch_def)
  assume nil: "cell_ch w3 cell = Some None"
  from unconfirmed.rely_chain [OF unconfirmed.send_loop_rely [OF lp] unconfirmed.wait_rely [OF bl]] pend
  obtain pre where pre: "es = pre @ es3"
    "list_all (\<lambda>x. \<not> confirms (CommandTarget i) ?p (snd x)) pre \<longrightarrow> pending cell (CommandTarget i) ?p w3"
    by blast
  from nil set3 have "\<not> pending cell (CommandTarget i) ?p w3"
    by (simp add: pending_def cell_ch_def settled_cell_def)
  with pre show "\<exists>pre. es = pre @ es3 \<and> (\<exists>x \<in> set pre. confirms (CommandTarget i) ?p (snd x))"
    by (auto simp: list_all_iff)
qed

lemma attempt_once_confirmed:
  assumes "attempt_once c a pwr timeout n w es = Some (Confirmed, w', es')" "waiters_ok w"
  shows "\<exists>pre. es = pre @ es' \<and> (\<exists>x \<in> set pre. confirms (CommandTarget (info w)) (expectedPower pwr) (snd x))"
  using assms(1)
proof (rule attempt_onceE, goal_cases)
  case (1 cid wc w1 pub w2 es2 w3)
  have cell: "length (w_cells w1) - 1 = length (w_cells w)" using attempt_setup_spec(5) [OF 1(1)] by simp
  with 1(4) have bl: "block (\<lambda>u. cell_ch u (length (w_cells w)) \<noteq> None) (ctx_deadline wc) w2 es2 = Some (w3, es')"
    and res: "the (cell_ch w3 (length (w_cells w))) = None" by auto
  from res attempt_wait_answered(1) [OF 1(1,2) bl assms(2)]
  have "cell_ch w3 (length (w_cells w)) = Some None" by auto
  from attempt_wait_answered(2) [OF 1(1,2) bl assms(2) this] show ?case .
qed

lemma attempt_once_suffix:
  assumes "attempt_once c a pwr timeout n w es = Some (res, w', es')"
  shows "\<exists>pre. es = pre @ es'"
  using assms
proof (rule attempt_onceE, goal_cases)
  case (1 cid wc w1 pub w2 es2 w3)
  from env_steps.send_loop_rely [OF 1(2)] 1(4) wait_suffix [of external_step _ _ w2 es2 w3 es']
  show ?case by (metis append_assoc)
qed

lemma attempt_once_time:
  assumes "attempt_once c a pwr timeout n w es = Some (res, w', es')" "ctx_deadline c = Some d"
  shows "w_now w' \<le> max (w_now w) d"
  using assms(1)
proof (rule attempt_onceE, goal_cases)
  case (1 cid wc w1 pub w2 es2 w3)
  note sp = attempt_setup_spec [OF 1(1)]
  have wc: "ctx_deadline wc = Some (min (w_now w + timeout) d)" by (simp add: sp(3) assms(2))
  have "w_now w2 \<le> max (w_now w) d"
    using external.send_loop_time [OF 1(2) assms(2) wc] by (simp add: sp(8))
  moreover have "w_now w3 \<le> max (w_now w2) (min (w_now w + timeout) d)"
    using 1(4) external.wait_until [of _ "min (w_now w + timeout) d" w2 es2 w3 es'] by (auto simp: wc)
  ultimately show ?case by (simp add: 1(3))
qed

lemma attempt_once_total:
  assumes "ctx_deadline c \<noteq> None \<or> (\<forall>n. w_paho w n \<noteq> PubNever)"
  shows "\<exists>r. attempt_once c a pwr timeout n w es = Some r"
proof -
  obtain i cid wc cell w1 where set: "attempt_setup c a pwr timeout n w = (i, cid, wc, cell, w1)"
    by (cases "attempt_setup c a pwr timeout n w")
  note sp = attempt_setup_spec [OF set]
  obtain pub w2 es2 where lp: "send_loop external_step c wc (vi_BridgeName i) (CommandTarget i) pwr
      (nat (sendCount pwr i)) 0 False w1 es = Some (pub, w2, es2)"
    using external.send_loop_total [of c w1] assms by (fastforce simp: sp(9))
  obtain dl where "ctx_deadline wc = Some dl" unfolding sp(3) by (cases "ctx_deadline c") auto
  with wait_total [of external_step "\<lambda>w. cell_ch w cell \<noteq> None" dl w2 es2] lp show ?thesis
    by (auto simp: attempt_once_def set attempt_await_def Let_def)
qed

subsection \<open>The retry loop\<close>

lemma attempt_loop_SucE:
  assumes "attempt_loop c a pwr rc timeout (Suc k) n w es = Some (err, w', es')"
  obtains (confirmed) w1 where "attempt_once c a pwr timeout n w es = Some (Confirmed, w1, es')"
      "err = None" "w' = applyDeviceState pwr w1"
  | (cancelled) e w1 where "attempt_once c a pwr timeout n w es = Some (AttemptCtx e, w1, es')"
      "err = Some (ContextError e)" "w' = set_state a ActionStateCancelled w1"
  | (again) res w1 es1 where "attempt_once c a pwr timeout n w es = Some (res, w1, es1)"
      "attempt_loop c a pwr rc timeout k (n + 1) w1 es1 = Some (err, w', es')"
proof -
  from assms obtain res w1 es1 where
    one: "attempt_once c a pwr timeout n w es = Some (res, w1, es1)"
    and rest: "(case res of
          Confirmed \<Rightarrow> Some (None, applyDeviceState pwr w1, es1)
        | AttemptCtx e \<Rightarrow> Some (Some (ContextError e), set_state a ActionStateCancelled w1, es1)
        | _ \<Rightarrow> attempt_loop c a pwr rc timeout k (n + 1) w1 es1) = Some (err, w', es')"
    by (auto simp: bind_eq_Some_conv simp del: split_paired_Ex)
  then show thesis by (cases res) (auto intro: confirmed cancelled again)
qed

lemma applyDeviceState_simps [simp]:
  "w_sends (applyDeviceState p w) = w_sends w" "w_cells (applyDeviceState p w) = w_cells w"
  "w_now (applyDeviceState p w) = w_now w" "w_paho (applyDeviceState p w) = w_paho w"
  "w_acts (applyDeviceState p w) = w_acts w" "w_next_act (applyDeviceState p w) = w_next_act w"
  "w_disp (applyDeviceState p w) = w_disp w" "w_cancelled (applyDeviceState p w) = w_cancelled w"
  "vi_State (info (applyDeviceState p w)) = (if p then ValveStateOpen else ValveStateClosed)"
  "p_current (w_pl (applyDeviceState p w)) = p_current (w_pl w)"
  "p_cancelFn (w_pl (applyDeviceState p w)) = p_cancelFn (w_pl w)"
  "p_history (w_pl (applyDeviceState p w)) = p_history (w_pl w)"
  "p_actionCh (w_pl (applyDeviceState p w)) = p_actionCh (w_pl w)"
  by (simp_all add: pipeline_ops apply_info_def)

lemma set_state_simps [simp]:
  "w_sends (set_state a s w) = w_sends w" "w_cells (set_state a s w) = w_cells w"
  "w_now (set_state a s w) = w_now w" "w_paho (set_state a s w) = w_paho w"
  "w_acts (set_state a s w) = (w_acts w)(a := (w_acts w a)\<lparr> act_State := s \<rparr>)"
  "w_next_act (set_state a s w) = w_next_act w" "w_pl (set_state a s w) = w_pl w"
  "w_disp (set_state a s w) = w_disp w" "w_cancelled (set_state a s w) = w_cancelled w"
  "w_next_ctx (set_state a s w) = w_next_ctx w" "w_writes (set_state a s w) = w_writes w"
  "w_mgr (set_state a s w) = w_mgr w"
  by (simp_all add: set_state_def)

definition cells_done_from :: "nat \<Rightarrow> world \<Rightarrow> bool" where
  "cells_done_from n w \<longleftrightarrow> (\<forall>i. n \<le> i \<longrightarrow> i < length (w_cells w) \<longrightarrow> wc_done (w_cells w ! i))"

lemma attempt_once_cells:
  assumes "attempt_once c a pwr timeout n w es = Some (res, w', es')" "cells_done_from m w"
  shows "cells_done_from m w'"
proof -
  have "steps {a} {False} w w'" using attempt_once_steps [OF _ assms(1), of "{a}" "{}"] by simp
  from steps_le [OF this] attempt_once_spec(2,3) [OF assms(1)] assms(2) show ?thesis
    by (auto simp: cells_done_from_def world_le_def cell_le_def less_Suc_eq)
qed

lemma attempt_loop_cells:
  "attempt_loop c a pwr rc timeout k n w es = Some (err, w', es') \<Longrightarrow> cells_done_from m w \<Longrightarrow>
   cells_done_from m w'"
proof (induction k arbitrary: n w es)
  case 0
  then show ?case by simp
next
  case (Suc k)
  from Suc.prems(1) show ?case
    by (cases rule: attempt_loop_SucE)
      (use Suc.IH attempt_once_cells Suc.prems(2) in \<open>auto simp: cells_done_from_def\<close>)
qed

lemma attempt_loop_total:
  "ctx_deadline c \<noteq> None \<or> (\<forall>n. w_paho w n \<noteq> PubNever) \<Longrightarrow>
   \<exists>r. attempt_loop c a pwr rc timeout k n w es = Some r"
proof (induction k arbitrary: n w es)
  case 0
  then show ?case by simp
next
  case (Suc k)
  obtain res w1 es1 where one: "attempt_once c a pwr timeout n w es = Some (res, w1, es1)"
    using attempt_once_total [OF Suc.prems, of a pwr timeout n es] by auto
  have "w_paho w1 = w_paho w" by (rule attempt_once_spec(4) [OF one])
  with Suc.IH [of w1 "n + 1" es1] Suc.prems show ?case
    by (cases res) (simp_all add: one)
qed

lemma attempt_loop_time:
  "attempt_loop c a pwr rc timeout k n w es = Some (err, w', es') \<Longrightarrow> ctx_deadline c = Some d \<Longrightarrow>
   w_now w' \<le> max (w_now w) d"
proof (induction k arbitrary: n w es)
  case 0
  then show ?case by simp
next
  case (Suc k)
  from Suc.prems(1) show ?case
  proof (cases rule: attempt_loop_SucE)
    case (again res w1 es1)
    from attempt_once_time [OF again(1) Suc.prems(2)] Suc.IH [OF again(2) Suc.prems(2)] show ?thesis by simp
  qed (use attempt_once_time [OF _ Suc.prems(2)] in auto)
qed

definition sent :: "bool \<Rightarrow> world \<Rightarrow> world \<Rightarrow> zbsend_call list \<Rightarrow> bool" where
  "sent pwr w w' xs \<longleftrightarrow> w_sends w' = w_sends w @ xs \<and> list_all (\<lambda>x. zs_power x = pwr) xs"

text \<open>Some consumed event confirms the position for the target of one of the commands.\<close>

definition confirmed_by :: "bool \<Rightarrow> zbsend_call list \<Rightarrow> external timeline \<Rightarrow> bool" where
  "confirmed_by pwr xs pre \<longleftrightarrow> (\<exists>x \<in> set xs. \<exists>y \<in> set pre. confirms (zs_target x) (expectedPower pwr) (snd y))"

lemma confirmed_by_append:
  "confirmed_by p xs pre \<Longrightarrow> confirmed_by p (us @ xs @ vs) (qs @ pre @ rs)"
  by (auto simp: confirmed_by_def)

lemma attempt_once_sent:
  assumes "attempt_once c a pwr timeout n w es = Some (res, w1, es1)"
  shows "\<exists>xs pre. sent pwr w w1 xs \<and> xs \<noteq> [] \<and> zs_time (hd xs) = w_now w \<and> es = pre @ es1 \<and>
    (res = Confirmed \<longrightarrow> waiters_ok w \<longrightarrow> confirmed_by pwr xs pre)"
proof -
  from attempt_once_spec(1) [OF assms] obtain xs where xs: "w_sends w1 = w_sends w @ xs"
    "length xs = nat (sendCount pwr (info w))" "commands (vi_BridgeName (info w)) (CommandTarget (info w)) pwr xs"
    "zs_time (hd xs) = w_now w" by blast
  then have ne: "xs \<noteq> []" by (auto simp: sendCount_def close_count_def split: if_splits)
  with xs(3) have tgt: "CommandTarget (info w) = zs_target (hd xs)" "hd xs \<in> set xs"
    by (auto simp: commands_def list_all_iff)
  obtain pre where pre: "es = pre @ es1" using attempt_once_suffix [OF assms] by blast
  have "res = Confirmed \<longrightarrow> waiters_ok w \<longrightarrow> confirmed_by pwr xs pre"
    using attempt_once_confirmed [of c a pwr timeout n w es w1 es1] assms pre tgt
    by (auto simp: confirmed_by_def)
  with xs ne pre show ?thesis by (intro exI [of _ xs] exI [of _ pre]) (auto simp: sent_def commands_def list_all_iff)
qed

lemma attempt_loop_sent:
  "attempt_loop c a pwr rc timeout k n w es = Some (err, w', es') \<Longrightarrow> waiters_ok w \<Longrightarrow>
   \<exists>xs pre. sent pwr w w' xs \<and> (k > 0 \<longrightarrow> xs \<noteq> [] \<and> zs_time (hd xs) = w_now w) \<and> es = pre @ es' \<and>
     (err = None \<longrightarrow> confirmed_by pwr xs pre)"
proof (induction k arbitrary: n w es)
  case 0
  then show ?case by (auto simp: sent_def)
next
  case (Suc k)
  from Suc.prems(1) show ?case
  proof (cases rule: attempt_loop_SucE)
    case (confirmed w1)
    from attempt_once_sent [OF confirmed(1)] Suc.prems(2) confirmed show ?thesis by (auto simp: sent_def)
  next
    case (cancelled e w1)
    from attempt_once_sent [OF cancelled(1)] cancelled show ?thesis by (auto simp: sent_def)
  next
    case (again res w1 es1)
    from attempt_once_sent [OF again(1)] obtain xs pre where one: "sent pwr w w1 xs" "xs \<noteq> []"
      "zs_time (hd xs) = w_now w" "es = pre @ es1" by blast
    have "waiters_ok w1"
      using steps_waiters attempt_once_steps [OF _ again(1), of "{a}" "{}"] Suc.prems(2) by blast
    from Suc.IH [OF again(2) this] obtain ys pre' where rest: "sent pwr w1 w' ys" "es1 = pre' @ es'"
      "err = None \<longrightarrow> confirmed_by pwr ys pre'" by blast
    then have "err = None \<longrightarrow> confirmed_by pwr (xs @ ys) (pre @ pre')"
      using confirmed_by_append [of pwr ys pre' xs "[]" pre "[]"] by simp
    with one rest show ?thesis
      by (intro exI [of _ "xs @ ys"] exI [of _ "pre @ pre'"]) (simp add: sent_def)
  qed
qed

text \<open>What the loop leaves in the action: its counters and its state.\<close>

definition same_but_attempts :: "Action \<Rightarrow> Action \<Rightarrow> bool" where
  "same_but_attempts x y \<longleftrightarrow> y = x\<lparr> act_Attempts := act_Attempts y, act_LastAttempt := act_LastAttempt y,
     act_State := act_State y \<rparr>"

lemma same_but_attempts_rec: "same_but_attempts (attempt_rec n t x) y \<Longrightarrow> same_but_attempts x y"
  by (cases x; cases y) (simp add: same_but_attempts_def attempt_rec_def)

lemma attempt_loop_act:
  "attempt_loop c a pwr rc timeout k n w es = Some (err, w', es') \<Longrightarrow> a < w_next_act w \<Longrightarrow>
   same_but_attempts (w_acts w a) (w_acts w' a) \<and>
   (k > 0 \<longrightarrow> n + 1 \<le> act_Attempts (w_acts w' a) \<and> act_Attempts (w_acts w' a) \<le> n + int k) \<and>
   (k = 0 \<longrightarrow> act_Attempts (w_acts w' a) = act_Attempts (w_acts w a)) \<and>
   (case err of
      None \<Rightarrow> vi_State (info w') = (if pwr then ValveStateOpen else ValveStateClosed)
    | Some (ContextError e) \<Rightarrow> act_State (w_acts w' a) = ActionStateCancelled \<and> ctx_err w' c = Some e
    | Some e \<Rightarrow> e = NoConfirmation rc \<and>
        act_State (w_acts w' a) \<in> {act_State (w_acts w a), ActionStateWaitingConfirmation})"
proof (induction k arbitrary: n w es)
  case 0
  then show ?case by (auto simp: same_but_attempts_def)
next
  case (Suc k)
  from Suc.prems(1) show ?case
  proof (cases rule: attempt_loop_SucE)
    case (confirmed w1)
    from attempt_once_spec(6) [OF confirmed(1) Suc.prems(2)] confirmed show ?thesis
      by (simp add: attempt_rec_def same_but_attempts_def)
  next
    case (cancelled e w1)
    from attempt_once_spec(6) [OF cancelled(1) Suc.prems(2)] attempt_once_spec(7) [OF cancelled(1) refl] cancelled
    show ?thesis by (simp add: attempt_rec_def same_but_attempts_def ctx_err_def)
  next
    case (again res w1 es1)
    have "a < w_next_act w1"
      using steps_le [OF attempt_once_steps [OF _ again(1), of "{a}" "{}"]] Suc.prems(2) by (simp add: world_le_def)
    from Suc.IH [OF again(2) this] attempt_once_spec(6) [OF again(1) Suc.prems(2)]
    show ?thesis
      by (auto simp: attempt_rec_def dest: same_but_attempts_rec [unfolded attempt_rec_def]
          split: option.splits action_error.splits)
  qed
qed

subsection \<open>The whole of \<open>attemptWithRetry\<close>\<close>

lemma attemptWithRetry_spec:
  assumes "attemptWithRetry c a pwr rc timeout w es = Some (err, w', es')" "waiters_ok w" "a < w_next_act w"
  shows "\<exists>xs pre. sent pwr w w' xs \<and> (rc > 0 \<longrightarrow> xs \<noteq> [] \<and> zs_time (hd xs) = w_now w) \<and> es = pre @ es' \<and>
      (err = None \<longrightarrow> confirmed_by pwr xs pre)"
    and "same_but_attempts (w_acts w a) (w_acts w' a)"
    and "rc > 0 \<Longrightarrow> 1 \<le> act_Attempts (w_acts w' a) \<and> act_Attempts (w_acts w' a) \<le> rc"
    and "case err of
      None \<Rightarrow> vi_State (info w') = (if pwr then ValveStateOpen else ValveStateClosed)
    | Some (ContextError e) \<Rightarrow> act_State (w_acts w' a) = ActionStateCancelled \<and> ctx_err w' c = Some e
    | Some e \<Rightarrow> e = NoConfirmation rc \<and>
        act_State (w_acts w' a) \<in> {ActionStateSending, ActionStateWaitingConfirmation}"
    and "cells_done_from (length (w_cells w)) w'"
    and "waiters_ok w'"
proof -
  let ?w = "set_state a ActionStateSending w"
  from assms(1) have lp: "attempt_loop c a pwr rc timeout (nat rc) 0 ?w es = Some (err, w', es')"
    by (simp add: attemptWithRetry_def)
  have ok: "waiters_ok ?w" "a < w_next_act ?w" using assms(2,3) by (simp_all add: waiters_ok_def)
  note act = attempt_loop_act [OF lp ok(2)]
  show "\<exists>xs pre. sent pwr w w' xs \<and> (rc > 0 \<longrightarrow> xs \<noteq> [] \<and> zs_time (hd xs) = w_now w) \<and> es = pre @ es' \<and>
      (err = None \<longrightarrow> confirmed_by pwr xs pre)"
    using attempt_loop_sent [OF lp ok(1)] by (simp add: sent_def)
  show "same_but_attempts (w_acts w a) (w_acts w' a)"
    using act by (cases "w_acts w a"; cases "w_acts w' a") (simp add: same_but_attempts_def)
  show "rc > 0 \<Longrightarrow> 1 \<le> act_Attempts (w_acts w' a) \<and> act_Attempts (w_acts w' a) \<le> rc" using act by auto
  show "case err of
      None \<Rightarrow> vi_State (info w') = (if pwr then ValveStateOpen else ValveStateClosed)
    | Some (ContextError e) \<Rightarrow> act_State (w_acts w' a) = ActionStateCancelled \<and> ctx_err w' c = Some e
    | Some e \<Rightarrow> e = NoConfirmation rc \<and>
        act_State (w_acts w' a) \<in> {ActionStateSending, ActionStateWaitingConfirmation}"
    using act by (auto split: option.splits action_error.splits)
  show "cells_done_from (length (w_cells w)) w'"
    by (rule attempt_loop_cells [OF lp]) (simp add: cells_done_from_def)
  have "steps {a} (insert False {pwr}) w w'" by (rule attemptWithRetry_steps [OF _ _ assms(1)]) simp_all
  then show "waiters_ok w'" using assms(2) by (rule steps_waiters)
qed

lemma attemptWithRetry_time:
  "attemptWithRetry c a pwr rc timeout w es = Some (err, w', es') \<Longrightarrow> ctx_deadline c = Some d \<Longrightarrow>
   w_now w' \<le> max (w_now w) d"
  unfolding attemptWithRetry_def by (drule (1) attempt_loop_time) simp

lemma attemptWithRetry_total:
  "ctx_deadline c \<noteq> None \<or> (\<forall>n. w_paho w n \<noteq> PubNever) \<Longrightarrow>
   \<exists>r. attemptWithRetry c a pwr rc timeout w es = Some r"
  unfolding attemptWithRetry_def by (rule attempt_loop_total) simp

end
