(* ===== verification/Executions.thy ===== *)
theory Executions
  imports Attempts
begin

text \<open>
  Executing one action: what \<open>execute\<close> guarantees on every path, whatever the rest of the
  program does meanwhile.
\<close>

subsection \<open>The parts of an execution\<close>

lemma exec_start_simps [simp]:
  "w_acts (exec_start a w) = (w_acts w)(a := upgrade_open (config w) (w_acts w a))"
  "w_now (exec_start a w) = w_now w" "w_sends (exec_start a w) = w_sends w"
  "w_next_act (exec_start a w) = w_next_act w" "w_paho (exec_start a w) = w_paho w"
  "w_cells (exec_start a w) = w_cells w" "w_disp (exec_start a w) = w_disp w"
  "w_cancelled (exec_start a w) = w_cancelled w" "w_next_ctx (exec_start a w) = Suc (w_next_ctx w)"
  "p_current (w_pl (exec_start a w)) = Some a" "p_cancelFn (w_pl (exec_start a w)) = Some (w_next_ctx w)"
  "info (exec_start a w) = info w"
  by (simp_all add: exec_start_def exec_begin_def new_ctx_def upd_pl_def upd_act_def)

lemma waiters_exec_start [simp]: "waiters_ok (exec_start a w) = waiters_ok w"
  by (simp add: waiters_ok_def)

lemma updateActionID_simps [simp]:
  "w_acts (updateActionID x w) = w_acts w" "w_now (updateActionID x w) = w_now w"
  "w_sends (updateActionID x w) = w_sends w" "w_next_act (updateActionID x w) = w_next_act w"
  "w_cells (updateActionID x w) = w_cells w" "w_disp (updateActionID x w) = w_disp w"
  "w_cancelled (updateActionID x w) = w_cancelled w" "w_paho (updateActionID x w) = w_paho w"
  "vi_State (info (updateActionID x w)) = vi_State (info w)"
  "p_current (w_pl (updateActionID x w)) = p_current (w_pl w)"
  "p_history (w_pl (updateActionID x w)) = p_history (w_pl w)"
  "p_cancelFn (w_pl (updateActionID x w)) = p_cancelFn (w_pl w)"
  "vi_CurrentActionID (info (updateActionID x w)) = x"
  by (simp_all add: updateActionID_def pipeline_ops)

lemma exec_fulfilled_simps [simp]:
  "w_acts (exec_fulfilled a pwr w) = (w_acts w)(a := (w_acts w a)\<lparr> act_FulfilledAt := Some (w_now w),
     act_State := ActionStateFulfilled \<rparr>)"
  "w_now (exec_fulfilled a pwr w) = w_now w" "w_sends (exec_fulfilled a pwr w) = w_sends w"
  "w_next_act (exec_fulfilled a pwr w) = w_next_act w" "w_paho (exec_fulfilled a pwr w) = w_paho w"
  "w_cells (exec_fulfilled a pwr w) = w_cells w" "w_disp (exec_fulfilled a pwr w) = w_disp w"
  "w_cancelled (exec_fulfilled a pwr w) = w_cancelled w" "w_pl (exec_fulfilled a pwr w) = w_pl w"
  by (simp_all add: exec_fulfilled_def spawn_check_def observe_duration_def count_action_def upd_metrics_def Let_def)

lemma markCloseUnconfirmed_simps [simp]:
  "w_acts (markCloseUnconfirmed w) = w_acts w" "w_now (markCloseUnconfirmed w) = w_now w"
  "w_sends (markCloseUnconfirmed w) = w_sends w" "w_cells (markCloseUnconfirmed w) = w_cells w"
  "w_next_act (markCloseUnconfirmed w) = w_next_act w"
  "vi_State (info (markCloseUnconfirmed w)) =
     (if vi_State (info w) = ValveStateClosed then ValveStateUnknown else vi_State (info w))"
  "p_history (w_pl (markCloseUnconfirmed w)) = p_history (w_pl w)"
  by (simp_all add: markCloseUnconfirmed_def pipeline_ops)

lemma markCloseUnconfirmed_not_closed: "vi_State (info (markCloseUnconfirmed w)) \<noteq> ValveStateClosed"
  by (simp add: valve_states_distinct)

lemma exec_failed_simps [simp]:
  "w_acts (exec_failed a pwr e w) = (w_acts w)(a :=
     if act_State (w_acts w a) = ActionStateCancelled then w_acts w a
     else (w_acts w a)\<lparr> act_State := ActionStateFailed, act_FailedAt := Some (w_now w), act_ErrorMessage := e \<rparr>)"
  "w_now (exec_failed a pwr e w) = w_now w" "w_sends (exec_failed a pwr e w) = w_sends w"
  "w_cells (exec_failed a pwr e w) = w_cells w"
  by (simp_all add: exec_failed_def count_action_def upd_metrics_def Let_def)

lemma exec_closed_simps [simp]:
  "w_acts (exec_closed a None w) = (w_acts w)(a := (w_acts w a)\<lparr> act_ClosedAt := Some (w_now w),
     act_State := ActionStateFulfilled \<rparr>)"
  "w_acts (exec_closed a (Some e) w) = (w_acts w)(a := (w_acts w a)\<lparr> act_ClosedAt := Some (w_now w),
     act_State := ActionStateFailed, act_FailedAt := Some (w_now w), act_ErrorMessage := CloseNotConfirmed e \<rparr>)"
  "w_now (exec_closed a err w) = w_now w" "w_sends (exec_closed a err w) = w_sends w"
  "w_cells (exec_closed a err w) = w_cells w"
  "vi_State (info (exec_closed a None w)) = vi_State (info w)"
  by (cases err; simp add: exec_closed_def spawn_check_def count_action_def upd_metrics_def Let_def)+

lemma exec_closed_failed: "vi_State (info (exec_closed a (Some e) w)) \<noteq> ValveStateClosed"
  by (simp add: exec_closed_def Let_def markCloseUnconfirmed_not_closed)

lemma exec_finish_simps [simp]:
  "w_acts (exec_finish i a w) = w_acts w" "w_now (exec_finish i a w) = w_now w"
  "w_sends (exec_finish i a w) = w_sends w" "w_next_act (exec_finish i a w) = w_next_act w"
  "length (w_cells (exec_finish i a w)) = length (w_cells w)"
  "info (exec_finish i a w) = info w"
  "p_current (w_pl (exec_finish i a w)) = None" "p_cancelFn (w_pl (exec_finish i a w)) = None"
  "p_history (w_pl (exec_finish i a w)) = (if IsInternalSafetyPing (w_acts w a) then p_history (w_pl w)
     else history_put a (p_history (w_pl w)))"
  by (simp_all add: exec_finish_def Let_def upd_pl_def addToHistory_def)

subsection \<open>Holding the valve open\<close>

definition held :: "Action \<Rightarrow> time \<Rightarrow> Action" where
  "held x t = x\<lparr> act_ExpiresAt := Some (t + act_Duration x), act_State := ActionStateClosing \<rparr>"

lemma exec_holdE:
  assumes "exec_hold c a w es = Some (w3, es3)"
  obtains v dl where "block (\<lambda>w. ctx_done w c) (Some dl) v es = Some (w3, es3)"
    "dl = (case ctx_deadline c of None \<Rightarrow> w_now w + act_Duration (w_acts w a)
           | Some d \<Rightarrow> min (w_now w + act_Duration (w_acts w a)) d)"
    "steps {a} {} w v" "w_acts v = (w_acts w)(a := held (w_acts w a) (w_now w))" "w_now v = w_now w"
    "w_sends v = w_sends w" "w_cells v = w_cells w" "w_next_act v = w_next_act w"
proof -
  let ?u = "upd_act a (\<lambda>x. x\<lparr> act_ExpiresAt := Some (w_now w + act_Duration x),
               act_State := ActionStateClosing \<rparr>) w"
  let ?v = "updateActionID (act_ID (w_acts ?u a)) ?u"
  have 1: "steps {a} {} w ?u" by (rule step1 [OF atomic.act]) (simp_all add: act_static_def)
  have 2: "steps {a} {} ?u ?v" by (rule updateActionID_steps)
  from rtranclp_trans [OF 1 2] assms show thesis
    by (intro that [of _ ?v]) (auto simp: exec_hold_def Let_def held_def split: option.splits)
qed

lemma exec_hold_spec:
  assumes "exec_hold c a w es = Some (w3, es3)" "a < w_next_act w" "waiters_ok w"
  shows "w_acts w3 a = held (w_acts w a) (w_now w)" "w_sends w3 = w_sends w"
    "length (w_cells w3) = length (w_cells w)" "waiters_ok w3" "world_le w w3"
    "w_now w3 \<le> max (w_now w) (w_now w + act_Duration (w_acts w a))"
    "ctx_done w3 c \<or> w_now w + act_Duration (w_acts w a) \<le> w_now w3"
    "\<exists>pre. es = pre @ es3"
proof -
  from assms(1) obtain v dl where v: "block (\<lambda>w. ctx_done w c) (Some dl) v es = Some (w3, es3)"
    "dl = (case ctx_deadline c of None \<Rightarrow> w_now w + act_Duration (w_acts w a)
           | Some d \<Rightarrow> min (w_now w + act_Duration (w_acts w a)) d)"
    "steps {a} {} w v" "w_acts v = (w_acts w)(a := held (w_acts w a) (w_now w))" "w_now v = w_now w"
    "w_sends v = w_sends w" "w_cells v = w_cells w" "w_next_act v = w_next_act w"
    by (rule exec_holdE)
  have st: "steps {} {False} v w3" by (rule block_steps [OF v(1)])
  show "w_acts w3 a = held (w_acts w a) (w_now w)" using steps_acts [OF st, of a] v(4,8) assms(2) by simp
  show "w_sends w3 = w_sends w" "length (w_cells w3) = length (w_cells w)"
    using external.wait_quiet [OF v(1)] v by simp_all
  show "waiters_ok w3" using steps_waiters [OF st steps_waiters [OF v(3) assms(3)]] .
  show "world_le w w3" using world_le_trans [OF steps_le [OF v(3)] steps_le [OF st]] .
  show "w_now w3 \<le> max (w_now w) (w_now w + act_Duration (w_acts w a))"
    using external.wait_until [OF v(1)] v(2,5) by (auto split: option.splits)
  show "ctx_done w3 c \<or> w_now w + act_Duration (w_acts w a) \<le> w_now w3"
    using wait_post [OF v(1)] v(2) ctx_done_deadline [of c w3]
    by (auto simp: reached_def min_def split: option.splits if_splits)
  show "\<exists>pre. es = pre @ es3" by (rule wait_suffix [OF v(1)])
qed

lemma exec_hold_total: "\<exists>r. exec_hold c a w es = Some r"
  unfolding exec_hold_def Let_def by (cases "ctx_deadline c") (simp_all add: wait_total del: split_paired_Ex)

subsection \<open>Closing at the end of a timed open\<close>

lemma exec_closeE:
  assumes "exec_close a cfg w es = Some (w4, es4)" "waiters_ok w" "a < w_next_act w"
  obtains v c r err w2 where
    "attemptWithRetry c r False (RetryCount cfg) (CommandTimeout cfg) v es = Some (err, w2, es4)"
    "w4 = exec_closed a err (cancel_ctx (w_next_ctx w) w2)" "ctx_deadline c = Some (w_now w + 2 * Minute)"
    "waiters_ok v" "r < w_next_act v" "r = w_next_act w" "w_now v = w_now w" "w_sends v = w_sends w"
    "w_cells v = w_cells w" "a < w_next_act v" "w_acts v a = w_acts w a"
proof -
  let ?w1 = "snd (new_ctx w)"
  let ?al = "alloc_act (act_ValveName (w_acts w a)) (act_Namespace (w_acts w a)) ActionTypeClose 0 ?w1"
  let ?c = "WithDeadline (w_now w + 2 * Minute) (WithCancel (w_next_ctx w) Background)"
  from assms(1) obtain err w2 where
    att: "attemptWithRetry ?c (fst ?al) False (RetryCount cfg) (CommandTimeout cfg) (snd ?al) es = Some (err, w2, es4)"
    and w4: "w4 = exec_closed a err (cancel_ctx (w_next_ctx w) w2)"
    by (auto simp: exec_close_def new_ctx_def Let_def split_beta bind_eq_Some_conv)
  have "waiters_ok (snd ?al)" using assms(2) by (simp add: waiters_ok_def alloc_act_def new_ctx_def Let_def)
  with att w4 assms(3) show thesis
    by (intro that [of ?c "fst ?al" "snd ?al" err w2]) (auto simp: alloc_act_def new_ctx_def Let_def)
qed

lemma exec_close_spec:
  assumes "exec_close a cfg w es = Some (w4, es4)" "waiters_ok w" "a < w_next_act w"
  obtains (closed) xs pre where "sent False w w4 xs" "RetryCount cfg > 0 \<longrightarrow> xs \<noteq> [] \<and> zs_time (hd xs) = w_now w"
      "es = pre @ es4" "w_now w4 \<le> w_now w + 2 * Minute" "confirmed_by False xs pre"
      "vi_State (info w4) = ValveStateClosed"
      "w_acts w4 a = (w_acts w a)\<lparr> act_ClosedAt := Some (w_now w4), act_State := ActionStateFulfilled \<rparr>"
  | (failed) xs pre e where "sent False w w4 xs" "RetryCount cfg > 0 \<longrightarrow> xs \<noteq> [] \<and> zs_time (hd xs) = w_now w"
      "es = pre @ es4" "w_now w4 \<le> w_now w + 2 * Minute"
      "vi_State (info w4) \<noteq> ValveStateClosed"
      "w_acts w4 a = (w_acts w a)\<lparr> act_ClosedAt := Some (w_now w4), act_State := ActionStateFailed,
         act_FailedAt := Some (w_now w4), act_ErrorMessage := CloseNotConfirmed e \<rparr>"
proof -
  from assms obtain v c r err w2 where
    att: "attemptWithRetry c r False (RetryCount cfg) (CommandTimeout cfg) v es = Some (err, w2, es4)"
    and w4: "w4 = exec_closed a err (cancel_ctx (w_next_ctx w) w2)"
    and v: "ctx_deadline c = Some (w_now w + 2 * Minute)"
    "waiters_ok v" "r < w_next_act v" "r = w_next_act w" "w_now v = w_now w" "w_sends v = w_sends w"
    "w_cells v = w_cells w" "a < w_next_act v" "w_acts v a = w_acts w a" by (rule exec_closeE)
  note sp = attemptWithRetry_spec [OF att v(2,3)]
  from sp(1) obtain xs pre where xs: "sent False v w2 xs"
    "RetryCount cfg > 0 \<longrightarrow> xs \<noteq> [] \<and> zs_time (hd xs) = w_now v" "es = pre @ es4"
    "err = None \<longrightarrow> confirmed_by False xs pre" by blast
  have "steps {r} {False} v w2" by (rule attemptWithRetry_steps [OF _ _ att, of _ "{}"]) simp_all
  then have act: "w_acts w2 a = w_acts w a" using steps_acts [of "{r}" "{False}" v w2 a] v assms(3) by simp
  have now: "w_now w2 \<le> w_now w + 2 * Minute"
    using attemptWithRetry_time [OF att v(1)] by (simp add: v(5) Minute_def Second_def)
  show thesis
  proof (cases err)
    case None
    with xs now act sp(4) show ?thesis by (intro closed [of xs pre]) (auto simp: w4 sent_def v)
  next
    case (Some e)
    with xs now act show ?thesis by (intro failed [of xs pre e]) (auto simp: w4 sent_def v exec_closed_failed)
  qed
qed

lemma exec_close_total: "\<exists>r. exec_close a cfg w es = Some r"
proof -
  let ?w1 = "snd (new_ctx w)"
  let ?al = "alloc_act (act_ValveName (w_acts w a)) (act_Namespace (w_acts w a)) ActionTypeClose 0 ?w1"
  let ?c = "WithDeadline (w_now w + 2 * Minute) (WithCancel (w_next_ctx w) Background)"
  have "\<exists>r. attemptWithRetry ?c (fst ?al) False (RetryCount cfg) (CommandTimeout cfg) (snd ?al) es = Some r"
    by (rule attemptWithRetry_total) simp
  then show ?thesis by (auto simp: exec_close_def new_ctx_def Let_def split_beta)
qed

subsection \<open>The outcomes of an execution\<close>

text \<open>The action as it executes: an indefinite open is timed when a maximal duration is set.\<close>

definition effective :: "actref \<Rightarrow> world \<Rightarrow> Action" where
  "effective a w = upgrade_open (config w) (w_acts w a)"

lemma opens_effective [simp]: "opens (act_Type (effective a w)) = opens (act_Type (w_acts w a))"
  by (simp add: effective_def)

lemma same_but_attempts_simps:
  "same_but_attempts x y \<Longrightarrow> act_Type y = act_Type x \<and> act_Duration y = act_Duration x \<and>
     act_FulfilledAt y = act_FulfilledAt x \<and> act_static y = act_static x"
  by (cases x; cases y) (simp add: same_but_attempts_def act_static_def)

lemma execute_attempt:
  assumes "attemptWithRetry (WithCancel i c) a pwr rc ct (exec_start a w) es = Some (err, w2, es2)"
    "waiters_ok w" "a < w_next_act w"
  obtains xs pre where "w_sends w2 = w_sends w @ xs" "list_all (\<lambda>x. zs_power x = pwr) xs"
    "es = pre @ es2" "err = None \<longrightarrow> confirmed_by pwr xs pre"
    "same_but_attempts (effective a w) (w_acts w2 a)" "a < w_next_act w2" "waiters_ok w2"
    "cells_done_from (length (w_cells w)) w2" "w_now w \<le> w_now w2"
proof -
  have ok: "waiters_ok (exec_start a w)" "a < w_next_act (exec_start a w)" using assms(2,3) by simp_all
  note sp = attemptWithRetry_spec [OF assms(1) ok]
  have st: "steps {a} (insert False {pwr}) (exec_start a w) w2" by (rule attemptWithRetry_steps [OF _ _ assms(1)]) simp_all
  from steps_le [OF st] sp assms(3) show thesis
    by (auto simp: sent_def effective_def world_le_def intro!: that)
qed

lemma execute_outcomes:
  assumes "execute c a w es = Some (w', es')" "waiters_ok w" "a < w_next_act w"
  obtains
    (rejected) "Disabled (config w)" "opens (act_Type (w_acts w a))" "w_sends w' = w_sends w" "es' = es"
      "w_acts w' a = (effective a w)\<lparr> act_State := ActionStateCancelled \<rparr>"
  | (failed) xs pre where "w_sends w' = w_sends w @ xs" "list_all (\<lambda>x. zs_power x = opens (act_Type (w_acts w a))) xs"
      "es = pre @ es'" "act_State (w_acts w' a) \<in> {ActionStateCancelled, ActionStateFailed}"
      "act_static (w_acts w' a) = act_static (effective a w)"
      "act_FulfilledAt (w_acts w' a) = act_FulfilledAt (w_acts w a)"
      "act_State (w_acts w' a) = ActionStateFailed \<longrightarrow> \<not> opens (act_Type (w_acts w a)) \<longrightarrow>
         vi_State (info w') \<noteq> ValveStateClosed"
  | (plain) xs pre where "w_sends w' = w_sends w @ xs" "list_all (\<lambda>x. zs_power x = opens (act_Type (w_acts w a))) xs"
      "es = pre @ es'" "act_State (w_acts w' a) = ActionStateFulfilled"
      "act_static (w_acts w' a) = act_static (effective a w)" "act_Type (effective a w) \<noteq> ActionTypeOpenTimed"
      "confirmed_by (opens (act_Type (w_acts w a))) xs pre"
      "vi_State (info w') = (if opens (act_Type (w_acts w a)) then ValveStateOpen else ValveStateClosed)"
  | (timed) xs pre w2 es2 w3 es3 w4 where
      "w_sends w2 = w_sends w @ xs" "list_all zs_power xs" "es = pre @ es2" "confirmed_by True xs pre"
      "act_Type (effective a w) = ActionTypeOpenTimed" "same_but_attempts (effective a w) (w_acts w2 a)"
      "exec_hold (WithCancel (w_next_ctx w) c) a (exec_fulfilled a True w2) es2 = Some (w3, es3)"
      "exec_close a (config w) w3 es3 = Some (w4, es')" "w_now w \<le> w_now w2"
      "a < w_next_act w2" "waiters_ok (exec_fulfilled a True w2)" "a < w_next_act w3" "waiters_ok w3"
      "w_acts w' = w_acts w4" "w_sends w' = w_sends w4" "vi_State (info w') = vi_State (info w4)" "w_now w' = w_now w4"
  using assms(1)
proof (cases rule: execute_cases)
  case rejected
  with that(1) show ?thesis by (simp add: effective_def addToHistory_def upd_pl_def)
next
  case (failed e w2)
  from failed(2) assms(2,3) obtain xs pre where at: "w_sends w2 = w_sends w @ xs"
    "list_all (\<lambda>x. zs_power x = opens (act_Type (w_acts w a))) xs" "es = pre @ es'"
    "same_but_attempts (effective a w) (w_acts w2 a)" by (rule execute_attempt)
  note same = same_but_attempts_simps [OF at(4)]
  have "vi_State (info w') \<noteq> ValveStateClosed"
    if "act_State (w_acts w' a) = ActionStateFailed" "\<not> opens (act_Type (w_acts w a))"
    using that markCloseUnconfirmed_not_closed by (auto simp: failed(3) exec_failed_def Let_def split: if_splits)
  with at(1-3) same that(2) show ?thesis
    by (auto simp: failed(3) effective_def upgrade_open_def act_static_def)
next
  case (plain w2)
  from plain(2) assms(2,3) obtain xs pre where at: "w_sends w2 = w_sends w @ xs"
    "list_all (\<lambda>x. zs_power x = opens (act_Type (w_acts w a))) xs" "es = pre @ es'"
    "(None :: action_error option) = None \<longrightarrow> confirmed_by (opens (act_Type (w_acts w a))) xs pre"
    "same_but_attempts (effective a w) (w_acts w2 a)" by (rule execute_attempt)
  have "vi_State (info w2) = (if opens (act_Type (w_acts w a)) then ValveStateOpen else ValveStateClosed)"
    using attemptWithRetry_spec(4) [OF plain(2)] assms(2,3) by simp
  with at same_but_attempts_simps [OF at(5)] plain(3) that(3) show ?thesis
    by (auto simp: plain(4) act_static_def)
next
  case (timed w2 es2 w3 es3 w4)
  from timed(2) assms(2,3) obtain xs pre where at: "w_sends w2 = w_sends w @ xs"
    "list_all (\<lambda>x. zs_power x = opens (act_Type (w_acts w a))) xs" "es = pre @ es2"
    "(None :: action_error option) = None \<longrightarrow> confirmed_by (opens (act_Type (w_acts w a))) xs pre"
    "same_but_attempts (effective a w) (w_acts w2 a)" "a < w_next_act w2" "waiters_ok w2"
    "cells_done_from (length (w_cells w)) w2" "w_now w \<le> w_now w2" by (rule execute_attempt)
  have ty: "act_Type (effective a w) = ActionTypeOpenTimed"
    using timed(3) same_but_attempts_simps [OF at(5)] by simp
  then have op: "opens (act_Type (w_acts w a))" using opens_effective [of a w] by (simp add: opens_alt)
  have ok: "waiters_ok (exec_fulfilled a True w2)" using at(7) by (simp add: waiters_ok_def)
  from timed(4) op have hold: "exec_hold (WithCancel (w_next_ctx w) c) a (exec_fulfilled a True w2) es2 = Some (w3, es3)"
    by simp
  have "a < w_next_act (exec_fulfilled a True w2)" using at(6) by simp
  note h = exec_hold_spec [OF hold this ok]
  have "a < w_next_act w3" using h(5) at(6) by (simp add: world_le_def)
  with at ty op ok hold h timed(5) show ?thesis
    by (intro that(4) [of w2 xs pre es2 w3 es3 w4]) (simp_all add: timed(6))
qed

lemma execute_total:
  assumes "ctx_deadline c \<noteq> None \<or> (\<forall>n. w_paho w n \<noteq> PubNever)"
  shows "\<exists>w' es'. execute c a w es = Some (w', es')"
proof -
  let ?p = "opens (act_Type (w_acts w a))"
  have "ctx_deadline (WithCancel (w_next_ctx w) c) \<noteq> None \<or> (\<forall>n. w_paho (exec_start a w) n \<noteq> PubNever)"
    using assms by simp
  from attemptWithRetry_total [OF this] obtain err w2 es2 where
    att: "attemptWithRetry (WithCancel (w_next_ctx w) c) a ?p (RetryCount (config w)) (CommandTimeout (config w))
       (exec_start a w) es = Some (err, w2, es2)" by (metis prod_cases3)
  obtain w3 es3 where "exec_hold (WithCancel (w_next_ctx w) c) a (exec_fulfilled a ?p w2) es2 = Some (w3, es3)"
    using exec_hold_total by (metis prod.exhaust)
  moreover obtain w4 es4 where "exec_close a (config w) w3 es3 = Some (w4, es4)"
    using exec_close_total by (metis prod.exhaust)
  ultimately show ?thesis
    using att by (cases "Disabled (config w) \<and> opens (act_Type (w_acts w a))"; cases err)
      (auto simp: execute_unfold exec_after_def Let_def)
qed

end
