(* ===== verification/Scenario.thy ===== *)
theory Scenario
  imports Executions
begin

text \<open>
  A concrete valve, bridge and timeline, evaluated in the kernel: an indefinite open that
  the maximal open duration turns into a timed one, confirmed by the device, cut short by a
  close request and closed with confirmation; and a close that nobody answers. The
  witnesses of the execution properties use these runs.
\<close>

subsection \<open>The valve and its world\<close>

text \<open>The strings are named, so that evaluation does not carry their characters along.\<close>

definition demo_name :: string where
  "demo_name = ''v1''"

definition demo_ns :: string where
  "demo_ns = ''garden''"

definition demo_friendly :: string where
  "demo_friendly = ''Valve''"

definition demo_addr :: string where
  "demo_addr = ''0x1A2b''"

definition demo_reported :: string where
  "demo_reported = ''0x1A2B''"

definition demo_br :: string where
  "demo_br = ''br''"

definition demo_key :: string where
  "demo_key = ''0X1A2B''"

definition demo_info :: ValveInfo where
  "demo_info = \<lparr> vi_Name = demo_name, vi_Namespace = demo_ns,
     vi_Config = \<lparr> Disabled = False, RetryCount = 2, CommandTimeout = 30 * Second, KeepClosedInterval = 0,
                   MaxOpenDuration = 100, CloseRepeatCount = 1 \<rparr>,
     vi_FriendlyName = demo_friendly, vi_ShortAddr = demo_addr, vi_BridgeName = demo_br, vi_BridgeHost = demo_br,
     vi_BridgePort = 1883, vi_State = ValveStateClosed, vi_LinkQuality = 0, vi_BatteryPercentage = 0,
     vi_Reachable = True, vi_DailyIrrigationVolume = 0, vi_LastValveOpenDuration = 0,
     vi_CurrentActionID = '''', vi_LastOpenTime = None, vi_LastCloseTime = None \<rparr>"

text \<open>The context the pipeline was started with: deregistering the valve calls cancel function 0.\<close>

definition pipeCtx :: ctx where
  "pipeCtx = WithCancel 0 Background"

definition demo_bridge :: BridgeConfig where
  "demo_bridge = \<lparr> bcf_BridgeName = demo_br, bcf_Host = demo_br, bcf_Port = 1883, bcf_Username = '''',
     bcf_Password = '''', bcf_Hostname = ''pod'', bcf_MaxReconnectBackoff = 0, bcf_Topics = [] \<rparr>"

definition demo_world :: "ActionType \<Rightarrow> duration \<Rightarrow> world" where
  "demo_world t d =
     \<lparr> w_now = 0, w_cancelled = [], w_next_ctx = 1, w_acts = (\<lambda>_. newAction [] 0 demo_name demo_ns t d),
       w_next_act = 1, w_rand = (\<lambda>_. []), w_disp = NewDispatcher, w_cells = [],
       w_mgr = \<lparr> mgr_hostname = demo_br, mgr_bridges = [demo_br \<mapsto> newBridgeClient demo_bridge] \<rparr>,
       w_paho = (\<lambda>_. PubDone 1 True), w_metrics = new_metrics, w_pl = newPipeline demo_info,
       w_sends = [], w_writes = [], w_checks = [] \<rparr>"

text \<open>The same valve, disabled.\<close>

definition demo_disabled :: "ActionType \<Rightarrow> duration \<Rightarrow> world" where
  "demo_disabled t d = upd_info (\<lambda>i. i\<lparr> vi_Config := (vi_Config i)\<lparr> Disabled := True \<rparr> \<rparr>) (demo_world t d)"

definition report :: "int \<Rightarrow> external" where
  "report p = Sensor ''tele/br/SENSOR'' (Some (JObject [(''ZbReceived'', JObject [(demo_reported,
     JObject [(''Device'', JString demo_reported), (''Power'', JNumber (IntLit p))])])]))"

definition demo_timeline :: "external timeline" where
  "demo_timeline = [(2, report 1), (50, Request ActionTypeClose 0), (60, report 0)]"

lemma demo_world_ok [simp]:
  "wf_world (demo_world t d)" "waiters_ok (demo_world t d)" "w_next_act (demo_world t d) = 1"
  "w_paho (demo_world t d) n \<noteq> PubNever" "w_acts (demo_world t d) a = newAction [] 0 demo_name demo_ns t d"
  "config (demo_world t d) = vi_Config demo_info" "w_sends (demo_world t d) = []"
  "p_current (w_pl (demo_world t d)) = None" "p_history (w_pl (demo_world t d)) = []"
  "w_cells (demo_world t d) = []" "w_now (demo_world t d) = 0" "w_next_ctx (demo_world t d) = 1"
  by (simp_all add: wf_world_def waiters_ok_def slots_ok_def demo_world_def newPipeline_def disp_inv_def
      NewDispatcher_def subs_of_def disp_active_def live_cells_def config_def)

lemma demo_pipeline [simp]:
  "p_actionCh (w_pl (demo_world t d)) = []" "w_cancelled (demo_world t d) = []" "info (demo_world t d) = demo_info"
  "p_cancelFn (w_pl (demo_world t d)) = None"
  by (simp_all add: demo_world_def newPipeline_def)

subsection \<open>Evaluation\<close>

text \<open>Only what is being evaluated is rewritten: continuations stay as they are until applied.\<close>

lemma bind_weak_cong: "x = y \<Longrightarrow> Option.bind x f = Option.bind y f"
  by simp

lemma map_option_weak_cong: "x = y \<Longrightarrow> map_option f x = map_option f y"
  by simp

lemma fold_weak_cong: "xs = ys \<Longrightarrow> s = t \<Longrightarrow> fold f xs s = fold f ys t"
  by simp

lemma demo_strings: "dispatchKey demo_reported = demo_key" "dispatchKey demo_addr = demo_key"
  "demo_addr \<noteq> ''''" "demo_reported \<noteq> ''''"
  by code_simp+

definition demo_event :: "int \<Rightarrow> SensorEvent" where
  "demo_event p = \<lparr> ev_BridgeName = demo_br, ev_DeviceName = '''', ev_ShortAddr = demo_reported, ev_Power = Some p,
     ev_LinkQuality = None, ev_BatteryPercentage = None, ev_DailyIrrigationVolume = None,
     ev_LastValveOpenDuration = None, ev_IrrigationEndTime = None \<rparr>"

lemma demo_topic: "BridgeNameFromTopic ''tele/br/SENSOR'' = demo_br"
  by code_simp

lemma demo_parse:
  "in_signed 64 p \<Longrightarrow> ParseSensorPayload demo_br (Some (JObject [(''ZbReceived'', JObject [(demo_reported,
     JObject [(''Device'', JString demo_reported), (''Power'', JNumber (IntLit p))])])])) = Inr [demo_event p]"
  by (simp add: field_matches_def add_members_def sensor_event_def get_int_def get_string_def get_float_def
      demo_event_def demo_reported_def)

lemma report_step:
  "in_signed 64 p \<Longrightarrow> external_step (report p) w = dispatch_event (demo_event p)
     (w\<lparr> w_metrics := (w_metrics w)\<lparr> m_MQTTMessagesReceived :=
        inc demo_br (m_MQTTMessagesReceived (w_metrics w)) \<rparr> \<rparr>)"
  by (simp add: report_def handleSensor_def demo_topic demo_parse Let_def del: ParseSensorPayload.simps)

lemma in_signed_bits: "in_signed 64 0" "in_signed 64 1"
  by code_simp+

lemma demo_info_eval:
  "vi_Name demo_info = demo_name" "vi_Namespace demo_info = demo_ns" "vi_ShortAddr demo_info = demo_addr"
  "vi_BridgeName demo_info = demo_br" "vi_State demo_info = ValveStateClosed"
  "Disabled (vi_Config demo_info) = False" "RetryCount (vi_Config demo_info) = 2"
  "CommandTimeout (vi_Config demo_info) = 30 * Second" "MaxOpenDuration (vi_Config demo_info) = 100"
  "CloseRepeatCount (vi_Config demo_info) = 1"
  by (simp_all add: demo_info_def)

lemma newAction_eval:
  "act_Type (newAction b t n ns ty d) = ty" "act_Duration (newAction b t n ns ty d) = d"
  "act_State (newAction b t n ns ty d) = ActionStatePending" "act_ValveName (newAction b t n ns ty d) = n"
  "act_Namespace (newAction b t n ns ty d) = ns" "act_RequestedAt (newAction b t n ns ty d) = t"
  by (simp_all add: newAction_def)

lemmas world_eval = demo_strings Let_def numeral_2_eq_2 new_ctx_def upd_pl_def upd_act_def upd_metrics_def
  waitForPower_def add_cell_def waiter_ctx_def waiter_handler_def ctx_err_def ctx_done_def advance_def
  settle_def reached_def cell_ch_def cancel_ctx_def close_cell_def Subscribe_def Unsubscribe_def
  subs_of_def dispatch_event_def Dispatch_def alloc_act_def
  Second_def Minute_def Millisecond_def

lemmas pipeline_eval = config_def GetInfo_def GetCurrent_def CommandTarget_def set_state_def
  count_retry_def count_action_def addToHistory_def history_put_def maxHistorySize_def pipeCtx_def
  markCloseUnconfirmed_def upd_info_def set_state_gauge_def UpdateValveStatus_call_def
  updateActionID_def request_def Enqueue_def chan_put_def actionCh_cap_def applyDeviceState_def
  apply_info_def spawn_check_def observe_duration_def

lemmas execute_eval = execute_def exec_begin_def upgrade_open_def attemptWithRetry_def attempt_once_def
  attempt_setup_def attempt_await_def sendCount_def close_count_def expectedPower_def SendZbSend_def client_SendZbSend_def
  log_send_def exec_finish_def exec_failed_def IsInternalSafetyPing_def exec_fulfilled_def exec_hold_def
  exec_close_def exec_closed_def

lemmas demo_eval = demo_world_def newAction_eval demo_info_eval newPipeline_def NewDispatcher_def
  demo_event_def report_step in_signed_bits

subsection \<open>The runs\<close>

lemma close_run:
  "map_option (\<lambda>(w', es'). (act_State (w_acts w' 0), map zs_power (w_sends w'))) 
     (execute pipeCtx 0 (demo_world ActionTypeClose 0) []) = Some (ActionStateFailed, [False, False])"
  by (simp add: world_eval pipeline_eval execute_eval demo_eval
      cong: fold_weak_cong bind_weak_cong let_weak_cong map_option_weak_cong)

lemma timed_run:
  "map_option (\<lambda>(w', es'). (act_State (w_acts w' 0), act_FulfilledAt (w_acts w' 0), map zs_power (w_sends w'), es'))
     (execute pipeCtx 0 (demo_world ActionTypeOpen 0) demo_timeline) =
   Some (ActionStateFulfilled, Some 2, [True, False], [])"
  unfolding demo_timeline_def
  by (simp add: world_eval pipeline_eval execute_eval demo_eval
      cong: fold_weak_cong bind_weak_cong let_weak_cong map_option_weak_cong)

lemma close_runE:
  obtains w' es' where "execute pipeCtx 0 (demo_world ActionTypeClose 0) [] = Some (w', es')"
    "act_State (w_acts w' 0) = ActionStateFailed" "map zs_power (w_sends w') = [False, False]"
  using close_run by auto

lemma timed_runE:
  obtains w' where "execute pipeCtx 0 (demo_world ActionTypeOpen 0) demo_timeline = Some (w', [])"
    "act_State (w_acts w' 0) = ActionStateFulfilled" "act_FulfilledAt (w_acts w' 0) = Some 2"
    "map zs_power (w_sends w') = [True, False]"
  using timed_run by auto

end
