(* ===== verification/Queue.thy ===== *)
theory Queue
  imports Scenario
begin

text \<open>
  Requests and the main loop: what \<open>Enqueue\<close> does to the queue and to the executing action,
  how a close request ends a timed open, and what the pipeline does when it is stopped.
\<close>

subsection \<open>Requests\<close>

lemma Enqueue_actionCh: "p_actionCh (w_pl (Enqueue a w)) = chan_put a (p_actionCh (w_pl w))"
  by (auto simp: Enqueue_def Let_def upd_pl_def split: option.splits)



lemma hold_request:
  assumes "p_cancelFn (w_pl w) = Some i" "\<not> ctx_done w (WithCancel i c)" "ctx_deadline c = None"
    "w_now w \<le> t" "t < w_now w + act_Duration (w_acts w a)"
  shows "\<exists>w'. exec_hold (WithCancel i c) a w ((t, Request ActionTypeClose d) # es) = Some (w', es) \<and> w_now w' = t"
proof -
  let ?ctx = "WithCancel i c"
  let ?u = "upd_act a (\<lambda>x. x\<lparr> act_ExpiresAt := Some (w_now w + act_Duration x), act_State := ActionStateClosing \<rparr>) w"
  let ?v = "updateActionID (act_ID (w_acts ?u a)) ?u"
  let ?w' = "external_step (Request ActionTypeClose d) (advance t ?v)"
  have "\<not> ctx_done ?v ?ctx" using assms(2) by (simp add: ctx_done_def ctx_err_def)
  then have "exec_hold ?ctx a w ((t, Request ActionTypeClose d) # es) =
      block (\<lambda>w. ctx_done w ?ctx) (Some (w_now w + act_Duration (w_acts w a))) ?w' es"
    using assms(3-5) by (simp add: exec_hold_def Let_def reached_def)
  moreover have "ctx_done ?w' ?ctx"
    using assms(1) by (simp add: ctx_done_def ctx_err_def request_def alloc_act_def Let_def Enqueue_def upd_pl_def newAction_def)
  ultimately show ?thesis
    using assms(4) by (simp add: wait_ready max_def del: external_step.simps)
qed



subsection \<open>Stopping the pipeline\<close>

lemma execute_close_spec:
  assumes "execute c a w es = Some (w', es')" "act_Type (w_acts w a) = ActionTypeClose" "ctx_deadline c = Some d"
    "waiters_ok w" "a < w_next_act w" "RetryCount (config w) > 0"
  shows "w_now w' \<le> max (w_now w) d \<and> (\<exists>off offs. w_sends w' = w_sends w @ off # offs \<and>
      list_all (\<lambda>x. \<not> zs_power x) (off # offs) \<and> zs_time off = w_now w) \<and>
    (act_State (w_acts w' a) = ActionStateFulfilled \<longrightarrow> vi_State (info w') = ValveStateClosed)"
proof -
  have op: "opens (act_Type (w_acts w a)) = False" using assms(2) by (simp add: opens_alt)
  have ok: "waiters_ok (exec_start a w)" "a < w_next_act (exec_start a w)" using assms(4,5) by simp_all
  have dl: "ctx_deadline (WithCancel (w_next_ctx w) c) = Some d" using assms(3) by simp
  have att: "w_now w2 \<le> max (w_now w) d \<and> (\<exists>off offs. w_sends w2 = w_sends w @ off # offs \<and>
      list_all (\<lambda>x. \<not> zs_power x) (off # offs) \<and> zs_time off = w_now w)"
    if at: "attemptWithRetry (WithCancel (w_next_ctx w) c) a False (RetryCount (config w))
       (CommandTimeout (config w)) (exec_start a w) es = Some (err, w2, es2)" for err w2 es2
  proof -
    from attemptWithRetry_spec(1) [OF at ok] assms(6) obtain xs where
      "sent False (exec_start a w) w2 xs" "xs \<noteq> []" "zs_time (hd xs) = w_now w" by auto
    with attemptWithRetry_time [OF at dl] show ?thesis by (cases xs) (auto simp: sent_def)
  qed
  from assms(1) show ?thesis
  proof (cases rule: execute_cases)
    case rejected
    with op show ?thesis by simp
  next
    case (failed e w2)
    with att [of "Some e" w2 es'] op show ?thesis by (simp add: failed(3))
  next
    case (plain w2)
    from attemptWithRetry_spec(4) [OF plain(2) ok] att [of None w2 es'] plain(2) op show ?thesis
      by (simp add: plain(4))
  next
    case (timed w2 es2 w3 es3 w4)
    from timed(2) assms(4,5) obtain xs :: "zbsend_call list" where "same_but_attempts (effective a w) (w_acts w2 a)"
      by (rule execute_attempt)
    from same_but_attempts_simps [OF this] timed(3) assms(2) show ?thesis
      by (simp add: effective_def upgrade_open_def)
  qed
qed



text \<open>
  Stopping looks only at the recorded state: with any other recorded state, unknown
  included, no command is sent, so a valve whose open command went out unconfirmed is left
  as it is.
\<close>

theorem shutdown_otherwise_sends_nothing:
  assumes "p_actionCh (w_pl w) = []" "ctx_done w c" "getState w \<noteq> ValveStateOpen"
  shows "run_once c pick w es = Some (False, w, es)"
  using assms by (simp add: run_once_def wait_ready)

theorem shutdown_otherwise_sends_nothing_witness:
  "run_once pipeCtx True (cancel_ctx 0 (demo_world ActionTypeOpen 0)) [] =
     Some (False, cancel_ctx 0 (demo_world ActionTypeOpen 0), [])"
  by (rule shutdown_otherwise_sends_nothing)
    (simp_all add: getState_def ctx_done_def ctx_err_def pipeCtx_def demo_info_eval)

end
