(* ===== verification/Safety.thy ===== *)
theory Safety
  imports Scenario
begin

text \<open>
  The guarantees of \<open>execute\<close>: what a fulfilled action means, that a timed open is closed in
  time, that every execution ends and leaves the pipeline in order.
\<close>

subsection \<open>What fulfilled means\<close>

lemma upgrade_open_FulfilledAt [simp]: "act_FulfilledAt (upgrade_open cfg x) = act_FulfilledAt x"
  by (simp add: upgrade_open_def)

lemma execute_static:
  assumes "execute c a w es = Some (w', es')" "a < w_next_act w"
  shows "act_static (w_acts w' a) = act_static (effective a w)"
  using steps_acts [OF execute_steps [OF assms], of a] assms(2) by (simp add: effective_def)

lemma execute_Type:
  assumes "execute c a w es = Some (w', es')" "a < w_next_act w"
  shows "act_Type (w_acts w' a) = act_Type (effective a w)" "act_Duration (w_acts w' a) = act_Duration (effective a w)"
  using execute_static [OF assms] by (simp_all add: act_static_def)

lemma execute_timed:
  assumes "execute c a w es = Some (w', es')" "wf_world w" "a < w_next_act w"
    "act_Type (w_acts w' a) = ActionTypeOpenTimed" "act_FulfilledAt (w_acts w' a) \<noteq> act_FulfilledAt (w_acts w a) \<or>
       act_State (w_acts w' a) = ActionStateFulfilled"
  obtains ons offs pre1 pre2 t u where
    "w_sends w' = w_sends w @ ons @ offs" "list_all zs_power ons" "list_all (\<lambda>x. \<not> zs_power x) offs"
    "es = pre1 @ pre2 @ es'" "confirmed_by True ons pre1"
    "act_FulfilledAt (w_acts w' a) = Some t" "act_ExpiresAt (w_acts w' a) = Some (t + act_Duration (w_acts w' a))"
    "act_ClosedAt (w_acts w' a) = Some (w_now w')" "t \<le> u" "u \<le> max t (t + act_Duration (w_acts w' a))"
    "w_now w' \<le> u + 2 * Minute" "RetryCount (config w) > 0 \<longrightarrow> offs \<noteq> [] \<and> zs_time (hd offs) = u"
    "act_State (w_acts w' a) = ActionStateFulfilled \<and> confirmed_by False offs pre2 \<and>
       vi_State (info w') = ValveStateClosed \<or>
     act_State (w_acts w' a) = ActionStateFailed \<and> vi_State (info w') \<noteq> ValveStateClosed"
proof -
  have ok: "waiters_ok w" using assms(2) by (simp add: wf_world_def)
  show thesis
    using assms(1) ok assms(3)
  proof (cases rule: execute_outcomes)
    case rejected
    with assms(5) show ?thesis by (auto simp: effective_def)
  next
    case (failed xs pre)
    with assms(5) show ?thesis by auto
  next
    case (plain xs pre)
    with assms(4) show ?thesis by (simp add: act_static_def)
  next
    case (timed xs pre w2 es2 w3 es3 w4)
    let ?u = "exec_fulfilled a True w2"
    have "a < w_next_act ?u" using timed(10) by simp
    note h = exec_hold_spec [OF timed(7) this timed(11)]
    have x3: "w_acts w3 a = held ((w_acts w2 a)\<lparr> act_FulfilledAt := Some (w_now w2),
        act_State := ActionStateFulfilled \<rparr>) (w_now w2)" using h(1) by simp
    obtain pre' where es3: "es2 = pre' @ es3" using h(8) by blast
    from timed(8,13,12) show ?thesis
    proof (cases rule: exec_close_spec)
      case (closed ys pre2)
      then have "confirmed_by False ys (pre' @ pre2)"
        using confirmed_by_append [of False ys pre2 "[]" "[]" pre' "[]"] by simp
      with closed timed h x3 es3 show ?thesis
        by (intro that [of xs ys pre "pre' @ pre2" "w_now w2" "w_now w3"])
          (auto simp: sent_def held_def world_le_def list_all_iff)
    next
      case (failed ys pre2 e)
      with timed h x3 es3 show ?thesis
        by (intro that [of xs ys pre "pre' @ pre2" "w_now w2" "w_now w3"])
          (auto simp: sent_def held_def world_le_def list_all_iff)
    qed
  qed
qed

lemma timed_run_typed:
  "\<exists>w'. execute pipeCtx 0 (demo_world ActionTypeOpen 0) demo_timeline = Some (w', []) \<and>
     act_State (w_acts w' 0) = ActionStateFulfilled \<and> act_FulfilledAt (w_acts w' 0) = Some 2 \<and>
     map zs_power (w_sends w') = [True, False] \<and> act_Type (w_acts w' 0) = ActionTypeOpenTimed \<and>
     act_Duration (w_acts w' 0) = 100"
proof -
  obtain w' where run: "execute pipeCtx 0 (demo_world ActionTypeOpen 0) demo_timeline = Some (w', [])"
    "act_State (w_acts w' 0) = ActionStateFulfilled" "act_FulfilledAt (w_acts w' 0) = Some 2"
    "map zs_power (w_sends w') = [True, False]" by (rule timed_runE)
  have "0 < w_next_act (demo_world ActionTypeOpen 0)" by simp
  from execute_Type [OF run(1) this] run show ?thesis
    by (simp add: effective_def upgrade_open_def newAction_eval demo_info_eval)
qed

text \<open>
  C2: A timed open is reported fulfilled only when the valve was closed again: ON commands
  were confirmed, then OFF commands were sent and confirmed by a later sensor message for
  the commanded target, the time of the close is recorded and the recorded state of the
  valve is closed. This holds whatever requests, cancellations and reconfigurations arrive.
\<close>

theorem timed_open_fulfilled_is_closed:
  assumes "execute c a w es = Some (w', es')" "wf_world w" "a < w_next_act w"
    and "act_Type (w_acts w' a) = ActionTypeOpenTimed" "act_State (w_acts w' a) = ActionStateFulfilled"
  shows "vi_State (info w') = ValveStateClosed \<and> act_ClosedAt (w_acts w' a) = Some (w_now w') \<and>
    (\<exists>ons offs pre1 pre2. w_sends w' = w_sends w @ ons @ offs \<and> es = pre1 @ pre2 @ es' \<and>
       list_all zs_power ons \<and> confirmed_by True ons pre1 \<and>
       list_all (\<lambda>x. \<not> zs_power x) offs \<and> confirmed_by False offs pre2)"
  using assms(1-4) disjI2 [OF assms(5)] by (rule execute_timed) (use assms(5) in auto)

theorem timed_open_fulfilled_is_closed_witness:
  "\<exists>w'. execute pipeCtx 0 (demo_world ActionTypeOpen 0) demo_timeline = Some (w', []) \<and>
     act_State (w_acts w' 0) = ActionStateFulfilled \<and> vi_State (info w') = ValveStateClosed"
  using timed_run_typed timed_open_fulfilled_is_closed
    [of pipeCtx 0 "demo_world ActionTypeOpen 0" demo_timeline _ "[]"] by auto

text \<open>
  C3: No action is reported fulfilled without the device having said so: among the events
  consumed by the execution is a sensor message that covers the target of one of the
  commands the execution sent and reports the commanded position (on for an open, off for a
  close).
\<close>

theorem fulfilled_was_confirmed:
  assumes "execute c a w es = Some (w', es')" "wf_world w" "a < w_next_act w"
    and "act_State (w_acts w' a) = ActionStateFulfilled"
  shows "\<exists>xs pre. w_sends w' = w_sends w @ xs \<and> es = pre @ es' \<and>
    confirmed_by (opens (act_Type (w_acts w a))) xs pre"
proof (cases "act_Type (w_acts w' a) = ActionTypeOpenTimed")
  case True
  then have op: "opens (act_Type (w_acts w a))"
    using execute_Type [OF assms(1,3)] opens_effective [of a w] by (simp add: opens_alt)
  from assms(1-3) True disjI2 [OF assms(4)] obtain ons offs pre1 pre2 where
    "w_sends w' = w_sends w @ ons @ offs" "es = pre1 @ pre2 @ es'" "confirmed_by True ons pre1"
    by (rule execute_timed)
  with confirmed_by_append [of True ons pre1 "[]" offs "[]" pre2] op show ?thesis
    by (intro exI [of _ "ons @ offs"] exI [of _ "pre1 @ pre2"]) simp
next
  case False
  have ok: "waiters_ok w" using assms(2) by (simp add: wf_world_def)
  from assms(1) ok assms(3) show ?thesis
  proof (cases rule: execute_outcomes)
    case (timed xs pre w2 es2 w3 es3 w4)
    then show ?thesis using False execute_Type [OF assms(1,3)] by simp
  qed (use assms(4) in auto)
qed

theorem fulfilled_was_confirmed_witness:
  "\<exists>w' xs pre. execute pipeCtx 0 (demo_world ActionTypeOpen 0) demo_timeline = Some (w', []) \<and>
     w_sends w' = xs \<and> demo_timeline = pre \<and> confirmed_by True xs pre"
  using timed_run_typed fulfilled_was_confirmed
    [of pipeCtx 0 "demo_world ActionTypeOpen 0" demo_timeline _ "[]"] by (auto simp: opens_alt newAction_eval)

subsection \<open>A timed open is closed in time\<close>

lemma execute_off_in_time:
  assumes "execute c a w es = Some (w', es')" "wf_world w" "a < w_next_act w"
    and "act_Type (w_acts w' a) = ActionTypeOpenTimed" "act_FulfilledAt (w_acts w a) = None"
    and "act_FulfilledAt (w_acts w' a) = Some t" "RetryCount (config w) > 0" "act_Duration (w_acts w' a) \<ge> 0"
  shows "act_ExpiresAt (w_acts w' a) = Some (t + act_Duration (w_acts w' a)) \<and>
    (\<exists>ons off offs. w_sends w' = w_sends w @ ons @ off # offs \<and> list_all zs_power ons \<and> \<not> zs_power off \<and>
       t \<le> zs_time off \<and> zs_time off \<le> t + act_Duration (w_acts w' a))"
proof -
  have "act_FulfilledAt (w_acts w' a) \<noteq> act_FulfilledAt (w_acts w a) \<or> act_State (w_acts w' a) = ActionStateFulfilled"
    using assms(5,6) by simp
  with assms(1-4) obtain ons offs t' u where out:
    "w_sends w' = w_sends w @ ons @ offs" "list_all zs_power ons" "list_all (\<lambda>x. \<not> zs_power x) offs"
    "act_FulfilledAt (w_acts w' a) = Some t'" "act_ExpiresAt (w_acts w' a) = Some (t' + act_Duration (w_acts w' a))"
    "t' \<le> u" "u \<le> max t' (t' + act_Duration (w_acts w' a))"
    "RetryCount (config w) > 0 \<longrightarrow> offs \<noteq> [] \<and> zs_time (hd offs) = u" by (rule execute_timed)
  moreover from out assms(7) obtain off rest where "offs = off # rest" by (cases offs) auto
  ultimately show ?thesis using assms(6-8) by auto
qed





subsection \<open>Every execution ends\<close>

text \<open>
  C7: \<open>execute\<close> always returns when the publish tokens of the MQTT library complete, and also
  without that assumption when its context has a deadline (the close of a shutdown).
\<close>

theorem execute_returns:
  assumes "ctx_deadline c \<noteq> None \<or> (\<forall>n. w_paho w n \<noteq> PubNever)"
  shows "\<exists>w' es'. execute c a w es = Some (w', es')"
  by (rule execute_total [OF assms])

theorem execute_returns_witness:
  "\<exists>w' es'. execute pipeCtx 0 (demo_world ActionTypeOpen 0) demo_timeline = Some (w', es')"
  by (rule execute_returns) simp

subsection \<open>What an execution leaves behind\<close>

text \<open>
  The record of an action as clients see it: before it executes no time but that of the request
  is set, and afterwards times and error fit its state and type. A failed timed open that has
  a time of fulfilment was opened, and its close was not confirmed.
\<close>

definition fresh_action :: "time \<Rightarrow> Action \<Rightarrow> bool" where
  "fresh_action now x \<longleftrightarrow> act_RequestedAt x \<le> now \<and> act_FulfilledAt x = None \<and> act_ClosedAt x = None \<and>
     act_ExpiresAt x = None \<and> act_FailedAt x = None \<and> act_ErrorMessage x = NoError"

definition finished_action :: "time \<Rightarrow> Action \<Rightarrow> bool" where
  "finished_action now x \<longleftrightarrow>
     (\<forall>t \<in> set_option (act_FulfilledAt x) \<union> set_option (act_ClosedAt x) \<union> set_option (act_FailedAt x).
        act_RequestedAt x \<le> t \<and> t \<le> now) \<and>
     (case act_State x of
        ActionStateCancelled \<Rightarrow> act_FulfilledAt x = None \<and> act_ClosedAt x = None \<and> act_ExpiresAt x = None \<and>
          act_FailedAt x = None \<and> act_ErrorMessage x = NoError
      | ActionStateFulfilled \<Rightarrow> act_FailedAt x = None \<and> act_ErrorMessage x = NoError \<and>
          (\<exists>t. act_FulfilledAt x = Some t \<and>
             (if act_Type x = ActionTypeOpenTimed
              then act_ExpiresAt x = Some (t + act_Duration x) \<and> (\<exists>u. act_ClosedAt x = Some u \<and> t \<le> u)
              else act_ExpiresAt x = None \<and> act_ClosedAt x = None))
      | ActionStateFailed \<Rightarrow> act_FailedAt x \<noteq> None \<and>
          (case act_FulfilledAt x of
             None \<Rightarrow> act_ClosedAt x = None \<and> act_ExpiresAt x = None \<and> (\<exists>n. act_ErrorMessage x = NoConfirmation n)
           | Some t \<Rightarrow> act_Type x = ActionTypeOpenTimed \<and> act_ExpiresAt x = Some (t + act_Duration x) \<and>
               act_ClosedAt x = act_FailedAt x \<and> (\<exists>u. act_ClosedAt x = Some u \<and> t \<le> u) \<and>
               (\<exists>e. act_ErrorMessage x = CloseNotConfirmed e))
      | _ \<Rightarrow> False)"

lemma fresh_upgrade [simp]: "fresh_action now (upgrade_open cfg x) = fresh_action now x"
  by (simp add: fresh_action_def upgrade_open_def)

lemma fresh_but_attempts:
  "same_but_attempts x y \<Longrightarrow> fresh_action now x \<Longrightarrow> now \<le> now' \<Longrightarrow> fresh_action now' y"
  by (cases x; cases y) (simp add: same_but_attempts_def fresh_action_def)

text \<open>Each of the ways an action can finish leaves such a record.\<close>

lemma finished_cases:
  assumes "fresh_action t x" "t \<le> now"
  shows "finished_action now (x\<lparr> act_State := ActionStateCancelled \<rparr>)"
    "act_State x = ActionStateCancelled \<Longrightarrow> finished_action now x"
    "finished_action now (x\<lparr> act_State := ActionStateFailed, act_FailedAt := Some t, act_ErrorMessage := NoConfirmation n \<rparr>)"
    "act_Type x \<noteq> ActionTypeOpenTimed \<Longrightarrow>
       finished_action now (x\<lparr> act_FulfilledAt := Some t, act_State := ActionStateFulfilled \<rparr>)"
    "act_Type x = ActionTypeOpenTimed \<Longrightarrow>
       finished_action now ((held (x\<lparr> act_FulfilledAt := Some t, act_State := ActionStateFulfilled \<rparr>) t)
         \<lparr> act_ClosedAt := Some now, act_State := ActionStateFulfilled \<rparr>)"
    "act_Type x = ActionTypeOpenTimed \<Longrightarrow>
       finished_action now ((held (x\<lparr> act_FulfilledAt := Some t, act_State := ActionStateFulfilled \<rparr>) t)
         \<lparr> act_ClosedAt := Some now, act_State := ActionStateFailed, act_FailedAt := Some now,
           act_ErrorMessage := CloseNotConfirmed e \<rparr>)"
  using assms by (simp_all add: fresh_action_def finished_action_def held_def)

lemma execute_record:
  assumes "execute c a w es = Some (w', es')" "waiters_ok w" "a < w_next_act w" "fresh_action (w_now w) (w_acts w a)"
  shows "finished_action (w_now w') (w_acts w' a)"
proof -
  have eff: "fresh_action (w_now w) (effective a w)" using assms(4) by (simp add: effective_def)
  have start: "waiters_ok (exec_start a w)" "a < w_next_act (exec_start a w)" using assms(2,3) by simp_all
  have att: "fresh_action (w_now w2) (w_acts w2 a) \<and> w_acts (exec_start a w) a = effective a w"
    if "attemptWithRetry i a pwr rc ct (exec_start a w) es = Some (err, w2, es2)" for i pwr rc ct err w2 es2
  proof -
    have "steps {a} (insert False {pwr}) (exec_start a w) w2" by (rule attemptWithRetry_steps [OF _ _ that]) simp_all
    then have "w_now w \<le> w_now w2" using steps_le [of "{a}" "insert False {pwr}" "exec_start a w" w2] by (simp add: world_le_def)
    moreover have "w_acts (exec_start a w) a = effective a w" by (simp add: effective_def)
    ultimately show ?thesis using fresh_but_attempts [OF attemptWithRetry_spec(2) [OF that start]] eff by simp
  qed
  from assms(1) show ?thesis
  proof (cases rule: execute_cases)
    case rejected
    with finished_cases(1) [OF eff order_refl] show ?thesis by (simp add: effective_def addToHistory_def upd_pl_def)
  next
    case (failed e w2)
    note fr = att [OF failed(2), THEN conjunct1]
    show ?thesis
    proof (cases "act_State (w_acts w2 a) = ActionStateCancelled")
      case True
      with failed(3) finished_cases(2) [OF fr order_refl] show ?thesis by simp
    next
      case False
      with attemptWithRetry_spec(4) [OF failed(2) start] have "e = NoConfirmation (RetryCount (config w))"
        by (auto split: action_error.splits)
      with False failed(3) finished_cases(3) [OF fr order_refl] show ?thesis by simp
    qed
  next
    case (plain w2)
    with finished_cases(4) [OF att [OF plain(2), THEN conjunct1] order_refl] show ?thesis by simp
  next
    case (timed w2 es2 w3 es3 w4)
    note fr = att [OF timed(2), THEN conjunct1]
    let ?u = "exec_fulfilled a (opens (act_Type (w_acts w a))) w2"
    have ty: "act_Type (w_acts w2 a) = ActionTypeOpenTimed" using timed(3) by simp
    have "world_le (exec_start a w) w2"
      by (rule steps_le [OF attemptWithRetry_steps [where P = "{opens (act_Type (w_acts w a))}", OF insertI1 _ timed(2)]]) simp
    then have "a < w_next_act w2" "waiters_ok w2"
      using attemptWithRetry_spec(6) [OF timed(2) start] assms(3) by (simp_all add: world_le_def)
    then have u: "a < w_next_act ?u" "waiters_ok ?u" by (simp_all add: waiters_ok_def)
    note h = exec_hold_spec [OF timed(4) u]
    have w3: "a < w_next_act w3" "w_now w2 \<le> w_now w3" using h(5) u(1) by (simp_all add: world_le_def)
    have x3: "w_acts w3 a = held ((w_acts w2 a)\<lparr> act_FulfilledAt := Some (w_now w2),
        act_State := ActionStateFulfilled \<rparr>) (w_now w2)" using h(1) by simp
    have "steps (insert a {w_next_act w3..}) {False} w3 w4" by (rule exec_close_steps [OF subset_refl timed(5)])
    then have "w_now w2 \<le> w_now w4" using steps_le [of _ _ w3 w4] w3(2) by (force simp: world_le_def)
    note fin = finished_cases(5,6) [OF fr this ty]
    from timed(5) h(4) w3(1) show ?thesis
      by (cases rule: exec_close_spec) (use timed(6) x3 fin in simp_all)
  qed
qed

text \<open>New actions have such a record.\<close>

lemma fresh_newAction [simp]: "fresh_action now (newAction b t n ns ty d) \<longleftrightarrow> t \<le> now"
  by (simp add: fresh_action_def newAction_def)

lemma execute_ends:
  assumes "execute c a w es = Some (w', es')" "wf_world w" "a < w_next_act w" "GetCurrent w = None"
  shows "IsTerminal (w_acts w' a) \<and> GetCurrent w' = None \<and> p_cancelFn (w_pl w') = None \<and>
    (IsInternalSafetyPing (w_acts w a) \<or> (\<exists>h. GetHistory w' = a # h))"
proof -
  have ok: "waiters_ok w" "p_cancelFn (w_pl w) = None" "p_current (w_pl w) = None"
    using assms(2,4) by (auto simp: wf_world_def slots_ok_def GetCurrent_def)
  have hist: "\<exists>h'. history_put a h = a # h'" for h by (simp add: history_put_def Let_def maxHistorySize_def take_Cons')
  have ping: "IsInternalSafetyPing (w_acts w' a) = IsInternalSafetyPing (w_acts w a)"
    using execute_Type [OF assms(1,3)] upgrade_open_simps(7) [of "config w" "w_acts w a"]
    by (simp add: effective_def IsInternalSafetyPing_def)
  have fin: "GetCurrent w' = None \<and> p_cancelFn (w_pl w') = None \<and>
      (IsInternalSafetyPing (w_acts w a) \<or> (\<exists>h. GetHistory w' = a # h))" if "w' = exec_finish i a v" for i v
    using that hist [of "p_history (w_pl v)"] ping by (auto simp: GetCurrent_def GetHistory_def)
  from assms(1) have "GetCurrent w' = None \<and> p_cancelFn (w_pl w') = None \<and>
      (IsInternalSafetyPing (w_acts w a) \<or> (\<exists>h. GetHistory w' = a # h))"
  proof (cases rule: execute_cases)
    case rejected
    with hist [of "p_history (w_pl w)"] ok show ?thesis
      by (simp add: addToHistory_def upd_pl_def GetCurrent_def GetHistory_def)
  qed (rule fin, assumption)+
  moreover from assms(1) ok(1) assms(3) have "IsTerminal (w_acts w' a)"
  proof (cases rule: execute_outcomes)
    case (timed xs pre w2 es2 w3 es3 w4)
    from timed(8,13,12) show ?thesis by (cases rule: exec_close_spec) (simp_all add: timed(14) IsTerminal_def)
  qed (auto simp: IsTerminal_def)
  ultimately show ?thesis by blast
qed

text \<open>
  C8: When \<open>execute\<close> returns, the action is in a terminal state, the action slot is free again
  (no current action, no cancel function), and the action is the newest entry of the history
  unless it is an internal keep-closed action. An action that was new when it was taken has
  then the times, duration and error that fit its state and type: a fulfilled one no error,
  a cancelled one no time at all, a failed one either no confirmation, or, for a timed
  open, the times of its opening and its expiry and a close that was not confirmed.
\<close>

theorem execute_completes:
  assumes "execute c a w es = Some (w', es')" "wf_world w" "a < w_next_act w" "GetCurrent w = None"
  shows "IsTerminal (w_acts w' a) \<and> GetCurrent w' = None \<and> p_cancelFn (w_pl w') = None \<and>
    (IsInternalSafetyPing (w_acts w a) \<or> (\<exists>h. GetHistory w' = a # h)) \<and>
    (fresh_action (w_now w) (w_acts w a) \<longrightarrow> finished_action (w_now w') (w_acts w' a))"
  using execute_ends [OF assms] execute_record [OF assms(1) _ assms(3)] assms(2) by (simp add: wf_world_def)

theorem execute_completes_witness:
  "\<exists>w'. execute pipeCtx 0 (demo_world ActionTypeOpen 0) demo_timeline = Some (w', []) \<and>
     IsTerminal (w_acts w' 0) \<and> GetCurrent w' = None \<and> finished_action (w_now w') (w_acts w' 0)"
  using timed_run_typed execute_completes
    [of pipeCtx 0 "demo_world ActionTypeOpen 0" demo_timeline _ "[]"] by (auto simp: GetCurrent_def)

text \<open>
  An execution keeps the invariant of the pipeline (bounded queue and history, valid
  references, cancel function set exactly while an action is current, exactly the unfinished
  waiters subscribed) and touches no action but its own and those allocated meanwhile.
\<close>

theorem execute_preserves_invariant:
  assumes "execute c a w es = Some (w', es')" "wf_world w" "a < w_next_act w"
  shows "wf_world w' \<and> (\<forall>r. r < w_next_act w \<and> r \<noteq> a \<longrightarrow> w_acts w' r = w_acts w r)"
proof -
  note st = execute_steps [OF assms(1,3)]
  have "wf_world (upd_act a (upgrade_open (config w)) w)"
    using assms(2) by (simp add: wf_world_def waiters_ok_def slots_ok_def)
  from steps_wf [OF st this] steps_acts [OF st] show ?thesis by auto
qed

theorem execute_preserves_invariant_witness:
  "\<exists>w'. execute pipeCtx 0 (demo_world ActionTypeOpen 0) demo_timeline = Some (w', []) \<and> wf_world w'"
  using timed_run_typed execute_preserves_invariant
    [of pipeCtx 0 "demo_world ActionTypeOpen 0" demo_timeline _ "[]"] by auto

lemma cells_done_from_le:
  "cells_done_from m w \<Longrightarrow> world_le w w' \<Longrightarrow> length (w_cells w') = length (w_cells w) \<Longrightarrow> cells_done_from m w'"
  by (auto simp: cells_done_from_def world_le_def cell_le_def)

lemma attemptWithRetry_cells:
  "attemptWithRetry c a pwr rc ct w es = Some (err, w', es') \<Longrightarrow> cells_done_from m w \<Longrightarrow> cells_done_from m w'"
  unfolding attemptWithRetry_def by (erule attempt_loop_cells) (simp add: cells_done_from_def)

lemma cells_done_from_cancel: "cells_done_from m w \<Longrightarrow> cells_done_from m (cancel_ctx i w)"
  by (rule cells_done_from_le [OF _ steps_le [OF cancel_ctx_steps]]) simp_all

lemma cells_done_from_finish: "cells_done_from m w \<Longrightarrow> cells_done_from m (exec_finish i a w)"
  using cells_done_from_cancel [of m w i]
  by (simp add: exec_finish_def cells_done_from_def Let_def upd_pl_def addToHistory_def)

lemma execute_cells:
  assumes "execute c a w es = Some (w', es')" "wf_world w" "a < w_next_act w"
  shows "cells_done_from (length (w_cells w)) w'"
  using assms(1)
proof (cases rule: execute_cases)
  have start: "cells_done_from (length (w_cells w)) (exec_start a w)" by (simp add: cells_done_from_def)
  {
    case rejected
    then show ?thesis by (simp add: cells_done_from_def addToHistory_def upd_pl_def)
  next
    case (failed e w2)
    from attemptWithRetry_cells [OF failed(2) start] show ?thesis
      unfolding failed(3) by (intro cells_done_from_finish) (simp add: cells_done_from_def)
  next
    case (plain w2)
    from attemptWithRetry_cells [OF plain(2) start] show ?thesis
      unfolding plain(4) by (intro cells_done_from_finish) (simp add: cells_done_from_def)
  next
    case (timed w2 es2 w3 es3 w4)
    let ?u = "exec_fulfilled a (opens (act_Type (w_acts w a))) w2"
    have ok: "waiters_ok w" using assms(2) by (simp add: wf_world_def)
    from timed(2) ok assms(3) obtain xs :: "zbsend_call list" where "a < w_next_act w2" "waiters_ok w2"
      by (rule execute_attempt)
    then have u: "a < w_next_act ?u" "waiters_ok ?u" by (simp_all add: waiters_ok_def)
    note h = exec_hold_spec [OF timed(4) u]
    have "cells_done_from (length (w_cells w)) ?u"
      using attemptWithRetry_cells [OF timed(2) start] by (simp add: cells_done_from_def)
    from cells_done_from_le [OF this h(5,3)] have w3: "cells_done_from (length (w_cells w)) w3" .
    have "a < w_next_act w3" using h(5) u(1) by (simp add: world_le_def)
    with timed(5) h(4) obtain v c' r err w5 where
      "attemptWithRetry c' r False (RetryCount (config w)) (CommandTimeout (config w)) v es3 = Some (err, w5, es')"
      "w4 = exec_closed a err (cancel_ctx (w_next_ctx w3) w5)" "w_cells v = w_cells w3" by (rule exec_closeE)
    with attemptWithRetry_cells [of c' r False _ _ v es3 err w5 es'] w3
    have "cells_done_from (length (w_cells w)) w4"
      using cells_done_from_cancel [of "length (w_cells w)" w5] by (simp add: cells_done_from_def)
    then show ?thesis unfolding timed(6) by (intro cells_done_from_finish) (simp add: cells_done_from_def)
  }
qed

text \<open>
  No subscription outlives the execution that made it: every subscription live at the
  dispatcher afterwards was already live before.
\<close>

theorem execute_leaks_no_subscription:
  assumes "execute c a w es = Some (w', es')" "wf_world w" "a < w_next_act w"
  shows "disp_active (w_disp w') \<subseteq> disp_active (w_disp w)"
proof
  fix x assume x: "x \<in> disp_active (w_disp w')"
  note st = execute_steps [OF assms(1,3)]
  have wf0: "wf_world (upd_act a (upgrade_open (config w)) w)"
    using assms(2) by (simp add: wf_world_def waiters_ok_def slots_ok_def)
  from x steps_wf [OF st wf0] have live: "x \<in> live_cells (w_cells w')" by (simp add: wf_world_def waiters_ok_def)
  let ?i = "snd (snd x)"
  have i: "?i < length (w_cells w)"
  proof (rule ccontr)
    assume "\<not> ?i < length (w_cells w)"
    with live execute_cells [OF assms] show False
      unfolding mem_live_cells cells_done_from_def by (meson not_le)
  qed
  with steps_le [OF st] have "cell_le (w_cells w ! ?i) (w_cells w' ! ?i)" by (simp add: world_le_def)
  with live i have "x \<in> live_cells (w_cells w)" by (auto simp: mem_live_cells cell_le_def)
  with assms(2) show "x \<in> disp_active (w_disp w)" by (simp add: wf_world_def waiters_ok_def)
qed

theorem execute_leaks_no_subscription_witness:
  "\<exists>w'. execute pipeCtx 0 (demo_world ActionTypeOpen 0) demo_timeline = Some (w', []) \<and>
     disp_active (w_disp w') \<subseteq> disp_active (w_disp (demo_world ActionTypeOpen 0))"
  using timed_run_typed execute_leaks_no_subscription
    [of pipeCtx 0 "demo_world ActionTypeOpen 0" demo_timeline _ "[]"] by auto

subsection \<open>Commands follow the action\<close>

text \<open>
  C10: Opening a disabled valve is refused without touching the device: no command is sent,
  the recorded state stays, the action is cancelled and kept in the history.
\<close>

theorem disabled_open_rejected:
  assumes "Disabled (config w)" "act_Type (w_acts w a) \<in> {ActionTypeOpen, ActionTypeOpenTimed}"
  shows "\<exists>w' h. execute c a w es = Some (w', es) \<and> w_sends w' = w_sends w \<and>
    vi_State (info w') = vi_State (info w) \<and> act_State (w_acts w' a) = ActionStateCancelled \<and>
    GetHistory w' = a # h \<and> GetCurrent w' = GetCurrent w"
proof -
  have "opens (act_Type (w_acts w a))" using assms(2) by (simp add: opens_alt)
  with assms(1) show ?thesis
    by (simp add: execute_unfold Let_def addToHistory_def upd_pl_def GetHistory_def GetCurrent_def history_put_def
        maxHistorySize_def take_Cons')
qed

theorem disabled_open_rejected_witness:
  "\<exists>w' h. execute pipeCtx 0 (demo_disabled ActionTypeOpen 0) [] = Some (w', []) \<and> w_sends w' = [] \<and>
    act_State (w_acts w' 0) = ActionStateCancelled \<and> GetHistory w' = 0 # h"
  using disabled_open_rejected [of "demo_disabled ActionTypeOpen 0" 0 pipeCtx "[]"]
  by (auto simp: demo_disabled_def upd_info_def upd_pl_def config_def newAction_eval)

text \<open>
  C11: An action that closes (a close or a keep-close) sends OFF commands only, and it never
  makes the recorded state open.
\<close>

theorem close_never_opens:
  assumes "execute c a w es = Some (w', es')" "wf_world w" "a < w_next_act w"
    and "act_Type (w_acts w a) \<in> {ActionTypeClose, ActionTypeKeepClose}"
  shows "(\<exists>xs. w_sends w' = w_sends w @ xs \<and> list_all (\<lambda>x. \<not> zs_power x) xs) \<and>
    (vi_State (info w) \<noteq> ValveStateOpen \<longrightarrow> vi_State (info w') \<noteq> ValveStateOpen)"
proof -
  have op: "\<not> opens (act_Type (w_acts w a))" using assms(4) by (auto simp: opens_alt)
  have ok: "waiters_ok w" using assms(2) by (simp add: wf_world_def)
  from assms(1) ok assms(3) have "\<exists>xs. w_sends w' = w_sends w @ xs \<and> list_all (\<lambda>x. \<not> zs_power x) xs"
  proof (cases rule: execute_outcomes)
    case (timed xs pre w2 es2 w3 es3 w4)
    then show ?thesis using op opens_effective [of a w] by (simp add: opens_alt)
  qed (use op in auto)
  moreover have "vi_State (info w') \<noteq> ValveStateOpen" if "vi_State (info w) \<noteq> ValveStateOpen"
    by (rule steps_position [OF execute_steps [OF assms(1,3)]]) (use op that in simp_all)
  ultimately show ?thesis by blast
qed

lemma demo_state: "vi_State (info (demo_world t d)) = ValveStateClosed"
  by (simp add: demo_world_def newPipeline_def demo_info_eval)

theorem close_never_opens_witness:
  "\<exists>w' es'. execute pipeCtx 0 (demo_world ActionTypeClose 0) [] = Some (w', es') \<and>
     list_all (\<lambda>x. \<not> zs_power x) (w_sends w') \<and> vi_State (info w') \<noteq> ValveStateOpen"
proof -
  obtain w' es' where run: "execute pipeCtx 0 (demo_world ActionTypeClose 0) [] = Some (w', es')"
    by (rule close_runE)
  from close_never_opens [OF run] have "list_all (\<lambda>x. \<not> zs_power x) (w_sends w')" "vi_State (info w') \<noteq> ValveStateOpen"
    by (auto simp: newAction_eval demo_state demo_info_eval)
  with run show ?thesis by blast
qed



text \<open>
  C13: The retry budget holds: an execution that is not refused makes at least one and at most
  \<open>RetryCount\<close> attempts, and the action's counter says so.
\<close>

theorem attempts_within_budget:
  assumes "execute c a w es = Some (w', es')" "wf_world w" "a < w_next_act w" "RetryCount (config w) > 0"
    and "\<not> (Disabled (config w) \<and> act_Type (w_acts w a) \<in> {ActionTypeOpen, ActionTypeOpenTimed})"
  shows "1 \<le> act_Attempts (w_acts w' a) \<and> act_Attempts (w_acts w' a) \<le> RetryCount (config w)"
proof -
  have ok: "waiters_ok (exec_start a w)" "a < w_next_act (exec_start a w)"
    using assms(2,3) by (simp_all add: wf_world_def)
  note att = attemptWithRetry_spec(3) [OF _ ok assms(4)]
  from assms(1) show ?thesis
  proof (cases rule: execute_cases)
    case rejected
    with assms(5) show ?thesis by (simp add: opens_alt)
  next
    case (failed e w2)
    from att [OF failed(2)] show ?thesis by (simp add: failed(3))
  next
    case (plain w2)
    from att [OF plain(2)] show ?thesis by (simp add: plain(4))
  next
    case (timed w2 es2 w3 es3 w4)
    let ?u = "exec_fulfilled a (opens (act_Type (w_acts w a))) w2"
    from timed(2) obtain xs :: "zbsend_call list" where "a < w_next_act w2" "waiters_ok w2"
      by (rule execute_attempt) (use assms(2,3) in \<open>simp_all add: wf_world_def\<close>)
    then have u: "a < w_next_act ?u" "waiters_ok ?u" by (simp_all add: waiters_ok_def)
    note h = exec_hold_spec [OF timed(4) u]
    have a3: "a < w_next_act w3" using h(5) u(1) by (simp add: world_le_def)
    from timed(5) h(4) a3 have "act_Attempts (w_acts w4 a) = act_Attempts (w_acts w2 a)"
      by (cases rule: exec_close_spec) (simp_all add: h(1) held_def)
    with att [OF timed(2)] show ?thesis by (simp add: timed(6))
  qed
qed

theorem attempts_within_budget_witness:
  "\<exists>w'. execute pipeCtx 0 (demo_world ActionTypeOpen 0) demo_timeline = Some (w', []) \<and>
     1 \<le> act_Attempts (w_acts w' 0) \<and> act_Attempts (w_acts w' 0) \<le> 2"
  using timed_run_typed attempts_within_budget
    [of pipeCtx 0 "demo_world ActionTypeOpen 0" demo_timeline _ "[]"] by (auto simp: demo_info_eval)

subsection \<open>The limit on open valves\<close>

text \<open>
  C31: The limit on open valves: on a valve with a maximal open duration an open request without
  a duration executes exactly like a timed open of that duration: the same world, the same
  part of the timeline, for every timeline.
\<close>

theorem indefinite_open_is_timed_open:
  assumes "act_Type (w_acts w a) = ActionTypeOpen" "0 < MaxOpenDuration (config w)"
  shows "execute c a w es =
    execute c a (upd_act a (\<lambda>x. x\<lparr> act_Type := ActionTypeOpenTimed, act_Duration := MaxOpenDuration (config w) \<rparr>) w) es"
proof -
  let ?w = "upd_act a (\<lambda>x. x\<lparr> act_Type := ActionTypeOpenTimed, act_Duration := MaxOpenDuration (config w) \<rparr>) w"
  have "config ?w = config w" by (simp add: config_def upd_act_def)
  moreover have "upd_act a (upgrade_open (config w)) ?w = upd_act a (upgrade_open (config w)) w"
    using assms by (simp add: upd_act_def upgrade_open_def)
  ultimately show ?thesis unfolding execute_def Let_def by (simp only:)
qed

theorem indefinite_open_is_timed_open_witness:
  "execute pipeCtx 0 (demo_world ActionTypeOpen 0) demo_timeline =
   execute pipeCtx 0 (upd_act 0 (\<lambda>x. x\<lparr> act_Type := ActionTypeOpenTimed, act_Duration := 100 \<rparr>) (demo_world ActionTypeOpen 0)) demo_timeline"
  using indefinite_open_is_timed_open [of "demo_world ActionTypeOpen 0" 0 pipeCtx demo_timeline]
  by (simp add: newAction_eval demo_info_eval)

end
