(* ===== verification/Requests.thy ===== *)
theory Requests
  imports ApiProps Queue Safety
begin

text \<open>
  From a request to the device: the REST handler, the scheduler's registry and the goroutine
  of the valve put together.
\<close>

subsection \<open>Taking an action from the queue\<close>

lemma run_once_takes:
  assumes "p_actionCh (w_pl w) = a # as" "\<not> ctx_done w c"
  shows "run_once c pick w es =
    map_option (\<lambda>(w, es). (True, w, es)) (execute c a (upd_pl (\<lambda>p. p\<lparr> p_actionCh := tl (p_actionCh p) \<rparr>) w) es)"
  using assms by (simp add: run_once_def wait_ready Let_def bind_map_option o_def map_option_case split: option.splits)

lemma focus_map:
  "map_of (s_pipelines s) k = Some p \<Longrightarrow> Open k d s = (Inr a, s') \<Longrightarrow> map_of (s_pipelines s') k = Some q \<Longrightarrow>
   focus s' q = Enqueue a (snd (alloc_act (vi_Name (p_info p)) (vi_Namespace (p_info p))
      (if d > 0 then ActionTypeOpenTimed else ActionTypeOpen) d (focus s p)))"
  by (auto simp: Open_def getPipeline_def GetInfo_def focus_def unfocus_def Let_def split_beta update_conv' split: if_splits)

lemma alloc_act_fst [simp]: "fst (alloc_act n ns t d w) = w_next_act w"
  by (simp add: alloc_act_def Let_def)

text \<open>What holds when the goroutine of a valve takes the action just enqueued.\<close>

definition idle :: "pipeline \<Rightarrow> bool" where
  "idle p \<longleftrightarrow> p_actionCh p = [] \<and> p_current p = None"

lemma Enqueue_idle:
  assumes "idle (w_pl w)" "wf_world w" "a < w_next_act w"
  shows "p_actionCh (w_pl (Enqueue a w)) = [a]" "p_current (w_pl (Enqueue a w)) = None"
    "p_cancelFn (w_pl (Enqueue a w)) = None" "wf_world (Enqueue a w)"
proof -
  have c: "p_cancelFn (w_pl w) = None" using assms(1,2) by (simp add: idle_def wf_world_def slots_ok_def)
  show "p_actionCh (w_pl (Enqueue a w)) = [a]" "p_current (w_pl (Enqueue a w)) = None"
    "p_cancelFn (w_pl (Enqueue a w)) = None"
    using assms(1) c by (simp_all add: Enqueue_def Let_def upd_pl_def idle_def chan_put_def actionCh_cap_def)
  show "wf_world (Enqueue a w)" by (rule steps_wf [OF Enqueue_steps [OF assms(3)] assms(2)])
qed

lemma timed_request_executed:
  assumes "idle (w_pl w)" "wf_world w" "\<not> ctx_done w c" "\<forall>n. w_paho w n \<noteq> PubNever" "d > 0" "RetryCount (config w) > 0"
    and v: "v = Enqueue (w_next_act w) (snd (alloc_act name ns ActionTypeOpenTimed d w))"
  obtains w' es' h where "run_once c pick v es = Some (True, w', es')"
    "act_ID (w_acts w' (w_next_act w)) = act_ID (w_acts v (w_next_act w))"
    "IsTerminal (w_acts w' (w_next_act w))" "finished_action (w_now w') (w_acts w' (w_next_act w))" "p_current (w_pl w') = None" "p_history (w_pl w') = w_next_act w # h"
    "act_State (w_acts w' (w_next_act w)) = ActionStateFulfilled \<Longrightarrow> vi_State (info w') = ValveStateClosed"
    "\<And>t. act_FulfilledAt (w_acts w' (w_next_act w)) = Some t \<Longrightarrow>
       \<exists>off \<in> set (drop (length (w_sends w)) (w_sends w')). \<not> zs_power off \<and> t \<le> zs_time off \<and> zs_time off \<le> t + d"
proof -
  let ?a = "w_next_act w"
  let ?w1 = "snd (alloc_act name ns ActionTypeOpenTimed d w)"
  let ?u = "upd_pl (\<lambda>p. p\<lparr> p_actionCh := tl (p_actionCh p) \<rparr>) v"
  have w1: "idle (w_pl ?w1)" "?a < w_next_act ?w1" "wf_world ?w1"
    using assms(1,2) steps_wf [OF step1 [OF atomic.alloc]] by (simp_all add: idle_def alloc_act_def Let_def)
  note e = Enqueue_idle [OF w1(1,3,2), folded v]
  have a: "act_Type (w_acts v ?a) = ActionTypeOpenTimed" "act_Duration (w_acts v ?a) = d"
    "fresh_action (w_now w) (w_acts v ?a)" "?a < w_next_act v" "w_cancelled v = w_cancelled w" "w_now v = w_now w"
    "w_paho v = w_paho w" "config v = config w" "w_sends v = w_sends w"
    using assms(1,2) by (auto simp: v Enqueue_def Let_def alloc_act_def fresh_action_def newAction_def upd_pl_def config_def idle_def
        wf_world_def slots_ok_def split: option.splits)
  have u: "wf_world ?u" using steps_wf [OF step1 [OF atomic.take] e(4)] .
  have eff: "effective ?a ?u = w_acts v ?a" using a(1) by (simp add: effective_def upgrade_open_def upd_pl_def)
  obtain w' es' where ex: "execute c ?a ?u es = Some (w', es')"
    using execute_total [of c ?u ?a es] assms(4) a(7) by (auto simp: upd_pl_def)
  have st: "act_Type (w_acts w' ?a) = ActionTypeOpenTimed" "act_Duration (w_acts w' ?a) = d"
    and ident: "act_ID (w_acts w' ?a) = act_ID (w_acts v ?a)"
    using execute_static [OF ex] a(1,2,4) unfolding eff by (simp_all add: upd_pl_def act_static_def)
  have "run_once c pick v es = Some (True, w', es')"
    using run_once_takes [of v ?a "[]" c pick es] e(1) assms(3) a(5,6) ex by (simp add: ctx_done_def ctx_err_def)
  moreover have "finished_action (w_now w') (w_acts w' ?a)"
    using execute_record [OF ex] u a(3,4,6) by (simp add: upd_pl_def wf_world_def)
  moreover have "IsTerminal (w_acts w' ?a)" "p_current (w_pl w') = None" "\<exists>h. p_history (w_pl w') = ?a # h"
    using execute_ends [OF ex u] a(1,4) e(2)
    by (auto simp: upd_pl_def GetCurrent_def GetHistory_def IsInternalSafetyPing_def)
  moreover have "vi_State (info w') = ValveStateClosed" if "act_State (w_acts w' ?a) = ActionStateFulfilled"
    using execute_timed [OF ex u _ st(1) disjI2 [OF that]] a(4) that by (auto simp: upd_pl_def)
  moreover have "\<exists>off \<in> set (drop (length (w_sends w)) (w_sends w')). \<not> zs_power off \<and> t \<le> zs_time off \<and> zs_time off \<le> t + d"
    if t: "act_FulfilledAt (w_acts w' ?a) = Some t" for t
    using execute_off_in_time [OF ex u _ st(1) _ t] a(3,4,8,9) st(2) assms(5,6) by (auto simp: fresh_action_def upd_pl_def config_def)
  ultimately show ?thesis using that ident by blast
qed

lemma GetAction_newest:
  assumes "p_current (w_pl w) = None" "p_history (w_pl w) = a # h"
  shows "GetAction k (act_ID (w_acts w a)) (unfocus s k w) = Inr a"
  using assms by (simp add: GetAction_def getPipeline_def unfocus_def update_conv' focus_def GetHistory_def GetCurrent_def)

end
