(* ===== verification/Records.thy ===== *)
theory Records
  imports Requests
begin

text \<open>
  The lists of actions a pipeline shows: what is pending in the queue and what is in the
  history, round after round of the main loop, whatever arrives meanwhile.
\<close>

subsection \<open>The lists\<close>

text \<open>
  \<open>X\<close> are the actions the executing goroutine works on: they are in neither list. Pending actions
  are new, those of the history are finished, and no action is listed twice.
\<close>

definition lists_ok :: "actref set \<Rightarrow> world \<Rightarrow> bool" where
  "lists_ok X w \<longleftrightarrow> X \<subseteq> {..<w_next_act w} \<and>
     distinct (p_actionCh (w_pl w) @ p_history (w_pl w)) \<and>
     (\<forall>r \<in> set (p_actionCh (w_pl w)). r < w_next_act w \<and> r \<notin> X \<and> fresh_action (w_now w) (w_acts w r)) \<and>
     (\<forall>r \<in> set (p_history (w_pl w)). r < w_next_act w \<and> r \<notin> X \<and> finished_action (w_now w) (w_acts w r))"

lemma fresh_later: "fresh_action t x \<Longrightarrow> t \<le> t' \<Longrightarrow> fresh_action t' x"
  by (simp add: fresh_action_def)

lemma finished_later: "finished_action t x \<Longrightarrow> t \<le> t' \<Longrightarrow> finished_action t' x"
  unfolding finished_action_def by (blast intro: order_trans)

text \<open>A step that writes only actions of \<open>X\<close> and leaves the lists alone keeps them in order.\<close>

lemma lists_frame0:
  assumes "lists_ok X w" "w_next_act w \<le> w_next_act w'" "w_now w \<le> w_now w'"
    and "\<And>r. r < w_next_act w \<Longrightarrow> r \<notin> X \<Longrightarrow> w_acts w' r = w_acts w r"
    and "p_actionCh (w_pl w') = p_actionCh (w_pl w)" "p_history (w_pl w') = p_history (w_pl w)"
  shows "lists_ok X w'"
  using assms(1,2,4) fresh_later [OF _ assms(3)] finished_later [OF _ assms(3)]
  unfolding lists_ok_def assms(5,6) by (fastforce dest: less_le_trans)

lemma lists_frame:
  assumes "lists_ok X w" "steps X P w w'" "p_actionCh (w_pl w') = p_actionCh (w_pl w)" "p_history (w_pl w') = p_history (w_pl w)"
  shows "lists_ok X w'"
  using assms(1) _ _ _ assms(3,4)
proof (rule lists_frame0)
  show "w_next_act w \<le> w_next_act w'" "w_now w \<le> w_now w'"
    using steps_le [OF assms(2)] by (simp_all add: world_le_def)
  show "w_acts w' r = w_acts w r" if "r < w_next_act w" "r \<notin> X" for r
    using steps_acts [OF assms(2) that(1)] that(2) by simp
qed

text \<open>A new action joins the queue, which may lose its oldest.\<close>

lemma lists_Enqueue:
  assumes "lists_ok X w" "a < w_next_act w" "a \<notin> X" "fresh_action (w_now w) (w_acts w a)"
    and "a \<notin> set (p_actionCh (w_pl w))" "a \<notin> set (p_history (w_pl w))"
  shows "lists_ok X (Enqueue a w)"
proof -
  have ch: "distinct (chan_put a q) \<and> set (chan_put a q) \<subseteq> insert a (set q)" if "distinct q" "a \<notin> set q" for q
    using that by (cases q) (auto simp: chan_put_def)
  let ?w = "case p_cancelFn (w_pl w) of
    Some c \<Rightarrow> if act_Type (w_acts w a) = ActionTypeClose then cancel_ctx c w else w | None \<Rightarrow> w"
  have "lists_ok X ?w" using assms(1) by (auto simp: lists_ok_def split: option.splits)
  with assms ch [of "p_actionCh (w_pl w)"] show ?thesis
    by (auto simp: Enqueue_def Let_def lists_ok_def upd_pl_def split: option.splits)
qed

lemma lists_request:
  assumes "lists_ok X w"
  shows "lists_ok X (snd (request t d w))"
proof -
  let ?v = "snd (alloc_act (vi_Name (info w)) (vi_Namespace (info w)) t d w)"
  have al: "w_next_act ?v = Suc (w_next_act w)" "w_pl ?v = w_pl w" "w_now ?v = w_now w"
    "fresh_action (w_now w) (w_acts ?v (w_next_act w))"
    by (simp_all add: alloc_act_def Let_def)
  have "steps {} {} w ?v" by (rule step1 [OF atomic.alloc])
  then have "steps X {} w ?v" by (rule steps_mono) simp_all
  from lists_frame [OF assms this] al(2) have "lists_ok X ?v" by simp
  moreover have "w_next_act w \<notin> X" "w_next_act w \<notin> set (p_actionCh (w_pl w))" "w_next_act w \<notin> set (p_history (w_pl w))"
    using assms by (auto simp: lists_ok_def)
  ultimately have "lists_ok X (Enqueue (w_next_act w) ?v)" using al by (intro lists_Enqueue) simp_all
  then show ?thesis by (simp add: request_def split_beta)
qed

lemma fold_pl: "(\<And>x w. w_pl (f x w) = w_pl w) \<Longrightarrow> w_pl (fold f xs w) = w_pl w"
  by (induction xs arbitrary: w) simp_all

lemma waiter_handler_pl: "w_pl (waiter_handler i ev w) = w_pl w"
  by (simp add: waiter_handler_def close_cell_simps)

lemma dispatch_pl: "w_pl (fold dispatch_event evs w) = w_pl w"
  unfolding dispatch_event_def by (intro fold_pl waiter_handler_pl)

lemma external_lists:
  "(\<And>t d. e \<noteq> Request t d) \<Longrightarrow> p_actionCh (w_pl (external_step e w)) = p_actionCh (w_pl w) \<and>
     p_history (w_pl (external_step e w)) = p_history (w_pl w)"
  by (cases e) (auto simp: dispatch_pl ping_apply_def update_sensor_def UpdateConfig_def Let_def split_beta upd_info_def upd_pl_def upd_metrics_def
      split: option.splits)

lemma lists_external: "lists_ok X w \<Longrightarrow> lists_ok X (external_step e w)"
proof (cases "\<exists>t d. e = Request t d")
  case False
  assume "lists_ok X w"
  moreover have "steps X {False} w (external_step e w)" by (rule external_steps) simp
  moreover have "p_actionCh (w_pl (external_step e w)) = p_actionCh (w_pl w) \<and> p_history (w_pl (external_step e w)) = p_history (w_pl w)"
    using False by (intro external_lists) blast
  ultimately show ?thesis by (blast intro: lists_frame)
qed (auto simp: lists_request)

lemma lists_keep:
  "lists_ok X w \<Longrightarrow> lists_ok X (advance t w)" "lists_ok X w \<Longrightarrow> lists_ok X (cancel_ctx i w)"
  "lists_ok X w \<Longrightarrow> lists_ok X (log_send b dev p pub w)" "lists_ok X w \<Longrightarrow> lists_ok X (applyDeviceState p w)"
  "lists_ok X w \<Longrightarrow> lists_ok X (updateActionID aid w)" "lists_ok X w \<Longrightarrow> lists_ok X (markCloseUnconfirmed w)"
proof -
  note fr = lists_frame [where X = X and w = w]
  show "lists_ok X w \<Longrightarrow> lists_ok X (advance t w)" by (erule fr [OF _ advance_steps]) simp_all
  show "lists_ok X w \<Longrightarrow> lists_ok X (cancel_ctx i w)" by (erule fr [OF _ cancel_ctx_steps]) simp_all
  show "lists_ok X w \<Longrightarrow> lists_ok X (log_send b dev p pub w)"
    by (erule fr [OF _ step1 [OF atomic.send]]) (simp_all add: log_send_def)
  show "lists_ok X w \<Longrightarrow> lists_ok X (applyDeviceState p w)"
    by (erule fr [OF _ applyDeviceState_steps [OF UNIV_I]]) simp_all
  show "lists_ok X w \<Longrightarrow> lists_ok X (updateActionID aid w)"
    by (erule fr [OF _ updateActionID_steps]) (simp_all add: updateActionID_def pipeline_ops)
  show "lists_ok X w \<Longrightarrow> lists_ok X (markCloseUnconfirmed w)"
    by (erule fr [OF _ markCloseUnconfirmed_steps]) (simp_all add: markCloseUnconfirmed_def pipeline_ops)
qed

interpretation lists: rely external_step "\<lambda>_. True" "lists_ok X" for X
  by unfold_locales (simp_all add: lists_keep lists_external)


subsection \<open>An execution\<close>

lemma lists_attempt_once:
  assumes "lists_ok X w" "a \<in> X" "attempt_once c a pwr timeout n w es = Some (res, w', es')"
  shows "lists_ok X w'"
proof -
  from assms(3) obtain cid wc w1 pub w2 es2 w3 where
    set: "attempt_setup c a pwr timeout n w = (info w, cid, wc, length (w_cells w), w1)"
    and lp: "send_loop external_step c wc (vi_BridgeName (info w)) (CommandTarget (info w)) pwr
      (nat (sendCount pwr (info w))) 0 False w1 es = Some (pub, w2, es2)"
    and w': "w' = cancel_ctx cid w3"
    and fin: "\<not> pub \<and> res = Unpublished \<and> w3 = w2 \<and> es' = es2 \<or>
     pub \<and> block (\<lambda>w. cell_ch w (length (w_cells w1) - 1) \<noteq> None) (ctx_deadline wc) w2 es2 = Some (w3, es') \<and>
       (res = Confirmed \<longleftrightarrow> the (cell_ch w3 (length (w_cells w1) - 1)) = None) \<and>
       (\<forall>e. res = AttemptCtx e \<longrightarrow> ctx_err w' c = Some e) \<and> (res = TimedOut \<longrightarrow> ctx_err w' c = None) \<and>
       res \<noteq> Unpublished"
    by (rule attempt_onceE)
  have "lists_ok X w1" using attempt_setup_spec [OF set] assms(2) by (intro lists_frame0 [OF assms(1)]) auto
  then have "lists_ok X w2" using lists.send_loop_rely [OF lp, of X] by (auto simp: list_all_iff)
  then have "lists_ok X w3" using fin lists.wait_rely [of _ _ w2 es2 w3 es' X] by (auto simp: list_all_iff)
  then show ?thesis unfolding w' by (rule lists_keep)
qed

lemma lists_set_state: "lists_ok X w \<Longrightarrow> a \<in> X \<Longrightarrow> lists_ok X (set_state a s w)"
  by (erule lists_frame0) auto

lemma lists_attempt_loop:
  "attempt_loop c a pwr rc timeout k n w es = Some (err, w', es') \<Longrightarrow> lists_ok X w \<Longrightarrow> a \<in> X \<Longrightarrow> lists_ok X w'"
proof (induction k arbitrary: n w es)
  case 0
  then show ?case by simp
next
  case (Suc k)
  from Suc.prems(1) show ?case
  proof (cases rule: attempt_loop_SucE)
    case (confirmed w1)
    with lists_attempt_once [OF Suc.prems(2,3) confirmed(1)] show ?thesis by (simp add: lists_keep)
  next
    case (cancelled e w1)
    with lists_attempt_once [OF Suc.prems(2,3) cancelled(1)] Suc.prems(3) show ?thesis by (simp add: lists_set_state)
  next
    case (again res w1 es1)
    from Suc.IH [OF again(2) lists_attempt_once [OF Suc.prems(2,3) again(1)] Suc.prems(3)] show ?thesis .
  qed
qed

lemma lists_attemptWithRetry:
  "attemptWithRetry c a pwr rc timeout w es = Some (err, w', es') \<Longrightarrow> lists_ok X w \<Longrightarrow> a \<in> X \<Longrightarrow> lists_ok X w'"
  unfolding attemptWithRetry_def by (erule lists_attempt_loop) (simp_all add: lists_set_state)

lemma lists_parts:
  assumes "lists_ok X w" "a \<in> X"
  shows "lists_ok X (exec_start a w)" "lists_ok X (exec_failed a pwr e w)" "lists_ok X (exec_fulfilled a pwr w)"
    "lists_ok X (exec_closed a err w)"
proof -
  have st: "p_actionCh (w_pl (exec_start a w)) = p_actionCh (w_pl w) \<and> p_history (w_pl (exec_start a w)) = p_history (w_pl w)"
    by (simp add: exec_start_def exec_begin_def new_ctx_def upd_pl_def)
  show "lists_ok X (exec_start a w)" using assms st by (intro lists_frame0 [OF assms(1)]) auto
  show "lists_ok X (exec_fulfilled a pwr w)" using assms by (intro lists_frame0 [OF assms(1)]) auto
  have "p_actionCh (w_pl (markCloseUnconfirmed v)) = p_actionCh (w_pl v)" for v
    by (simp add: markCloseUnconfirmed_def pipeline_ops)
  then have pl: "p_actionCh (w_pl (exec_failed a pwr e w)) = p_actionCh (w_pl w)" "p_history (w_pl (exec_failed a pwr e w)) = p_history (w_pl w)"
    "p_actionCh (w_pl (exec_closed a err w)) = p_actionCh (w_pl w)" "p_history (w_pl (exec_closed a err w)) = p_history (w_pl w)"
    by (auto simp: exec_failed_def exec_closed_def spawn_check_def count_action_def upd_metrics_def Let_def split: option.splits)
  show "lists_ok X (exec_failed a pwr e w)"
    by (rule lists_frame [OF assms(1) exec_failed_steps [OF assms(2)] pl(1,2)])
  show "lists_ok X (exec_closed a err w)"
    by (rule lists_frame [OF assms(1) exec_closed_steps [OF assms(2)] pl(3,4)])
qed

lemma lists_hold:
  assumes "exec_hold c a w es = Some (w', es')" "lists_ok X w" "a \<in> X"
  shows "lists_ok X w'"
proof -
  let ?v = "upd_act a (\<lambda>x. x\<lparr> act_ExpiresAt := Some (w_now w + act_Duration x), act_State := ActionStateClosing \<rparr>) w"
  have "lists_ok X ?v" using assms(3) by (intro lists_frame0 [OF assms(2)]) auto
  with lists.wait_rely [OF assms(1) [unfolded exec_hold_def Let_def], of X] lists_keep(5) show ?thesis
    by (auto simp: list_all_iff)
qed

lemma lists_close:
  assumes "exec_close a cfg w es = Some (w', es')" "lists_ok X w" "a \<in> X"
  shows "lists_ok X w'"
proof -
  let ?w1 = "snd (new_ctx w)"
  let ?al = "alloc_act (act_ValveName (w_acts w a)) (act_Namespace (w_acts w a)) ActionTypeClose 0 ?w1"
  let ?c = "WithDeadline (w_now w + 2 * Minute) (WithCancel (w_next_ctx w) Background)"
  from assms(1) obtain err w2 where
    att: "attemptWithRetry ?c (fst ?al) False (RetryCount cfg) (CommandTimeout cfg) (snd ?al) es = Some (err, w2, es')"
    and w': "w' = exec_closed a err (cancel_ctx (w_next_ctx w) w2)"
    by (auto simp: exec_close_def new_ctx_def Let_def split_beta bind_eq_Some_conv)
  have "lists_ok (insert (w_next_act w) X) (snd ?al)"
    using assms(2) by (auto simp: lists_ok_def alloc_act_def new_ctx_def Let_def)
  from lists_attemptWithRetry [OF att this] have "lists_ok (insert (w_next_act w) X) w2"
    by (simp add: new_ctx_def)
  then have "lists_ok X w2" by (auto simp: lists_ok_def)
  then show ?thesis unfolding w' by (intro lists_parts(4) lists_keep(2) assms(3))
qed

lemma lists_finish:
  assumes "lists_ok {a} w" "finished_action (w_now w) (w_acts w a)"
  shows "lists_ok {} (exec_finish i a w)" "lists_ok {} (addToHistory a w)"
proof -
  have put: "distinct (history_put a h) \<and> set (history_put a h) \<subseteq> insert a (set h)" if "distinct h" "a \<notin> set h" for h
    using that set_take_subset [of "maxHistorySize" "a # h"] distinct_take [of "a # h" maxHistorySize]
    by (auto simp: history_put_def Let_def)
  have h: "distinct (p_history (w_pl w))" "a \<notin> set (p_history (w_pl w))" "a \<notin> set (p_actionCh (w_pl w))" "a < w_next_act w"
    using assms(1) by (auto simp: lists_ok_def)
  have ch: "p_actionCh (w_pl (exec_finish i a w)) = p_actionCh (w_pl w)"
    by (simp add: exec_finish_def Let_def upd_pl_def addToHistory_def)
  note hp = put [OF h(1,2)]
  show "lists_ok {} (addToHistory a w)"
    using assms h hp by (auto simp: lists_ok_def addToHistory_def upd_pl_def)
  show "lists_ok {} (exec_finish i a w)"
    using assms h hp by (auto simp: lists_ok_def ch)
qed

lemma lists_execute:
  assumes "execute c a w es = Some (w', es')" "waiters_ok w" "lists_ok {a} w" "fresh_action (w_now w) (w_acts w a)"
  shows "lists_ok {} w'"
proof -
  have a: "a \<in> {a}" "a < w_next_act w" using assms(3) by (auto simp: lists_ok_def)
  note fin = execute_record [OF assms(1,2) a(2) assms(4)]
  note start = lists_parts(1) [OF assms(3) a(1)]
  from assms(1) show ?thesis
  proof (cases rule: execute_cases)
    case rejected
    have "lists_ok {a} (set_state a ActionStateCancelled (upd_act a (upgrade_open (config w)) w))"
      by (intro lists_frame0 [OF assms(3)]) auto
    with fin show ?thesis unfolding rejected(4) by (intro lists_finish(2)) (simp_all add: addToHistory_def upd_pl_def)
  next
    case (failed e w2)
    from lists_parts(2) [OF lists_attemptWithRetry [OF failed(2) start a(1)] a(1)] fin show ?thesis
      unfolding failed(3) by (intro lists_finish(1)) simp_all
  next
    case (plain w2)
    from lists_keep(5) [OF lists_parts(3) [OF lists_attemptWithRetry [OF plain(2) start a(1)] a(1)]] fin show ?thesis
      unfolding plain(4) by (intro lists_finish(1)) simp_all
  next
    case (timed w2 es2 w3 es3 w4)
    from lists_keep(5) [OF lists_close [OF timed(5) lists_hold [OF timed(4)
      lists_parts(3) [OF lists_attemptWithRetry [OF timed(2) start a(1)] a(1)] a(1)] a(1)]] fin show ?thesis
      unfolding timed(6) by (intro lists_finish(1)) simp_all
  qed
qed


subsection \<open>A round of the main loop\<close>

lemma current_external: "p_current (w_pl (external_step e w)) = p_current (w_pl w)"
  by (cases e) (auto simp: dispatch_pl ping_apply_def update_sensor_def UpdateConfig_def request_def alloc_act_def Enqueue_def
      Let_def split_beta upd_info_def upd_pl_def upd_metrics_def split: option.splits)

interpretation current: stable external_step "\<lambda>_. True" "\<lambda>w. p_current (w_pl w) = x" for x
  by unfold_locales (simp_all add: current_external)

lemma order_execute:
  assumes "execute c a w es = Some (w', es')" "wf_world w" "GetCurrent w = None" "lists_ok {a} w"
    "fresh_action (w_now w) (w_acts w a)"
  shows "wf_world w' \<and> GetCurrent w' = None \<and> lists_ok {} w'"
proof -
  have a: "a < w_next_act w" "waiters_ok w" using assms(2,4) by (auto simp: lists_ok_def wf_world_def)
  have "wf_world (upd_act a (upgrade_open (config w)) w)"
    using assms(2) by (simp add: wf_world_def waiters_ok_def slots_ok_def)
  from steps_wf [OF execute_steps [OF assms(1) a(1)] this] execute_ends [OF assms(1,2) a(1) assms(3)]
    lists_execute [OF assms(1) a(2) assms(4,5)] show ?thesis by blast
qed

text \<open>
  C9: Every round of the main loop, whatever requests, cancellations, messages and
  reconfigurations arrive before and during it, and also the round that shuts the pipeline
  down, keeps the pipeline in order: no action is current between rounds; the queue and the
  history are bounded and hold existing actions, none of them twice or in both; every
  pending action is still new; every action of the history is finished, with the times and
  error that fit its state and type; exactly the unfinished waiters are subscribed.
\<close>

theorem round_keeps_order:
  assumes "run_once c pick w es = Some (goes_on, w', es')" "wf_world w" "GetCurrent w = None" "lists_ok {} w"
  shows "wf_world w' \<and> GetCurrent w' = None \<and> lists_ok {} w'"
proof -
  from assms(1) obtain v es1 where bl: "block (\<lambda>w. p_actionCh (w_pl w) \<noteq> [] \<or> ctx_done w c) None w es = Some (v, es1)"
    and rest: "(if p_actionCh (w_pl v) \<noteq> [] \<and> (pick \<or> \<not> ctx_done v c) then
          (let a = hd (p_actionCh (w_pl v)); w = upd_pl (\<lambda>p. p\<lparr> p_actionCh := tl (p_actionCh p) \<rparr>) v
           in do { (w, es) \<leftarrow> execute c a w es1; Some (True, w, es) })
        else if getState v = ValveStateOpen then
          (let i = GetInfo v; (cid, w) = new_ctx v; closeCtx = WithDeadline (w_now w + 2 * Minute) (WithCancel cid Background);
               (a, w) = alloc_act (vi_Name i) (vi_Namespace i) ActionTypeClose 0 w
           in do { (w, es) \<leftarrow> execute closeCtx a w es1; Some (False, cancel_ctx cid w, es) })
        else Some (False, v, es1)) = Some (goes_on, w', es')"
    by (auto simp: run_once_def bind_eq_Some_conv)
  have v: "wf_world v" "GetCurrent v = None" "lists_ok {} v"
    using steps_wf [OF block_steps [OF bl, of "{}" "{}"] assms(2)] current.wait_rely [OF bl, of None]
      lists.wait_rely [OF bl, of "{}"] assms(3,4) by (auto simp: list_all_iff GetCurrent_def)
  consider (take) "p_actionCh (w_pl v) \<noteq> [] \<and> (pick \<or> \<not> ctx_done v c)"
    | (stop) "\<not> (p_actionCh (w_pl v) \<noteq> [] \<and> (pick \<or> \<not> ctx_done v c))" "getState v = ValveStateOpen"
    | (gone) "\<not> (p_actionCh (w_pl v) \<noteq> [] \<and> (pick \<or> \<not> ctx_done v c))" "getState v \<noteq> ValveStateOpen" by blast
  then show ?thesis
  proof cases
    case take
    let ?a = "hd (p_actionCh (w_pl v))" and ?v = "upd_pl (\<lambda>p. p\<lparr> p_actionCh := tl (p_actionCh p) \<rparr>) v"
    from take rest have ex: "execute c ?a ?v es1 = Some (w', es')" by (auto simp: Let_def bind_eq_Some_conv)
    have q: "p_actionCh (w_pl v) = ?a # tl (p_actionCh (w_pl v))" using take by simp
    have "wf_world ?v" by (rule steps_wf [OF step1 [OF atomic.take] v(1)])
    moreover have "lists_ok {?a} ?v" "fresh_action (w_now ?v) (w_acts ?v ?a)"
      using v(3) take by (cases "p_actionCh (w_pl v)"; auto simp: lists_ok_def upd_pl_def)+
    ultimately show ?thesis using order_execute [OF ex] v(2) by (simp add: GetCurrent_def upd_pl_def)
  next
    case stop
    let ?w1 = "snd (new_ctx v)"
    let ?al = "alloc_act (vi_Name (info v)) (vi_Namespace (info v)) ActionTypeClose 0 ?w1"
    let ?c = "WithDeadline (w_now v + 2 * Minute) (WithCancel (w_next_ctx v) Background)"
    from stop rest obtain u where ex: "execute ?c (fst ?al) (snd ?al) es1 = Some (u, es')" and w': "w' = cancel_ctx (w_next_ctx v) u"
      by (auto simp: Let_def bind_eq_Some_conv split_beta new_ctx_def GetInfo_def)
    have "wf_world (snd ?al)" by (rule steps_wf [OF steps_then [OF step1 [OF atomic.context_new] atomic.alloc] v(1)])
    moreover have "lists_ok {fst ?al} (snd ?al)" "fresh_action (w_now (snd ?al)) (w_acts (snd ?al) (fst ?al))"
      "GetCurrent (snd ?al) = None"
      using v(2,3) by (auto simp: lists_ok_def alloc_act_def new_ctx_def Let_def GetCurrent_def)
    ultimately have "wf_world u \<and> GetCurrent u = None \<and> lists_ok {} u" using order_execute [OF ex] by blast
    with steps_wf [OF cancel_ctx_steps] show ?thesis unfolding w' by (auto simp: GetCurrent_def lists_keep)
  next
    case gone
    with rest v show ?thesis by auto
  qed
qed

theorem round_keeps_order_witness:
  "\<exists>w' es'. run_once (WithCancel 0 Background) True (Enqueue 0 (demo_world ActionTypeClose 0)) [] = Some (True, w', es') \<and>
     wf_world w' \<and> GetCurrent w' = None \<and> lists_ok {} w'"
proof -
  let ?w = "demo_world ActionTypeClose 0" and ?c = "WithCancel 0 Background"
  have "lists_ok {} ?w" by (simp add: lists_ok_def demo_world_def newPipeline_def)
  then have ok: "lists_ok {} (Enqueue 0 ?w)" by (intro lists_Enqueue) (simp_all add: demo_world_def newPipeline_def)
  have wf: "wf_world (Enqueue 0 ?w)" by (rule steps_wf [OF Enqueue_steps]) simp_all
  have q: "p_actionCh (w_pl (Enqueue 0 ?w)) = [0]" "\<not> ctx_done (Enqueue 0 ?w) ?c" "GetCurrent (Enqueue 0 ?w) = None"
    "w_paho (Enqueue 0 ?w) n \<noteq> PubNever" for n
    by (simp_all add: Enqueue_def Let_def upd_pl_def chan_put_def actionCh_cap_def ctx_done_def ctx_err_def GetCurrent_def)
  obtain w' es' where "run_once ?c True (Enqueue 0 ?w) [] = Some (True, w', es')"
    using run_once_takes [of "Enqueue 0 ?w" 0 "[]" ?c True "[]"] execute_total [of ?c _ 0 "[]"] q
    by (fastforce simp: upd_pl_def)
  with round_keeps_order [OF this wf q(3) ok] show ?thesis by blast
qed

end
