(* ===== verification/MqttProps.thy ===== *)
theory MqttProps
  imports Bridge
begin

text \<open>
  Properties of the MQTT side: delivery of sensor events to subscribers, what a payload is
  read as, the registry of bridge clients, and concurrent status queries.
\<close>

subsection \<open>Dispatching\<close>

definition ev_of :: "string \<Rightarrow> string \<Rightarrow> int option \<Rightarrow> SensorEvent" where
  "ev_of dev addr p = \<lparr> ev_BridgeName = ''b'', ev_DeviceName = dev, ev_ShortAddr = addr, ev_Power = p,
     ev_LinkQuality = None, ev_BatteryPercentage = None, ev_DailyIrrigationVolume = None,
     ev_LastValveOpenDuration = None, ev_IrrigationEndTime = None \<rparr>"

text \<open>
  C35: A subscriber receives an event exactly when the event carries the identifier it
  subscribed with, as friendly name or as short address (short addresses in any letter
  case), it receives it once, and a new subscription changes nothing for the others.
\<close>

theorem delivered_once_to_matching_subscribers:
  assumes "disp_inv d" "Subscribe d n h = (i, d')"
  shows "((i, h) \<in> set (Dispatch_pairs d' ev) \<longleftrightarrow>
      n \<noteq> '''' \<and> (dispatchKey (ev_DeviceName ev) = dispatchKey n \<or> dispatchKey (ev_ShortAddr ev) = dispatchKey n)) \<and>
    distinct (map fst (Dispatch_pairs d' ev)) \<and>
    (\<forall>j g. j \<noteq> i \<longrightarrow> ((j, g) \<in> set (Dispatch_pairs d' ev) \<longleftrightarrow> (j, g) \<in> set (Dispatch_pairs d ev)))"
proof -
  have "disp_inv d'" using disp.inv_subscribe [OF assms(1), of n h] assms(2) by simp
  then show ?thesis
    using disp.deliver_new [OF assms] disp.deliver_others [OF assms] disp.deliver_once [of d' ev]
    by (auto simp: event_covers_def)
qed

theorem delivered_once_to_matching_subscribers_witness:
  "(1, True) \<in> set (Dispatch_pairs (snd (Subscribe NewDispatcher ''0xda76'' True)) (ev_of ''garden'' ''0xDA76'' None))"
proof -
  have k: "dispatchKey ''0xda76'' = dispatchKey ''0xDA76''" by code_simp
  obtain d' where "Subscribe NewDispatcher ''0xda76'' True = (1, d')"
    by (simp add: Subscribe_def NewDispatcher_def Let_def)
  from delivered_once_to_matching_subscribers [OF disp_inv_New this, of "ev_of ''garden'' ''0xDA76'' None"] this
  show ?thesis by (simp add: ev_of_def k)
qed

text \<open>
  Unsubscribing undoes a subscription: afterwards every event goes to exactly the
  subscribers it went to before, and no list for the device is left behind.
\<close>

theorem unsubscribe_undoes_subscribe:
  assumes "disp_inv d" "Subscribe d n h = (i, d')"
  shows "set (Dispatch_pairs (Unsubscribe d' n i) ev) = set (Dispatch_pairs d ev) \<and>
    (dispatchKey n \<notin> dom (handlers d) \<longrightarrow> dispatchKey n \<notin> dom (handlers (Unsubscribe d' n i)))"
  using disp.deliver_unsubscribed [OF assms] assms(2)
  by (auto simp: Subscribe_def Unsubscribe_def subs_of_def Let_def split: option.splits)

theorem unsubscribe_undoes_subscribe_witness:
  "Dispatch_pairs (Unsubscribe (snd (Subscribe NewDispatcher ''a'' True)) ''a'' 1) (ev_of ''a'' '''' None) = []"
proof -
  obtain d' where "Subscribe (NewDispatcher :: bool Dispatcher) ''a'' True = (1, d')"
    by (simp add: Subscribe_def NewDispatcher_def Let_def)
  from unsubscribe_undoes_subscribe [OF disp_inv_New this, of "ev_of ''a'' '''' None"] this
  show ?thesis by (simp add: Dispatch_pairs_def Dispatch_def NewDispatcher_def ev_of_def subs_of_def)
qed

subsection \<open>Payloads\<close>

text \<open>
  C36: The power of a sensor event is read from the last member \<open>Power\<close> of the device's
  object: an integer of 64 bits is taken over, any other number, text or structure is
  ignored like a missing member, but an explicit null counts as 0, that is as closed.
\<close>

theorem sensor_power_reading:
  "ParseSensorPayload b (Some (JObject [(''ZbReceived'', JObject [(addr, JObject kvs)])])) =
     Inr (let ev = sensor_event b (add_members kvs [])
          in if ev_DeviceName ev \<noteq> '''' \<or> ev_ShortAddr ev \<noteq> '''' then [ev] else []) \<and>
   ev_Power (sensor_event b (add_members kvs [])) =
     (case map_of (rev kvs) ''Power'' of
        None \<Rightarrow> None
      | Some JNull \<Rightarrow> Some 0
      | Some (JNumber (IntLit n)) \<Rightarrow> if in_signed 64 n then Some n else None
      | Some _ \<Rightarrow> None)"
proof
  have one: "add_members [(addr, v)] [] = [(addr, v)]" for v by (simp add: add_members_def)
  show "ParseSensorPayload b (Some (JObject [(''ZbReceived'', JObject [(addr, JObject kvs)])])) =
     Inr (let ev = sensor_event b (add_members kvs [])
          in if ev_DeviceName ev \<noteq> '''' \<or> ev_ShortAddr ev \<noteq> '''' then [ev] else [])"
    by (simp add: one field_matches_def Let_def del: fold_name.simps)
  show "ev_Power (sensor_event b (add_members kvs [])) =
     (case map_of (rev kvs) ''Power'' of
        None \<Rightarrow> None
      | Some JNull \<Rightarrow> Some 0
      | Some (JNumber (IntLit n)) \<Rightarrow> if in_signed 64 n then Some n else None
      | Some _ \<Rightarrow> None)"
    by (auto simp: sensor_event_def get_int_def map_of_add_members split: option.splits json.splits number.splits)
qed

theorem sensor_power_reading_witness:
  "ev_Power (sensor_event ''b'' (add_members [(''Name'', JString ''v''), (''Power'', JNull)] [])) = Some 0"
  using sensor_power_reading [of "''b''" "''0xDA76''" "[(''Name'', JString ''v''), (''Power'', JNull)]"] by simp

subsection \<open>Status queries\<close>

lemma deliver_status_miss:
  "\<forall>k \<in> set keys. k \<noteq> '''' \<longrightarrow> zbStatus3Chs bc (dispatchKey k) = None \<Longrightarrow> deliver_status r keys bc = bc"
  by (induction keys) auto

text \<open>
  A status query gets the first answer that names its device, by either identifier, that
  arrives before the query ends, and a finished query leaves no waiter behind.
\<close>

theorem status_query_gets_its_answer:
  assumes "status3_begin bc dev = (ch, bc')" "dev \<noteq> ''''"
    and "dispatchKey (zr_DeviceName r) = dispatchKey dev \<or>
         dispatchKey (zr_ShortAddr r) = dispatchKey dev \<and> zbStatus3Chs bc' (dispatchKey (zr_DeviceName r)) = None"
  shows "status3_result (deliver_status r [zr_DeviceName r, zr_ShortAddr r] bc') ch (TokenDone True) ReplyChannel = Some (Inr r) \<and>
    zbStatus3Chs (status3_end (deliver_status r [zr_DeviceName r, zr_ShortAddr r] bc') dev) (dispatchKey dev) = None"
proof -
  have w: "zbStatus3Chs bc' (dispatchKey dev) = Some ch" "zb_bufs bc' ch = None"
    using assms(1) by (auto simp: status3_begin_def Let_def)
  have ne: "k \<noteq> ''''" if "dispatchKey k = dispatchKey dev" for k
    using that assms(2) by (metis dispatchKey_Nil)
  show ?thesis using assms(3) w ne by (auto simp: status3_result_def status3_end_def)
qed

text \<open>
  Two status queries for the same device disturb each other: the later one takes over the
  waiter, so an answer no longer reaches the first, and when the first ends it removes the
  waiter of the second, which then misses its answer too.
\<close>

theorem concurrent_status_queries_collide:
  assumes "status3_begin bc dev = (ch1, bc1)" "status3_begin bc1 dev = (ch2, bc2)"
    and "dispatchKey (zr_DeviceName r) = dispatchKey dev" "zr_ShortAddr r = ''''" "dev \<noteq> ''''"
  shows "zb_bufs (deliver_status r [zr_DeviceName r, zr_ShortAddr r] bc2) ch1 = None \<and>
    deliver_status r [zr_DeviceName r, zr_ShortAddr r] (status3_end bc2 dev) = status3_end bc2 dev"
proof -
  have "ch1 \<noteq> ch2" "zb_bufs bc2 ch1 = None" "zbStatus3Chs bc2 (dispatchKey dev) = Some ch2" "zb_bufs bc2 ch2 = None"
    using assms(1,2) by (auto simp: status3_begin_def Let_def)
  moreover have "zr_DeviceName r \<noteq> ''''" using assms(3,5) by (metis dispatchKey_Nil)
  ultimately show ?thesis using assms(3,4) by (auto simp: status3_end_def)
qed

subsection \<open>Bridge clients\<close>

lemma topicsEqual_loop_iff: "length a = length b \<Longrightarrow> topicsEqual_loop a b \<longleftrightarrow> a = b"
  by (induction a b rule: topicsEqual_loop.induct) auto

lemma topicsEqual_iff: "topicsEqual a b \<longleftrightarrow> a = b"
  by (auto simp: topicsEqual_def topicsEqual_loop_iff)

definition serves :: "BridgeClient \<Rightarrow> BridgeConfig \<Rightarrow> bool" where
  "serves bc cfg \<longleftrightarrow> bcf_Host (bc_cfg bc) = bcf_Host cfg \<and> bcf_Port (bc_cfg bc) = bcf_Port cfg \<and>
     bcf_Username (bc_cfg bc) = bcf_Username cfg \<and> bcf_Topics (bc_cfg bc) = bcf_Topics cfg"

lemma Upsert_success:
  assumes "Upsert mgr m cfg conn = (None, mgr', m')"
  shows "\<exists>bc. mgr_bridges mgr' (bcf_BridgeName cfg) = Some bc \<and> serves bc cfg"
  using assms
  by (auto simp: Upsert_def Let_def serves_def topicsEqual_iff newBridgeClient_def split: option.splits if_splits)

lemma Upsert_others: "n \<noteq> bcf_BridgeName cfg \<Longrightarrow> mgr_bridges (fst (snd (Upsert mgr m cfg conn))) n = mgr_bridges mgr n"
  by (auto simp: Upsert_def Let_def split: option.splits if_splits)

lemma Remove_bridges: "mgr_bridges (fst (Remove mgr m n)) k = (if k = n then None else mgr_bridges mgr k)"
  by (auto simp: Remove_def split: option.splits)

text \<open>The bridges of the manager form a registry, as the pipelines of the scheduler do.\<close>

interpretation bridges: registry "\<lambda>s. mgr_bridges (fst s)"
  "\<lambda>cfg s. snd (Upsert (fst s) (snd s) cfg (None :: unit option))" bcf_BridgeName
  "\<lambda>n s. Remove (fst s) (snd s) n" "\<lambda>_. True"
proof (unfold_locales, goal_cases)
  case (3 s i)
  obtain e mgr' m' where "Upsert (fst s) (snd s) i (None :: unit option) = (e, mgr', m')" by (metis prod_cases3)
  moreover from this have "e = None" by (auto simp: Upsert_def Let_def split: option.splits if_splits)
  ultimately show ?case using Upsert_success [of "fst s" "snd s" i "None :: unit option" mgr' m'] by auto
qed (simp_all add: Upsert_others Remove_bridges)

lemma bridge_registered_after:
  "mgr_bridges (fst (bridges.run_ops ops s)) n \<noteq> None \<longleftrightarrow>
     registers bcf_BridgeName ops n (mgr_bridges (fst s) n \<noteq> None)"
  by (rule bridges.registered_after [OF TrueI])

text \<open>
  A changed password (or back-off) alone does not reach the broker connection: with host,
  port, user and topics as before, an update reports success and keeps the client that was
  created with the old password.
\<close>

theorem password_change_is_ignored:
  assumes "mgr_bridges mgr (bcf_BridgeName cfg) = Some bc" "serves bc cfg"
  shows "Upsert mgr m (cfg\<lparr> bcf_Password := pw, bcf_MaxReconnectBackoff := t \<rparr>) conn = (None, mgr, m)"
  using assms by (simp add: Upsert_def Let_def serves_def topicsEqual_iff)

text \<open>
  When a bridge moved and the new broker cannot be reached, the manager still holds the
  old client, which it has just disconnected: the connection gauge says 0 while the client
  still counts as connected for the readiness probe.
\<close>

theorem failed_move_leaves_stale_client:
  assumes "mgr_bridges mgr (bcf_BridgeName cfg) = Some bc" "bcf_Host (bc_cfg bc) \<noteq> bcf_Host cfg"
    and "IsConnected bc" "bcf_BridgeName (bc_cfg bc) = bcf_BridgeName cfg"
    and "Upsert mgr m cfg (Some e) = (res, mgr', m')"
  shows "res = Some e \<and> ConnectionStates mgr' (bcf_BridgeName cfg) = Some True \<and>
    m_MQTTConnectionState m' (bcf_BridgeName cfg) = Some 0"
  using assms by (auto simp: Upsert_def Let_def ConnectionStates_def Disconnect_def)

definition b_cfg :: "string \<Rightarrow> BridgeConfig" where
  "b_cfg host = \<lparr> bcf_BridgeName = ''b'', bcf_Host = host, bcf_Port = 1883, bcf_Username = '''', bcf_Password = '''',
     bcf_Hostname = '''', bcf_MaxReconnectBackoff = 0, bcf_Topics = [] \<rparr>"

definition b_mgr :: Manager where
  "b_mgr = (NewManager '''')\<lparr> mgr_bridges := [''b'' \<mapsto> (newBridgeClient (b_cfg ''h''))\<lparr> bc_connected := True \<rparr>] \<rparr>"

lemma b_simps [simp]:
  "bcf_BridgeName (b_cfg h) = ''b''" "bcf_Host (b_cfg h) = h"
  "mgr_bridges b_mgr ''b'' = Some ((newBridgeClient (b_cfg ''h''))\<lparr> bc_connected := True \<rparr>)"
  "bc_cfg (newBridgeClient c) = c"
  by (simp_all add: b_cfg_def b_mgr_def newBridgeClient_def Let_def)

theorem password_change_is_ignored_witness:
  "Upsert b_mgr new_metrics ((b_cfg ''h'')\<lparr> bcf_Password := ''new'', bcf_MaxReconnectBackoff := 5 \<rparr>) (Some ()) = (None, b_mgr, new_metrics)"
  by (rule password_change_is_ignored [where bc = "(newBridgeClient (b_cfg ''h''))\<lparr> bc_connected := True \<rparr>"])
    (simp_all add: serves_def)

theorem failed_move_leaves_stale_client_witness:
  "\<exists>mgr' m'. Upsert b_mgr new_metrics (b_cfg ''other'') (Some ()) = (Some (), mgr', m') \<and> ConnectionStates mgr' ''b'' = Some True"
proof -
  obtain res mgr' m' where run: "Upsert b_mgr new_metrics (b_cfg ''other'') (Some ()) = (res, mgr', m')"
    by (metis prod_cases3)
  have "IsConnected ((newBridgeClient (b_cfg ''h''))\<lparr> bc_connected := True \<rparr>)" by (simp add: IsConnected_def)
  with failed_move_leaves_stale_client [OF _ _ _ _ run] run show ?thesis by auto
qed

definition q_result :: ZbStatus3ValveResult where
  "q_result = \<lparr> zr_DeviceName = ''garden'', zr_ShortAddr = '''', zr_Power = Some 1 \<rparr>"

theorem status_query_gets_its_answer_witness:
  "\<exists>ch bc'. status3_begin (newBridgeClient (b_cfg ''h'')) ''garden'' = (ch, bc') \<and>
     status3_result (deliver_status q_result [''garden'', ''''] bc') ch (TokenDone True) ReplyChannel = Some (Inr q_result)"
proof -
  obtain ch bc' where b: "status3_begin (newBridgeClient (b_cfg ''h'')) ''garden'' = (ch, bc')" by (cases "status3_begin (newBridgeClient (b_cfg ''h'')) ''garden''")
  from status_query_gets_its_answer [OF b, of q_result] b show ?thesis by (simp add: q_result_def)
qed

theorem concurrent_status_queries_collide_witness:
  "\<exists>ch1 bc1 ch2 bc2. status3_begin (newBridgeClient (b_cfg ''h'')) ''garden'' = (ch1, bc1) \<and>
     status3_begin bc1 ''garden'' = (ch2, bc2) \<and> zb_bufs (deliver_status q_result [''garden'', ''''] bc2) ch1 = None"
proof -
  obtain ch1 bc1 where b1: "status3_begin (newBridgeClient (b_cfg ''h'')) ''garden'' = (ch1, bc1)" by (cases "status3_begin (newBridgeClient (b_cfg ''h'')) ''garden''")
  obtain ch2 bc2 where b2: "status3_begin bc1 ''garden'' = (ch2, bc2)" by (cases "status3_begin bc1 ''garden''")
  from concurrent_status_queries_collide [OF b1 b2, of q_result] b1 b2 show ?thesis by (simp add: q_result_def)
qed

end
