(* ===== verification/KeepClosed.thy ===== *)
theory KeepClosed
  imports Scenario
begin

text \<open>
  The keep-closed safety ping: when it fires, what it sends, that it ends, and that its
  ticker never gets a non-positive interval.
\<close>

subsection \<open>The environment of the ping\<close>

lemma ping_env_frame:
  "w_now (ping_env_step e w) = w_now w" "w_sends (ping_env_step e w) = w_sends w"
  "length (w_cells (ping_env_step e w)) = length (w_cells w)" "w_paho (ping_env_step e w) = w_paho w"
  by (cases e; simp add: new_ctx_def upd_pl_def external_paho)+

interpretation worker: quiet_env ping_env_step
  by unfold_locales (rule ping_env_frame)+

lemma ping_setup_spec:
  assumes "ping_setup c w = (i, cid, wc, cell, w1)"
  shows "i = info w" "w_sends w1 = w_sends w" "w_paho w1 = w_paho w" "\<exists>d. ctx_deadline wc = Some d"
    "w_now w1 = w_now w"
  using assms
  by (cases "ctx_deadline c"; force simp: ping_setup_def Let_def split_beta new_ctx_def upd_metrics_def GetInfo_def
      waitForPower_def add_cell_simps)+

lemma nat_close_count: "nat (close_count i) = max 1 (nat (CloseRepeatCount (vi_Config i)))"
  by (auto simp: close_count_def max_def)

subsection \<open>When the ping fires\<close>

lemma ping_suppressed_iff:
  "ping_suppressed w \<longleftrightarrow> (\<exists>c. p_current (w_pl w) = Some c
     \<and> act_Type (w_acts w c) \<in> {ActionTypeOpen, ActionTypeOpenTimed}
     \<and> act_State (w_acts w c) \<notin> {ActionStateFulfilled, ActionStateFailed, ActionStateCancelled})"
  by (cases "p_current (w_pl w)")
    (auto simp: ping_suppressed_def GetCurrent_def IsTerminal_def HoldsValveOpen_def split: ActionState.splits)

lemma keepClosedPing_cases:
  assumes "keepClosedPing c w es = Some (w', es')"
  obtains (suppressed) "ping_suppressed w" "w' = w" "es' = es"
  | (sent) i cid wc cell w1 pub w2 es2 w3 where "\<not> ping_suppressed w" "ping_setup c w = (i, cid, wc, cell, w1)"
    "send_loop ping_env_step c wc (vi_BridgeName i) (CommandTarget i) False (nat (close_count i)) 0 False w1 es
       = Some (pub, w2, es2)"
    "wait ping_env_step (\<lambda>w. cell_ch w cell \<noteq> None) (ctx_deadline wc) w2 es2 = Some (w3, es')"
    "w' = cancel_ctx cid (if cell_ch w3 cell = Some None then ping_apply w3 else w3)"
  using assms by (cases "ping_setup c w") (auto simp: keepClosedPing_def bind_eq_Some_conv split: if_splits)

lemma ping_sends:
  assumes "keepClosedPing c w es = Some (w', es')"
  shows "\<exists>xs. w_sends w' = w_sends w @ xs \<and>
    commands (vi_BridgeName (info w)) (CommandTarget (info w)) False xs \<and>
    length xs = (if ping_suppressed w then 0 else max 1 (nat (CloseRepeatCount (vi_Config (info w)))))"
  using assms
proof (cases rule: keepClosedPing_cases)
  case suppressed
  then show ?thesis by (simp add: commands_def)
next
  case (sent i cid wc cell w1 pub w2 es2 w3)
  have "w_sends (ping_apply w3) = w_sends w3" by (auto simp: ping_apply_def split: option.splits)
  with worker.send_loop_log [OF sent(3)] worker.wait_quiet [OF sent(4)] ping_setup_spec [OF sent(2)] sent(1) show ?thesis
    by (auto simp: sent(5) nat_close_count)
qed

lemma ping_time:
  assumes "keepClosedPing c w es = Some (w', es')"
  shows "w_now w \<le> w_now w'"
  using assms
proof (cases rule: keepClosedPing_cases)
  case (sent i cid wc cell w1 pub w2 es2 w3)
  have "w_now (ping_apply w3) = w_now w3" by (auto simp: ping_apply_def split: option.splits)
  with worker.send_loop_log [OF sent(3)] worker.wait_quiet [OF sent(4)] ping_setup_spec(5) [OF sent(2)] show ?thesis
    by (auto simp: sent(5))
qed simp

text \<open>
  C17: One ping sends exactly the configured number of OFF commands (at least one) to the
  valve's current target over its current bridge, unless an open that has not finished holds
  the action slot; then it sends nothing. It never sends ON.
\<close>

theorem ping_sends_off_unless_held_open:
  assumes "keepClosedPing c w es = Some (w', es')"
  shows "\<exists>xs. w_sends w' = w_sends w @ xs \<and>
    commands (vi_BridgeName (info w)) (CommandTarget (info w)) False xs \<and>
    length xs = (if \<exists>a. p_current (w_pl w) = Some a
                       \<and> act_Type (w_acts w a) \<in> {ActionTypeOpen, ActionTypeOpenTimed}
                       \<and> act_State (w_acts w a) \<notin> {ActionStateFulfilled, ActionStateFailed, ActionStateCancelled}
                 then 0 else max 1 (nat (CloseRepeatCount (vi_Config (info w)))))"
  using ping_sends [OF assms] unfolding ping_suppressed_iff .

lemma ping_total:
  assumes "ctx_deadline c \<noteq> None \<or> (\<forall>n. w_paho w n \<noteq> PubNever)"
  shows "\<exists>w' es'. keepClosedPing c w es = Some (w', es')"
proof (cases "ping_suppressed w")
  case True
  then show ?thesis by (simp add: keepClosedPing_def)
next
  case False
  obtain i cid wc cell w1 where set: "ping_setup c w = (i, cid, wc, cell, w1)" by (cases "ping_setup c w")
  note sp = ping_setup_spec [OF set]
  obtain pub w2 es2 where lp: "send_loop ping_env_step c wc (vi_BridgeName i) (CommandTarget i) False
      (nat (close_count i)) 0 False w1 es = Some (pub, w2, es2)"
    using worker.send_loop_total [of c w1] assms by (fastforce simp: sp(3))
  obtain dl where dl: "ctx_deadline wc = Some dl" using sp(4) by blast
  obtain w3 es3 where "wait ping_env_step (\<lambda>w. cell_ch w cell \<noteq> None) (Some dl) w2 es2 = Some (w3, es3)"
    using wait_total [of ping_env_step "\<lambda>w. cell_ch w cell \<noteq> None" dl w2 es2] by auto
  with lp dl False set show ?thesis by (simp add: keepClosedPing_def)
qed

theorem ping_sends_off_unless_held_open_witness:
  "\<exists>w' es'. keepClosedPing pipeCtx (demo_world ActionTypeClose 0) [] = Some (w', es') \<and> length (w_sends w') = 1 \<and>
     commands demo_br demo_addr False (w_sends w')"
proof -
  obtain w' es' where run: "keepClosedPing pipeCtx (demo_world ActionTypeClose 0) [] = Some (w', es')"
    using ping_total [of pipeCtx "demo_world ActionTypeClose 0" "[]"] by auto
  from ping_sends_off_unless_held_open [OF run] have "length (w_sends w') = 1" "commands demo_br demo_addr False (w_sends w')"
    by (auto simp: demo_info_eval CommandTarget_def demo_strings)
  with run show ?thesis by blast
qed

text \<open>
  The ping always returns when the publish tokens of the MQTT library complete: it cannot
  hang its goroutine.
\<close>

theorem ping_returns:
  assumes "ctx_deadline c \<noteq> None \<or> (\<forall>n. w_paho w n \<noteq> PubNever)"
  shows "\<exists>w' es'. keepClosedPing c w es = Some (w', es')"
  by (rule ping_total [OF assms])

theorem ping_returns_witness:
  "\<exists>w' es'. keepClosedPing pipeCtx (demo_world ActionTypeClose 0) [] = Some (w', es')"
  by (rule ping_returns) simp

subsection \<open>The ping and a timed open\<close>

lemma external_current [simp]: "p_current (w_pl (external_step e w)) = p_current (w_pl w)"
  by (cases e) (auto simp: pipeline_ops fold_dispatch_frame split: option.splits)



subsection \<open>The loop\<close>

lemma keepClosed_interval_positive: "keepClosed_interval cfg > 0"
  by (simp add: keepClosed_interval_def Minute_def Second_def)

lemma ticker_after_bounds:
  assumes "interval > 0"
  shows "t < ticker_after interval tick t" "ticker_after interval tick t \<le> max t tick + interval"
proof -
  define q r where "q = interval * ((t - tick) div interval)" and "r = (t - tick) mod interval"
  have "t - tick = q + r" by (simp add: q_def r_def)
  moreover have "0 \<le> r" "r < interval" using assms by (simp_all add: r_def)
  moreover have "ticker_after interval tick t = tick + q + interval"
    by (simp add: ticker_after_def q_def algebra_simps)
  ultimately show "t < ticker_after interval tick t" "ticker_after interval tick t \<le> max t tick + interval" by auto
qed

lemma keepClosed_tick_spec:
  assumes "keepClosed_tick c interval w es = Some (interval', w', es')" "interval > 0"
  shows "keepClosedPing c w es = Some (w', es')" "interval' > 0"
  using assms by (auto simp: keepClosed_tick_def bind_eq_Some_conv Let_def split: if_splits)

lemma keepClosed_tick_total:
  assumes "ctx_deadline c \<noteq> None \<or> (\<forall>n. w_paho w n \<noteq> PubNever)"
  shows "\<exists>r. keepClosed_tick c interval w es = Some r"
  using ping_total [OF assms, of es] by (auto simp: keepClosed_tick_def Let_def)

text \<open>
  C18: The safety net has no holes: every round of the keep-closed loop returns (when the MQTT
  library's publish tokens complete); it ends the loop only when the pipeline's context has
  ended; otherwise it pings once, at the due time or at once when that has passed, and the
  next ping is due at most one interval, which is positive whatever is configured, after
  this one is over. So while no open action holds the valve, the valve is told to close at
  least once per interval.
\<close>

theorem safety_net_has_no_holes:
  assumes "interval > 0" "ctx_deadline c \<noteq> None \<or> (\<forall>n. w_paho w n \<noteq> PubNever)"
  shows "\<exists>r w' es'. keepClosed_round c pick interval tick w es = Some (r, w', es') \<and>
    (case r of
       None \<Rightarrow> ctx_done w' c \<and> w_sends w' = w_sends w
     | Some (interval', tick') \<Rightarrow> interval' > 0 \<and> tick' \<le> w_now w' + interval' \<and>
         (\<exists>v offs. w_now v = max (w_now w) tick \<and> w_sends w' = w_sends w @ offs \<and>
            commands (vi_BridgeName (info v)) (CommandTarget (info v)) False offs \<and>
            length offs = (if ping_suppressed v then 0 else max 1 (nat (CloseRepeatCount (vi_Config (info v)))))))"
proof -
  obtain d where d: "min_time (Some tick) (ctx_deadline c) = Some d" "d \<le> tick"
    "\<And>v. d \<le> w_now v \<Longrightarrow> tick \<le> w_now v \<or> ctx_done v c"
  proof (cases "ctx_deadline c")
    case None
    with that [of tick] show ?thesis by simp
  next
    case (Some a)
    with that [of "min tick a"] ctx_done_deadline [of c] show ?thesis by (auto simp: min_def reached_def split: if_splits)
  qed
  obtain v es1 where wt: "wait ping_env_step (\<lambda>w. ctx_done w c) (Some d) w es = Some (v, es1)"
    using wait_total by force
  note q = worker.wait_quiet [OF wt] worker.wait_until [OF wt]
  show ?thesis
  proof (cases "tick \<le> w_now v \<and> (pick \<or> \<not> ctx_done v c)")
    case False
    with wait_post [OF wt] d(3) have "ctx_done v c" by (auto simp: reached_def)
    moreover have "keepClosed_round c pick interval tick w es = Some (None, v, es1)"
      using False wt d(1) by (auto simp: keepClosed_round_def)
    ultimately show ?thesis using q(1) by simp
  next
    case True
    obtain interval' w' es' where tk: "keepClosed_tick c interval v es1 = Some (interval', w', es')"
      using keepClosed_tick_total [of c v interval es1] assms(2) q by auto
    note p = keepClosed_tick_spec [OF tk assms(1)]
    from ping_sends [OF p(1)] q(1) obtain offs where offs: "w_sends w' = w_sends w @ offs"
      "commands (vi_BridgeName (info v)) (CommandTarget (info v)) False offs"
      "length offs = (if ping_suppressed v then 0 else max 1 (nat (CloseRepeatCount (vi_Config (info v)))))" by auto
    have t: "w_now v = max (w_now w) tick" using q d(2) True by (auto simp: max_def split: if_splits)
    have "w_now v \<le> w_now w'" by (rule ping_time [OF p(1)])
    then have "(if interval' \<noteq> interval then w_now w' + interval' else ticker_after interval tick (w_now v))
        \<le> w_now w' + interval'" (is "?next \<le> _")
      using ticker_after_bounds(2) [OF assms(1), of tick "w_now v"] t by auto
    moreover have "keepClosed_round c pick interval tick w es = Some (Some (interval', ?next), w', es')"
      using True wt d(1) tk by (simp add: keepClosed_round_def Let_def)
    ultimately show ?thesis using p(2) t offs by (simp del: max_def) blast
  qed
qed

theorem safety_net_has_no_holes_witness:
  "\<exists>interval' tick' w' es'. keepClosed_round pipeCtx True (5 * Minute) (5 * Minute) (demo_world ActionTypeClose 0) [] =
     Some (Some (interval', tick'), w', es') \<and> interval' > 0 \<and> tick' \<le> w_now w' + interval'"
proof -
  obtain r w' es' where run: "keepClosed_round pipeCtx True (5 * Minute) (5 * Minute) (demo_world ActionTypeClose 0) [] =
      Some (r, w', es')"
    and r: "case r of None \<Rightarrow> ctx_done w' pipeCtx \<and> w_sends w' = []
     | Some (interval', tick') \<Rightarrow> interval' > 0 \<and> tick' \<le> w_now w' + interval'"
    using safety_net_has_no_holes [of "5 * Minute" pipeCtx "demo_world ActionTypeClose 0" True "5 * Minute" "[]"]
    by (force simp: Minute_def Second_def split: option.splits)
  have "r \<noteq> None" using run
    by (auto simp: keepClosed_round_def pipeCtx_def ctx_done_def ctx_err_def reached_def Minute_def Second_def
        bind_eq_Some_conv Let_def split: if_splits)
  with run r show ?thesis by auto
qed

end
