(* ===== verification/Queries.thy ===== *)
theory Queries
  imports MqttProps KeepClosed
begin

text \<open>
  The blocking calls of \<^verbatim>\<open>internal/mqtt/bridge.go\<close> besides \<open>SendZbSend\<close>: \<open>Connect\<close> and
  \<open>SendZbStatus3\<close>, and what is built on them, \<open>Upsert\<close> with the time its connect takes and
  the advisory check of \<^verbatim>\<open>internal/scheduler/pipeline.go\<close> after a close.
\<close>

subsection \<open>Connecting\<close>

datatype connect_error = BrokerError | ConnectCtx ctx_error

text \<open>
  The connect token completes after a delay, with or without an error, or never: with
  \<open>ConnectRetry\<close> set, the library keeps trying and the token waits for the first success.
\<close>

definition Connect :: "ctx \<Rightarrow> publish_outcome \<Rightarrow> world \<Rightarrow> external timeline \<Rightarrow> connect_error option proc" where
  "Connect c outcome w es =
     (let token = (case outcome of PubDone d ok \<Rightarrow> Some (w_now w + d) | PubNever \<Rightarrow> None)
      in do {
        (w, es) \<leftarrow> block (\<lambda>w. ctx_done w c) (min_time token (ctx_deadline c)) w es;
        Some (case outcome of
                PubDone d ok \<Rightarrow> if reached token w then (if ok then None else Some BrokerError)
                               else map_option ConnectCtx (ctx_err w c)
              | PubNever \<Rightarrow> map_option ConnectCtx (ctx_err w c),
              w, es)
      })"

text \<open>
  \<open>Upsert\<close> with its blocking connect in the middle: what other goroutines do to the manager
  meanwhile happens between the disconnect of the old client and the registration of the new one.
\<close>

definition connect_and_register :: "ctx \<Rightarrow> publish_outcome \<Rightarrow> BridgeConfig \<Rightarrow> world \<Rightarrow> external timeline
    \<Rightarrow> connect_error option proc" where
  "connect_and_register c outcome cfg w es =
     do {
       (err, w, es) \<leftarrow> Connect c outcome w es;
       Some (err, case err of
                    Some e \<Rightarrow> w
                  | None \<Rightarrow> w\<lparr> w_mgr := (w_mgr w)\<lparr> mgr_bridges :=
                      (mgr_bridges (w_mgr w))(bcf_BridgeName cfg \<mapsto> newBridgeClient cfg) \<rparr> \<rparr>, es)
     }"

definition Upsert_blocking :: "ctx \<Rightarrow> publish_outcome \<Rightarrow> BridgeConfig \<Rightarrow> world \<Rightarrow> external timeline
    \<Rightarrow> connect_error option proc" where
  "Upsert_blocking c outcome cfg0 w es =
     (let cfg = cfg0\<lparr> bcf_Hostname := mgr_hostname (w_mgr w) \<rparr>
      in case mgr_bridges (w_mgr w) (bcf_BridgeName cfg) of
           None \<Rightarrow> connect_and_register c outcome cfg w es
         | Some existing \<Rightarrow>
             if bcf_Host (bc_cfg existing) = bcf_Host cfg \<and> bcf_Port (bc_cfg existing) = bcf_Port cfg \<and>
                bcf_Username (bc_cfg existing) = bcf_Username cfg \<and>
                topicsEqual (bcf_Topics (bc_cfg existing)) (bcf_Topics cfg)
             then Some (None, w, es)
             else connect_and_register c outcome cfg (upd_metrics (Disconnect existing) w) es)"

definition no_bridge_event :: "external \<Rightarrow> bool" where
  "no_bridge_event e \<longleftrightarrow> (case e of BridgeUpsert _ _ \<Rightarrow> False | BridgeRemove _ \<Rightarrow> False | _ \<Rightarrow> True)"

lemma external_mgr: "no_bridge_event e \<Longrightarrow> w_mgr (external_step e w) = w_mgr w"
  by (cases e) (auto simp: no_bridge_event_def pipeline_ops fold_dispatch_frame request_def alloc_act_def Enqueue_def
      ping_apply_def UpdateConfig_def Let_def upd_pl_def split: option.splits)

lemma Connect_spec:
  assumes "Connect c outcome w es = Some (err, w', es')"
  obtains pre where "es = pre @ es'" "list_all (\<lambda>x. no_bridge_event (snd x)) pre \<longrightarrow> w_mgr w' = w_mgr w"
proof -
  from assms obtain dl where bl: "block (\<lambda>w. ctx_done w c) dl w es = Some (w', es')"
    by (auto simp: Connect_def bind_eq_Some_conv Let_def)
  have "stable external_step no_bridge_event (\<lambda>v. w_mgr v = w_mgr w)" by unfold_locales (simp_all add: external_mgr)
  from stable.wait_rely [OF this bl] that show thesis by auto
qed

lemma connect_and_register_spec:
  assumes "connect_and_register c outcome cfg w es = Some (err, w', es')"
  shows "\<exists>pre. es = pre @ es' \<and> (list_all (\<lambda>x. no_bridge_event (snd x)) pre \<longrightarrow>
      w_mgr w' = (case err of Some e \<Rightarrow> w_mgr w
        | None \<Rightarrow> (w_mgr w)\<lparr> mgr_bridges := (mgr_bridges (w_mgr w))(bcf_BridgeName cfg \<mapsto> newBridgeClient cfg) \<rparr>))"
proof -
  from assms obtain u where con: "Connect c outcome w es = Some (err, u, es')"
    and w': "w' = (case err of Some e \<Rightarrow> u | None \<Rightarrow> u\<lparr> w_mgr := (w_mgr u)\<lparr> mgr_bridges :=
        (mgr_bridges (w_mgr u))(bcf_BridgeName cfg \<mapsto> newBridgeClient cfg) \<rparr> \<rparr>)"
    by (auto simp: connect_and_register_def bind_eq_Some_conv)
  from con obtain pre where "es = pre @ es'" "list_all (\<lambda>x. no_bridge_event (snd x)) pre \<longrightarrow> w_mgr u = w_mgr w"
    by (rule Connect_spec)
  with w' show ?thesis by (cases err) auto
qed


subsection \<open>Status queries\<close>

text \<open>
  The world of one status query: the clock, the cancelled contexts, the client it runs on
  (a query keeps its client when the registry replaces it) and the published queries. The
  timeline lists the client's messages, the ends of other queries and the cancellations.
\<close>

record query_world =
  q_now :: time
  q_cancelled :: "nat list"
  q_bc :: BridgeClient
  q_metrics :: Metrics
  q_published :: "(string \<times> string) list"

datatype query_event =
    ResultMessage string "json option"   \<comment> \<open>a message for \<open>handleResult\<close>\<close>
  | OtherBegin string                    \<comment> \<open>another query registers its channel\<close>
  | OtherEnd string                      \<comment> \<open>the deferred function of another query\<close>
  | QueryCancel nat

fun query_step :: "query_event \<Rightarrow> query_world \<Rightarrow> query_world" where
  "query_step (ResultMessage topic payload) q =
     (let (bc, m) = handleResult topic payload (q_bc q) (q_metrics q) in q\<lparr> q_bc := bc, q_metrics := m \<rparr>)"
| "query_step (OtherBegin dev) q = q\<lparr> q_bc := snd (status3_begin (q_bc q) dev) \<rparr>"
| "query_step (OtherEnd dev) q = q\<lparr> q_bc := status3_end (q_bc q) dev \<rparr>"
| "query_step (QueryCancel i) q = q\<lparr> q_cancelled := i # q_cancelled q \<rparr>"

definition q_ctx_done :: "ctx \<Rightarrow> query_world \<Rightarrow> bool" where
  "q_ctx_done c q \<longleftrightarrow> ctx_err_at (q_now q) (q_cancelled q) c \<noteq> None"

definition q_advance :: "time \<Rightarrow> query_world \<Rightarrow> query_world" where
  "q_advance t q = q\<lparr> q_now := max (q_now q) t \<rparr>"

definition q_reached :: "time option \<Rightarrow> query_world \<Rightarrow> bool" where
  "q_reached dl q \<longleftrightarrow> (case dl of None \<Rightarrow> False | Some d \<Rightarrow> d \<le> q_now q)"

fun q_wait :: "(query_world \<Rightarrow> bool) \<Rightarrow> time option \<Rightarrow> query_world \<Rightarrow> query_event timeline
    \<Rightarrow> (query_world \<times> query_event timeline) option" where
  "q_wait ready dl q [] =
     (if ready q \<or> q_reached dl q then Some (q, [])
      else case dl of None \<Rightarrow> None | Some d \<Rightarrow> Some (q_advance d q, []))"
| "q_wait ready dl q ((t, e) # es) =
     (if ready q \<or> q_reached dl q then Some (q, (t, e) # es)
      else case dl of
             None \<Rightarrow> q_wait ready dl (query_step e (q_advance t q)) es
           | Some d \<Rightarrow> if d \<le> t then Some (q_advance d q, (t, e) # es)
                      else q_wait ready dl (query_step e (q_advance t q)) es)"

text \<open>When several cases of a select are ready Go takes any of them: \<open>pick\<close> if it is ready.\<close>

definition choose_token :: "token_outcome \<Rightarrow> publish_outcome \<Rightarrow> time \<Rightarrow> ctx \<Rightarrow> query_world \<Rightarrow> token_outcome" where
  "choose_token pick outcome t0 c q =
     (case outcome of
        PubNever \<Rightarrow> TokenCtxDone
      | PubDone d ok \<Rightarrow>
          if t0 + d \<le> q_now q \<and> (pick \<noteq> TokenCtxDone \<or> \<not> q_ctx_done c q) then TokenDone ok
          else TokenCtxDone)"

definition reply_ready :: "nat \<Rightarrow> time \<Rightarrow> ctx \<Rightarrow> query_world \<Rightarrow> reply_outcome \<Rightarrow> bool" where
  "reply_ready ch timer c q r \<longleftrightarrow>
     (case r of ReplyChannel \<Rightarrow> zb_bufs (q_bc q) ch \<noteq> None | ReplyTimer \<Rightarrow> timer \<le> q_now q
      | ReplyCtxDone \<Rightarrow> q_ctx_done c q)"

definition choose_reply :: "reply_outcome \<Rightarrow> nat \<Rightarrow> time \<Rightarrow> ctx \<Rightarrow> query_world \<Rightarrow> reply_outcome" where
  "choose_reply pick ch timer c q =
     (if reply_ready ch timer c q pick then pick
      else if reply_ready ch timer c q ReplyChannel then ReplyChannel
      else if reply_ready ch timer c q ReplyTimer then ReplyTimer else ReplyCtxDone)"

definition SendZbStatus3 :: "token_outcome \<Rightarrow> reply_outcome \<Rightarrow> ctx \<Rightarrow> string \<Rightarrow> duration \<Rightarrow> publish_outcome
    \<Rightarrow> query_world \<Rightarrow> query_event timeline
    \<Rightarrow> ((status3_error + ZbStatus3ValveResult) \<times> query_world \<times> query_event timeline) option" where
  "SendZbStatus3 pick1 pick2 c deviceName timeout outcome q es =
     (let (ch, bc) = status3_begin (q_bc q) deviceName;
          topic = ''cmnd/'' @ bcf_BridgeName (bc_cfg bc) @ ''/ZbStatus3'';
          t0 = q_now q;
          token = (case outcome of PubDone d ok \<Rightarrow> Some (t0 + d) | PubNever \<Rightarrow> None)
      in do {
        (q, es) \<leftarrow> q_wait (q_ctx_done c) (min_time token (ctx_deadline c))
                    (q\<lparr> q_bc := bc, q_published := q_published q @ [(topic, deviceName)] \<rparr>) es;
        (let t = choose_token pick1 outcome t0 c q; timer = q_now q + timeout
         in do {
           (q, es) \<leftarrow> (if t = TokenDone True
                       then q_wait (\<lambda>q. q_ctx_done c q \<or> zb_bufs (q_bc q) ch \<noteq> None)
                              (min_time (Some timer) (ctx_deadline c)) q es
                       else Some (q, es));
           r \<leftarrow> status3_result (q_bc q) ch t (choose_reply pick2 ch timer c q);
           Some (r, q\<lparr> q_bc := status3_end (q_bc q) deviceName \<rparr>, es)
         })
      })"

lemma q_wait_run:
  assumes "\<And>evs q t. I evs q \<Longrightarrow> I evs (q_advance t q)"
    and "\<And>evs q t e. I evs q \<Longrightarrow> I (evs @ [(t, e)]) (query_step e q)"
  shows "q_wait ready dl q es = Some (q', es') \<Longrightarrow> I evs q \<Longrightarrow> \<exists>pre. es = pre @ es' \<and> I (evs @ pre) q'"
proof (induction es arbitrary: q evs)
  case Nil
  then show ?case by (auto split: if_splits option.splits intro: assms(1))
next
  case (Cons x es)
  obtain t e where x: "x = (t, e)" by (cases x)
  show ?case
  proof (cases "ready q \<or> q_reached dl q \<or> (\<exists>d. dl = Some d \<and> d \<le> t)")
    case True
    with Cons.prems show ?thesis by (auto simp: x split: if_splits option.splits intro: assms(1))
  next
    case False
    with Cons.prems(1) have "q_wait ready dl (query_step e (q_advance t q)) es = Some (q', es')"
      by (auto simp: x split: option.splits)
    from Cons.IH [OF this, of "evs @ [x]"] assms(2) [OF assms(1) [OF Cons.prems(2)]] obtain pre where
      "es = pre @ es'" "I ((evs @ [x]) @ pre) q'" unfolding x by blast
    then show ?thesis by (intro exI [of _ "x # pre"]) simp
  qed
qed

lemma q_wait_total: "\<exists>r. q_wait ready (Some d) q es = Some r"
  by (induction es arbitrary: q) auto

lemma q_now_step [simp]: "q_now (query_step e q) = q_now q"
  by (cases e) (auto simp: Let_def split: prod.splits)

lemma q_wait_time: "q_wait ready (Some d) q es = Some (q', es') \<Longrightarrow> q_now q \<le> q_now q' \<and> q_now q' \<le> max (q_now q) d"
proof (induction es arbitrary: q)
  case Nil
  then show ?case by (auto simp: q_advance_def split: if_splits)
next
  case (Cons x es)
  obtain t e where x: "x = (t, e)" by (cases x)
  from Cons.prems Cons.IH [of "query_step e (q_advance t q)"] show ?case
    by (auto simp: x q_advance_def split: if_splits)
qed

lemma q_wait_post: "q_wait ready dl q es = Some (q', es') \<Longrightarrow> ready q' \<or> q_reached dl q'"
proof (induction es arbitrary: q)
  case Nil
  then show ?case by (auto simp: q_reached_def q_advance_def split: if_splits option.splits)
next
  case (Cons x es)
  then show ?case by (cases x) (auto simp: q_reached_def q_advance_def split: if_splits option.splits)
qed

lemma q_deadline_done: "ctx_deadline c = Some d \<Longrightarrow> d \<le> q_now q \<Longrightarrow> q_ctx_done c q"
  unfolding q_ctx_done_def by (rule ctx_deadline_err)

lemma choose_reply_ready:
  assumes "q_ctx_done c q \<or> zb_bufs (q_bc q) ch \<noteq> None \<or> timer \<le> q_now q"
  shows "reply_ready ch timer c q (choose_reply pick ch timer c q)"
  using assms by (auto simp: choose_reply_def reply_ready_def)

lemma status3_result_total:
  assumes "t = TokenDone True \<longrightarrow> reply_ready ch timer c q r"
  shows "\<exists>x. status3_result (q_bc q) ch t r = Some x"
  using assms by (auto simp: status3_result_def reply_ready_def split: token_outcome.splits reply_outcome.splits bool.splits)

text \<open>The channels of a client: every registered one was handed out.\<close>

definition chans_ok :: "BridgeClient \<Rightarrow> bool" where
  "chans_ok bc \<longleftrightarrow> (\<forall>k ch. zbStatus3Chs bc k = Some ch \<longrightarrow> ch < zb_next bc)"

definition answers :: "string \<Rightarrow> ZbStatus3ValveResult \<Rightarrow> bool" where
  "answers dev x \<longleftrightarrow> (\<exists>name \<in> {zr_DeviceName x, zr_ShortAddr x}. name \<noteq> '''' \<and> dispatchKey name = dispatchKey dev)"

text \<open>A message among the events brought a result for the device.\<close>

definition answered_by :: "string \<Rightarrow> query_event timeline \<Rightarrow> ZbStatus3ValveResult \<Rightarrow> bool" where
  "answered_by dev evs x \<longleftrightarrow> answers dev x \<and> (\<exists>t topic payload results.
     (t, ResultMessage topic payload) \<in> set evs \<and> ParseZbStatus3ValvePower payload = Inr results \<and> x \<in> set results)"

text \<open>What holds while a query waits: its channel is only known under its own key.\<close>

definition own_channel :: "string \<Rightarrow> nat \<Rightarrow> BridgeClient \<Rightarrow> bool" where
  "own_channel dev ch bc \<longleftrightarrow> ch < zb_next bc \<and>
     (\<forall>k. zbStatus3Chs bc k = Some ch \<longrightarrow> k = dispatchKey dev)"

lemma deliver_status_frame:
  "zbStatus3Chs (deliver_status r keys bc) = zbStatus3Chs bc" "zb_next (deliver_status r keys bc) = zb_next bc"
  by (induction r keys bc rule: deliver_status.induct) (auto split: option.splits)

lemma deliver_status_buf:
  "own_channel dev ch bc \<Longrightarrow> zb_bufs (deliver_status r keys bc) ch = Some x \<Longrightarrow>
   zb_bufs bc ch = Some x \<or> x = r \<and> (\<exists>key \<in> set keys. key \<noteq> '''' \<and> dispatchKey key = dispatchKey dev)"
proof (induction r keys bc rule: deliver_status.induct)
  case (2 r key keys bc)
  then show ?case by (auto simp: own_channel_def split: if_splits option.splits)
qed simp

lemma fold_deliver_buf:
  "own_channel dev ch bc \<Longrightarrow>
   zb_bufs (fold (\<lambda>r. deliver_status r [zr_DeviceName r, zr_ShortAddr r]) rs bc) ch = Some x \<Longrightarrow>
   zb_bufs bc ch = Some x \<or> x \<in> set rs \<and> answers dev x"
proof (induction rs arbitrary: bc)
  case (Cons r rs)
  let ?bc = "deliver_status r [zr_DeviceName r, zr_ShortAddr r] bc"
  have "own_channel dev ch ?bc" using Cons.prems(1) by (simp add: own_channel_def deliver_status_frame del: deliver_status.simps)
  from Cons.IH [OF this] Cons.prems(2) deliver_status_buf [OF Cons.prems(1), of r "[zr_DeviceName r, zr_ShortAddr r]" x]
  show ?case by (auto simp: answers_def simp del: deliver_status.simps)
qed simp

lemma fold_deliver_frame:
  "zbStatus3Chs (fold (\<lambda>r. deliver_status r [zr_DeviceName r, zr_ShortAddr r]) rs bc) = zbStatus3Chs bc"
  "zb_next (fold (\<lambda>r. deliver_status r [zr_DeviceName r, zr_ShortAddr r]) rs bc) = zb_next bc"
  by (induction rs arbitrary: bc) (simp_all add: deliver_status_frame del: deliver_status.simps)

lemma own_channel_step: "own_channel dev ch (q_bc q) \<Longrightarrow> own_channel dev ch (q_bc (query_step e q))"
  by (cases e) (auto simp: own_channel_def handleResult_def Let_def fold_deliver_frame status3_begin_def status3_end_def
      split: sum.splits if_splits)

lemma query_step_buf:
  assumes "own_channel dev ch (q_bc q)" "zb_bufs (q_bc (query_step e q)) ch = Some x"
  shows "zb_bufs (q_bc q) ch = Some x \<or> answered_by dev (evs @ [(t, e)]) x"
proof (cases e)
  case (ResultMessage topic payload)
  with assms(2) have "zb_bufs (q_bc q) ch = Some x \<or> (\<exists>results. ParseZbStatus3ValvePower payload = Inr results \<and>
      zb_bufs (fold (\<lambda>r. deliver_status r [zr_DeviceName r, zr_ShortAddr r]) results (q_bc q)) ch = Some x)"
    by (auto simp: handleResult_def Let_def split: sum.splits)
  with fold_deliver_buf [OF assms(1)] ResultMessage show ?thesis by (fastforce simp: answered_by_def)
next
  case (OtherBegin d)
  with assms show ?thesis by (auto simp: own_channel_def status3_begin_def Let_def split: if_splits)
qed (use assms in \<open>auto simp: status3_end_def\<close>)

lemma answered_by_append: "answered_by dev evs x \<Longrightarrow> answered_by dev (evs @ evs') x"
  by (auto simp: answered_by_def)

lemma q_wait_buf:
  assumes "q_wait ready dl q es = Some (q', es')" "own_channel dev ch (q_bc q)"
    "\<And>x. zb_bufs (q_bc q) ch = Some x \<Longrightarrow> answered_by dev evs x"
  obtains pre where "es = pre @ es'" "own_channel dev ch (q_bc q')"
    "\<And>x. zb_bufs (q_bc q') ch = Some x \<Longrightarrow> answered_by dev (evs @ pre) x"
proof -
  let ?I = "\<lambda>evs q. own_channel dev ch (q_bc q) \<and> (\<forall>x. zb_bufs (q_bc q) ch = Some x \<longrightarrow> answered_by dev evs x)"
  have "?I evs q \<Longrightarrow> ?I (evs @ [(t, e)]) (query_step e q)" for evs q t e
    using own_channel_step query_step_buf answered_by_append by meson
  from q_wait_run [of ?I, OF _ this assms(1), of evs] assms(2,3) that show thesis
    by (auto simp: q_advance_def)
qed

lemma SendZbStatus3_cases:
  assumes "SendZbStatus3 pick1 pick2 c dev timeout outcome q es = Some (r, q', es')"
  obtains ch bc q1 es1 q2 t timer where "status3_begin (q_bc q) dev = (ch, bc)"
    "q_wait (q_ctx_done c) (min_time (case outcome of PubDone d ok \<Rightarrow> Some (q_now q + d) | PubNever \<Rightarrow> None) (ctx_deadline c))
       (q\<lparr> q_bc := bc, q_published := q_published q @ [(''cmnd/'' @ bcf_BridgeName (bc_cfg bc) @ ''/ZbStatus3'', dev)] \<rparr>) es
       = Some (q1, es1)"
    "(if t = TokenDone True
      then q_wait (\<lambda>q. q_ctx_done c q \<or> zb_bufs (q_bc q) ch \<noteq> None) (min_time (Some timer) (ctx_deadline c)) q1 es1
      else Some (q1, es1)) = Some (q2, es')"
    "status3_result (q_bc q2) ch t (choose_reply pick2 ch timer c q2) = Some r"
    "q' = q2\<lparr> q_bc := status3_end (q_bc q2) dev \<rparr>"
  using assms unfolding SendZbStatus3_def Let_def
  by (cases "status3_begin (q_bc q) dev") (auto simp: bind_eq_Some_conv)

lemma status3_begin_own:
  assumes "status3_begin bc dev = (ch, bc')" "chans_ok bc"
  shows "own_channel dev ch bc'" "zb_bufs bc' ch = None"
proof -
  have ch: "ch = zb_next bc" and bc': "bc' = bc\<lparr> zb_next := Suc ch, zb_bufs := (zb_bufs bc)(ch := None),
      zbStatus3Chs := (zbStatus3Chs bc)(dispatchKey dev \<mapsto> ch) \<rparr>"
    using assms(1) by (auto simp: status3_begin_def Let_def)
  show "own_channel dev ch bc'" using assms(2) by (auto simp: bc' ch own_channel_def chans_ok_def)
  show "zb_bufs bc' ch = None" by (simp add: bc')
qed

lemma status3_result_Inr: "status3_result bc ch t rp = Some (Inr x) \<Longrightarrow> zb_bufs bc ch = Some x"
  by (auto simp: status3_result_def split: token_outcome.splits reply_outcome.splits bool.splits)

text \<open>
  C40: A status query only ever answers with a result that arrived, while it waited, in a
  message of its bridge and that names the queried device (under the name or the address it
  was asked for); and it leaves no registered waiter behind, however it ends.
\<close>

theorem status_answer_sound:
  assumes "SendZbStatus3 pick1 pick2 c dev timeout outcome q es = Some (r, q', es')" "chans_ok (q_bc q)"
  shows "zbStatus3Chs (q_bc q') (dispatchKey dev) = None \<and>
    (\<exists>pre. es = pre @ es' \<and> (\<forall>x. r = Inr x \<longrightarrow> answered_by dev pre x))"
  using assms(1)
proof (cases rule: SendZbStatus3_cases)
  case (1 ch bc q1 es1 q2 t timer)
  note own = status3_begin_own [OF 1(1) assms(2)]
  from q_wait_buf [OF 1(2), of dev ch "[]"] own obtain p1 where p1: "es = p1 @ es1" "own_channel dev ch (q_bc q1)"
    "\<And>x. zb_bufs (q_bc q1) ch = Some x \<Longrightarrow> answered_by dev p1 x" by auto
  obtain p2 where p2: "es1 = p2 @ es'" "\<And>x. zb_bufs (q_bc q2) ch = Some x \<Longrightarrow> answered_by dev (p1 @ p2) x"
  proof (cases "t = TokenDone True")
    case True
    with 1(3) have "q_wait (\<lambda>q. q_ctx_done c q \<or> zb_bufs (q_bc q) ch \<noteq> None)
        (min_time (Some timer) (ctx_deadline c)) q1 es1 = Some (q2, es')" by simp
    from q_wait_buf [OF this p1(2,3)] that show ?thesis by metis
  next
    case False
    with 1(3) p1(3) that [of "[]"] show ?thesis by simp
  qed
  have "zbStatus3Chs (q_bc q') (dispatchKey dev) = None" by (simp add: 1(5) status3_end_def)
  moreover have "\<forall>x. r = Inr x \<longrightarrow> answered_by dev (p1 @ p2) x"
    using 1(4) p2(2) status3_result_Inr by blast
  ultimately show ?thesis using p1(1) p2(1) by auto
qed

lemma SendZbStatus3_total:
  assumes "ctx_deadline c = Some d"
  shows "\<exists>r q' es'. SendZbStatus3 pick1 pick2 c dev timeout outcome q es = Some (r, q', es') \<and> q_now q' \<le> max (q_now q) d"
proof -
  obtain ch bc where b: "status3_begin (q_bc q) dev = (ch, bc)" by (cases "status3_begin (q_bc q) dev")
  let ?q0 = "q\<lparr> q_bc := bc, q_published := q_published q @ [(''cmnd/'' @ bcf_BridgeName (bc_cfg bc) @ ''/ZbStatus3'', dev)] \<rparr>"
  have "\<exists>x \<le> d. min_time (case outcome of PubDone d ok \<Rightarrow> Some (q_now q + d) | PubNever \<Rightarrow> None) (Some d) = Some x"
    by (cases outcome) auto
  then obtain x where x: "min_time (case outcome of PubDone d ok \<Rightarrow> Some (q_now q + d) | PubNever \<Rightarrow> None) (Some d) = Some x"
    "x \<le> d" by blast
  obtain q1 es1 where w1: "q_wait (q_ctx_done c) (Some x) ?q0 es = Some (q1, es1)"
    using q_wait_total by (metis prod.exhaust)
  let ?t = "choose_token pick1 outcome (q_now q) c q1"
  let ?timer = "q_now q1 + timeout"
  obtain q2 es2 where w2: "(if ?t = TokenDone True
      then q_wait (\<lambda>q. q_ctx_done c q \<or> zb_bufs (q_bc q) ch \<noteq> None) (Some (min ?timer d)) q1 es1
      else Some (q1, es1)) = Some (q2, es2)"
    using q_wait_total [of "\<lambda>q. q_ctx_done c q \<or> zb_bufs (q_bc q) ch \<noteq> None" "min ?timer d" q1 es1] by fastforce
  have "q_now q2 \<le> max (q_now q1) d"
    using w2 q_wait_time [of "\<lambda>q. q_ctx_done c q \<or> zb_bufs (q_bc q) ch \<noteq> None" "min ?timer d" q1 es1 q2 es2]
    by (simp add: max_def min_def split: if_splits)
  then have time: "q_now q2 \<le> max (q_now q) d"
    using q_wait_time [OF w1] x(2) by auto
  have "?t = TokenDone True \<longrightarrow> reply_ready ch ?timer c q2 (choose_reply pick2 ch ?timer c q2)"
  proof
    assume "?t = TokenDone True"
    with w2 have "(q_ctx_done c q2 \<or> zb_bufs (q_bc q2) ch \<noteq> None) \<or> q_reached (Some (min ?timer d)) q2"
      by (auto dest: q_wait_post)
    then have "q_ctx_done c q2 \<or> zb_bufs (q_bc q2) ch \<noteq> None \<or> ?timer \<le> q_now q2"
      using q_deadline_done [OF assms, of q2] by (auto simp: q_reached_def min_def split: if_splits)
    then show "reply_ready ch ?timer c q2 (choose_reply pick2 ch ?timer c q2)" by (rule choose_reply_ready)
  qed
  from status3_result_total [OF this] obtain r where
    r: "status3_result (q_bc q2) ch ?t (choose_reply pick2 ch ?timer c q2) = Some r" by blast
  have "SendZbStatus3 pick1 pick2 c dev timeout outcome q es = Some (r, q2\<lparr> q_bc := status3_end (q_bc q2) dev \<rparr>, es2)"
  proof (cases "?t = TokenDone True")
    case True
    with b w1 w2 r show ?thesis
      unfolding SendZbStatus3_def by (simp add: assms x(1) Let_def del: min_time.simps) (simp add: assms)
  next
    case False
    with b w1 w2 r show ?thesis
      unfolding SendZbStatus3_def by (simp add: assms x(1) Let_def del: min_time.simps)
  qed
  with time show ?thesis by auto
qed

subsection \<open>The advisory check after a close\<close>

text \<open>\<open>Manager.SendZbStatus3\<close> looks the client up; the timeline is the client's.\<close>

definition Manager_SendZbStatus3 :: "token_outcome \<Rightarrow> reply_outcome \<Rightarrow> ctx \<Rightarrow> string \<Rightarrow> string \<Rightarrow> duration \<Rightarrow> publish_outcome
    \<Rightarrow> world \<Rightarrow> query_event timeline \<Rightarrow> ((status3_error + ZbStatus3ValveResult) \<times> time) option" where
  "Manager_SendZbStatus3 pick1 pick2 c bridgeName deviceName timeout outcome w qes =
     (case mgr_bridges (w_mgr w) bridgeName of
        None \<Rightarrow> Some (Inl BridgeNotConnected, w_now w)
      | Some bc \<Rightarrow> do {
          (r, q, qes) \<leftarrow> SendZbStatus3 pick1 pick2 c deviceName timeout outcome
            \<lparr> q_now = w_now w, q_cancelled = w_cancelled w, q_bc = bc, q_metrics = w_metrics w,
              q_published = [] \<rparr> qes;
          Some (r, q_now q)
        })"

text \<open>
  The check sleeps and then queries the valve on a context of its own. The first timeline runs
  while it sleeps, the second one, of the client, while it queries.
\<close>

definition checkClosedWithStatus3 :: "token_outcome \<Rightarrow> reply_outcome \<Rightarrow> publish_outcome \<Rightarrow> string \<Rightarrow> string
    \<Rightarrow> world \<Rightarrow> external timeline \<Rightarrow> query_event timeline \<Rightarrow> (check_verdict \<times> time) option" where
  "checkClosedWithStatus3 pick1 pick2 outcome bridgeName deviceName w es qes =
     do {
       (w, es) \<leftarrow> block (\<lambda>_. False) (Some (w_now w + 2 * Second)) w es;
       (let (cid, w) = new_ctx w;
            c = WithDeadline (w_now w + 10 * Second) (WithCancel cid Background)
        in do {
          (r, t) \<leftarrow> Manager_SendZbStatus3 pick1 pick2 c bridgeName deviceName (8 * Second) outcome w qes;
          Some (status3_verdict r, t)
        })
     }"

text \<open>
  The advisory check after a close always returns, at most twelve seconds after it was
  started: its goroutine cannot leak, even when the MQTT library never completes the publish
  and no answer comes.
\<close>

theorem status_check_returns:
  "\<exists>verdict t. checkClosedWithStatus3 pick1 pick2 outcome bridgeName deviceName w es qes = Some (verdict, t) \<and>
    t \<le> w_now w + 12 * Second"
proof -
  obtain v es1 where wt: "block (\<lambda>_. False) (Some (w_now w + 2 * Second)) w es = Some (v, es1)"
    using wait_total by fast
  have v: "w_now v \<le> w_now w + 2 * Second"
    using external.wait_until [OF wt] by (simp add: Second_def)
  show ?thesis
  proof (cases "mgr_bridges (w_mgr v) bridgeName")
    case None
    with wt v show ?thesis by (simp add: checkClosedWithStatus3_def Manager_SendZbStatus3_def new_ctx_def Let_def Second_def)
  next
    case (Some bc)
    let ?q = "\<lparr> q_now = w_now v, q_cancelled = w_cancelled v, q_bc = bc, q_metrics = w_metrics v, q_published = [] \<rparr>"
    obtain r q' es' where
      "SendZbStatus3 pick1 pick2 (WithDeadline (w_now v + 10 * Second) (WithCancel (w_next_ctx v) Background))
         deviceName (8 * Second) outcome ?q qes = Some (r, q', es')"
      "q_now q' \<le> max (w_now v) (w_now v + 10 * Second)"
      using SendZbStatus3_total [of "WithDeadline (w_now v + 10 * Second) (WithCancel (w_next_ctx v) Background)"
          "w_now v + 10 * Second" pick1 pick2 deviceName "8 * Second" outcome ?q qes] by auto
    with wt v Some show ?thesis by (simp add: checkClosedWithStatus3_def Manager_SendZbStatus3_def new_ctx_def Let_def Second_def)
  qed
qed

subsection \<open>An unreachable broker\<close>

text \<open>
  The library retries the first connect until it succeeds, so the token of a broker that
  cannot be reached never completes. A reconcile's context has no deadline; then \<open>Upsert\<close>, and
  with it the reconcile of the bridge, does not return until the context is cancelled.
\<close>

definition never_cancels :: "nat \<Rightarrow> external \<Rightarrow> bool" where
  "never_cancels i e \<longleftrightarrow> e \<noteq> Stop i"

lemma never_cancelled:
  "stable external_step (never_cancels i) (\<lambda>w. i \<notin> set (w_cancelled w) \<and> p_cancelFn (w_pl w) \<noteq> Some i)"
proof (unfold_locales, goal_cases)
  case (2 w e)
  then show ?case
    by (cases e) (auto simp: never_cancels_def pipeline_ops fold_dispatch_frame request_def alloc_act_def Enqueue_def
      ping_apply_def UpdateConfig_def Let_def upd_pl_def newAction_def split: option.splits)
qed simp

lemma wait_forever:
  assumes "stable env ok Q" "\<And>w. Q w \<Longrightarrow> \<not> ready w" "Q w" "list_all (\<lambda>x. ok (snd x)) es"
  shows "wait env ready None w es = None"
  using assms(3,4)
proof (induction es arbitrary: w)
  case Nil
  then show ?case using assms(2) by (simp add: reached_def)
next
  case (Cons x es)
  obtain t e where x: "x = (t, e)" by (cases x)
  have "Q (env e (advance t w))"
    using Cons.prems stable.rely_env [OF assms(1)] stable.rely_advance [OF assms(1)] by (simp add: x)
  with Cons assms(2) show ?case by (simp add: x reached_def)
qed

lemma unreachable_broker_blocks:
  assumes "mgr_bridges (w_mgr w) (bcf_BridgeName cfg) = None"
    and "i \<notin> set (w_cancelled w)" "p_cancelFn (w_pl w) \<noteq> Some i" "list_all (\<lambda>x. never_cancels i (snd x)) es"
  shows "Upsert_blocking (WithCancel i Background) PubNever cfg w es = None"
proof -
  have "block (\<lambda>w. ctx_done w (WithCancel i Background)) None w es = None"
    by (rule wait_forever [OF never_cancelled _ _ assms(4)]) (use assms(2,3) in \<open>auto simp: ctx_done_def ctx_err_def\<close>)
  with assms(1) show ?thesis by (simp add: Upsert_blocking_def connect_and_register_def Connect_def Let_def)
qed


definition demo_answer :: query_event where
  "demo_answer = ResultMessage ''stat/b/RESULT'' (Some (JObject [(''ZbStatus3'', JArray [JObject
     [(''Device'', JString ''0x1A2B''), (''Name'', JString ''garden''), (''Power'', JNumber (IntLit 1))]])]))"

definition demo_query :: query_world where
  "demo_query = \<lparr> q_now = 0, q_cancelled = [], q_bc = newBridgeClient (b_cfg ''h''), q_metrics = new_metrics, q_published = [] \<rparr>"

definition demo_reply :: ZbStatus3ValveResult where
  "demo_reply = \<lparr> zr_DeviceName = ''garden'', zr_ShortAddr = ''0x1A2B'', zr_Power = Some 1 \<rparr>"

lemma demo_query_run:
  "map_option fst (SendZbStatus3 TokenCtxDone ReplyChannel (WithDeadline 100 Background) ''0x1a2b'' 50 (PubDone 1 True)
     demo_query [(5, demo_answer)]) = Some (Inr demo_reply)"
  by code_simp

theorem status_answer_sound_witness:
  "\<exists>q' es' pre. SendZbStatus3 TokenCtxDone ReplyChannel (WithDeadline 100 Background) ''0x1a2b'' 50 (PubDone 1 True)
     demo_query [(5, demo_answer)] = Some (Inr demo_reply, q', es') \<and> [(5, demo_answer)] = pre @ es' \<and>
     answered_by ''0x1a2b'' pre demo_reply"
proof -
  obtain q' es' where run: "SendZbStatus3 TokenCtxDone ReplyChannel (WithDeadline 100 Background) ''0x1a2b'' 50
      (PubDone 1 True) demo_query [(5, demo_answer)] = Some (Inr demo_reply, q', es')"
    using demo_query_run by auto
  have "chans_ok (q_bc demo_query)" by (simp add: demo_query_def chans_ok_def newBridgeClient_def Let_def)
  from status_answer_sound [OF run this] run show ?thesis by blast
qed

end
