(* ===== verification/Waiter.thy ===== *)
theory Waiter
  imports Action
begin

text \<open>
  The goroutines inside one \<open>waitForPower\<close> of \<^verbatim>\<open>internal/scheduler/pipeline.go\<close>,
  statement by statement: every call of the subscribed handler, the watcher of the context
  and the receiver of the result channel interleave freely. Theory \<^verbatim>\<open>World\<close> takes
  each of them as one step; here is what the finer interleavings do.
\<close>

subsection \<open>The state\<close>

text \<open>The program points of one handler call, with the power its event reports.\<close>

datatype handler_pc =
    HCheck "int option"     \<comment> \<open>before the select on \<open>done\<close>\<close>
  | HMatch "int option"     \<comment> \<open>before the comparison with the expected power\<close>
  | HSend                   \<comment> \<open>before the non-blocking send of nil\<close>
  | HClose                  \<comment> \<open>before \<open>close(done)\<close>\<close>
  | HEnd

datatype watcher_pc =
    WSelect                 \<comment> \<open>before the select on \<open>ctx.Done()\<close> and \<open>done\<close>\<close>
  | WCheck                  \<comment> \<open>before the inner select on \<open>done\<close>\<close>
  | WClose                  \<comment> \<open>before \<open>close(done)\<close>\<close>
  | WUnsub                  \<comment> \<open>before \<open>unsub()\<close>\<close>
  | WSend                   \<comment> \<open>before \<open>ch <- ctx.Err()\<close>, which blocks while the buffer is full\<close>
  | WEnd

record waiter =
  wt_ch :: "ctx_error option option"        \<comment> \<open>the buffer of \<open>ch\<close>\<close>
  wt_done :: bool                           \<comment> \<open>\<open>done\<close> is closed\<close>
  wt_ctx :: "ctx_error option"              \<comment> \<open>\<open>ctx.Err()\<close>\<close>
  wt_subscribed :: bool
  wt_handlers :: "handler_pc list"
  wt_watcher :: watcher_pc
  wt_received :: "ctx_error option option"  \<comment> \<open>what the caller got from \<open>ch\<close>\<close>
  wt_seen :: "int option list"              \<comment> \<open>the events the handler was called with\<close>
  wt_panic :: bool                          \<comment> \<open>a channel was closed twice\<close>

definition new_waiter :: waiter where
  "new_waiter = \<lparr> wt_ch = None, wt_done = False, wt_ctx = None, wt_subscribed = True, wt_handlers = [],
     wt_watcher = WSelect, wt_received = None, wt_seen = [], wt_panic = False \<rparr>"

text \<open>One statement of handler call \<open>i\<close>.\<close>

definition handler_step :: "int \<Rightarrow> nat \<Rightarrow> waiter \<Rightarrow> waiter" where
  "handler_step expected i s =
     (let goto = (\<lambda>pc s. s\<lparr> wt_handlers := (wt_handlers s)[i := pc] \<rparr>) in
      case wt_handlers s ! i of
        HCheck p \<Rightarrow> if wt_done s then goto HEnd s else goto (HMatch p) s
      | HMatch p \<Rightarrow> if p = Some expected then goto HSend s else goto HEnd s
      | HSend \<Rightarrow> if wt_ch s = None then goto HClose (s\<lparr> wt_ch := Some None \<rparr>) else goto HEnd s
      | HClose \<Rightarrow> if wt_done s then s\<lparr> wt_panic := True \<rparr>
                  else goto HEnd (s\<lparr> wt_done := True, wt_subscribed := False \<rparr>)
      | HEnd \<Rightarrow> s)"

text \<open>One statement of the watcher; \<open>choice\<close> is Go's choice when both cases of its select are ready.\<close>

definition watcher_step :: "bool \<Rightarrow> waiter \<Rightarrow> waiter" where
  "watcher_step choice s =
     (case wt_watcher s of
        WSelect \<Rightarrow>
          if wt_ctx s \<noteq> None \<and> (choice \<or> \<not> wt_done s) then s\<lparr> wt_watcher := WCheck \<rparr>
          else if wt_done s then s\<lparr> wt_watcher := WEnd \<rparr> else s
      | WCheck \<Rightarrow> if wt_done s then s\<lparr> wt_watcher := WEnd \<rparr> else s\<lparr> wt_watcher := WClose \<rparr>
      | WClose \<Rightarrow> if wt_done s then s\<lparr> wt_panic := True \<rparr> else s\<lparr> wt_done := True, wt_watcher := WUnsub \<rparr>
      | WUnsub \<Rightarrow> s\<lparr> wt_subscribed := False, wt_watcher := WSend \<rparr>
      | WSend \<Rightarrow> if wt_ch s = None then s\<lparr> wt_ch := Some (wt_ctx s), wt_watcher := WEnd \<rparr> else s
      | WEnd \<Rightarrow> s)"

text \<open>
  The transitions. A panic stops the program. The handler may be called whenever it was
  subscribed when the event's receivers were collected, which can be before \<open>unsub\<close> ran.
\<close>

inductive wstep :: "int \<Rightarrow> waiter \<Rightarrow> waiter \<Rightarrow> bool" for expected where
  event: "\<not> wt_panic s \<Longrightarrow>
    wstep expected s (s\<lparr> wt_handlers := wt_handlers s @ [HCheck p], wt_seen := p # wt_seen s \<rparr>)"
| handler: "\<not> wt_panic s \<Longrightarrow> i < length (wt_handlers s) \<Longrightarrow> wstep expected s (handler_step expected i s)"
| watcher: "\<not> wt_panic s \<Longrightarrow> wstep expected s (watcher_step choice s)"
| expire: "\<not> wt_panic s \<Longrightarrow> wt_ctx s = None \<Longrightarrow> wstep expected s (s\<lparr> wt_ctx := Some e \<rparr>)"
| receive: "\<not> wt_panic s \<Longrightarrow> wt_ch s = Some v \<Longrightarrow> wt_received s = None \<Longrightarrow>
    wstep expected s (s\<lparr> wt_ch := None, wt_received := Some v \<rparr>)"

inductive_simps wstep_iff: "wstep expected s t"

definition wreach :: "int \<Rightarrow> waiter \<Rightarrow> bool" where
  "wreach expected s \<longleftrightarrow> (wstep expected)\<^sup>*\<^sup>* new_waiter s"

subsection \<open>Soundness of the answer\<close>

definition answer_ok :: "int \<Rightarrow> waiter \<Rightarrow> ctx_error option \<Rightarrow> bool" where
  "answer_ok expected s v \<longleftrightarrow>
     (case v of None \<Rightarrow> Some expected \<in> set (wt_seen s) | Some e \<Rightarrow> wt_ctx s = Some e)"

fun pc_ok :: "int \<Rightarrow> int option list \<Rightarrow> handler_pc \<Rightarrow> bool" where
  "pc_ok expected seen (HCheck p) = (p \<in> set seen)"
| "pc_ok expected seen (HMatch p) = (p \<in> set seen)"
| "pc_ok expected seen HEnd = True"
| "pc_ok expected seen _ = (Some expected \<in> set seen)"

definition waiter_inv :: "int \<Rightarrow> waiter \<Rightarrow> bool" where
  "waiter_inv expected s \<longleftrightarrow>
     list_all (pc_ok expected (wt_seen s)) (wt_handlers s) \<and>
     (\<forall>v. wt_ch s = Some v \<longrightarrow> answer_ok expected s v) \<and>
     (\<forall>v. wt_received s = Some v \<longrightarrow> answer_ok expected s v) \<and>
     (wt_watcher s \<in> {WCheck, WClose, WUnsub, WSend} \<longrightarrow> wt_ctx s \<noteq> None)"

lemma pc_ok_Cons: "pc_ok expected seen pc \<Longrightarrow> pc_ok expected (p # seen) pc"
  by (cases pc) auto

lemma answer_ok_cong [simp]:
  "answer_ok expected (s\<lparr> wt_handlers := hs \<rparr>) v = answer_ok expected s v"
  "answer_ok expected (s\<lparr> wt_ch := x \<rparr>) v = answer_ok expected s v"
  "answer_ok expected (s\<lparr> wt_done := b \<rparr>) v = answer_ok expected s v"
  "answer_ok expected (s\<lparr> wt_subscribed := b \<rparr>) v = answer_ok expected s v"
  "answer_ok expected (s\<lparr> wt_watcher := w \<rparr>) v = answer_ok expected s v"
  "answer_ok expected (s\<lparr> wt_received := r \<rparr>) v = answer_ok expected s v"
  "answer_ok expected (s\<lparr> wt_panic := b \<rparr>) v = answer_ok expected s v"
  by (cases v; simp add: answer_ok_def)+

lemma list_all_update: "list_all P hs \<Longrightarrow> P x \<Longrightarrow> list_all P (hs[i := x])"
  by (auto simp: list_all_iff dest!: subsetD [OF set_update_subset_insert])

lemma waiter_inv_handler:
  assumes "waiter_inv expected s" "i < length (wt_handlers s)"
  shows "waiter_inv expected (handler_step expected i s)"
proof -
  have pc: "pc_ok expected (wt_seen s) (wt_handlers s ! i)" using assms by (auto simp: waiter_inv_def list_all_length)
  have hs: "list_all (pc_ok expected (wt_seen s)) ((wt_handlers s)[i := x])"
    if "pc_ok expected (wt_seen s) x" for x
    using assms(1) that by (auto simp: waiter_inv_def list_all_update)
  show ?thesis
    using assms(1) pc hs unfolding waiter_inv_def handler_step_def Let_def
    by (cases "wt_handlers s ! i") (auto simp: answer_ok_def [of _ _ None])
qed

lemma waiter_inv_watcher: "waiter_inv expected s \<Longrightarrow> waiter_inv expected (watcher_step c s)"
  unfolding waiter_inv_def watcher_step_def
  by (cases "wt_watcher s") (auto simp: answer_ok_def [of _ s "wt_ctx s"])

lemma waiter_inv_step: "wstep expected s t \<Longrightarrow> waiter_inv expected s \<Longrightarrow> waiter_inv expected t"
proof (induction rule: wstep.induct)
  case (event s p)
  then have "list_all (pc_ok expected (p # wt_seen s)) (wt_handlers s)"
    by (auto simp: waiter_inv_def list_all_iff intro: pc_ok_Cons)
  with event show ?case by (auto simp: waiter_inv_def answer_ok_def split: option.splits)
next
  case (handler s i) then show ?case by (intro waiter_inv_handler)
next
  case (watcher s c) then show ?case by (intro waiter_inv_watcher)
next
  case (expire s e)
  then show ?case by (auto simp: waiter_inv_def answer_ok_def split: option.splits)
next
  case (receive s v)
  then show ?case by (simp add: waiter_inv_def)
qed

lemma waiter_inv_reach: "wreach expected s \<Longrightarrow> waiter_inv expected s"
  unfolding wreach_def
proof (induction rule: rtranclp_induct)
  case base
  show ?case by (simp add: new_waiter_def waiter_inv_def)
next
  case (step s t)
  show ?case by (rule waiter_inv_step [OF step.hyps(2) step.IH])
qed

text \<open>
  However the goroutines of a confirmation wait interleave, the caller is told nil only
  after the handler was called with an event reporting the expected power, and an error only
  when the context ended, with the context's own error.
\<close>

theorem waiter_answer_sound:
  assumes "(wstep expected)\<^sup>*\<^sup>* new_waiter s" "wt_received s = Some v"
  shows "case v of None \<Rightarrow> Some expected \<in> set (wt_seen s) | Some e \<Rightarrow> wt_ctx s = Some e"
  using waiter_inv_reach [of expected s] assms by (simp add: wreach_def waiter_inv_def answer_ok_def)

subsection \<open>The double close\<close>

text \<open>
  A schedule: the handler has put nil into the channel and is about to close \<open>done\<close>; the
  context ends, the watcher finds \<open>done\<close> still open and closes it; the handler closes it again.
\<close>

definition sent_state :: waiter where
  "sent_state = handler_step 0 0 (handler_step 0 0 (handler_step 0 0
     (new_waiter\<lparr> wt_handlers := [HCheck (Some 0)], wt_seen := [Some 0] \<rparr>)))"

definition race_state :: waiter where
  "race_state = handler_step 0 0 (watcher_step True (watcher_step True (watcher_step True
     (sent_state\<lparr> wt_ctx := Some DeadlineExceeded \<rparr>))))"

lemmas race_eval = new_waiter_def handler_step_def watcher_step_def Let_def

lemma sent_state_eval: "sent_state = new_waiter\<lparr> wt_handlers := [HClose], wt_seen := [Some 0], wt_ch := Some None \<rparr>"
  by (simp add: sent_state_def race_eval)

lemma wstep_trans: "(wstep e)\<^sup>*\<^sup>* s t \<Longrightarrow> wstep e t u \<Longrightarrow> (wstep e)\<^sup>*\<^sup>* s u"
  by (rule rtranclp.rtrancl_into_rtrancl)

lemma handler_trans:
  "(wstep e)\<^sup>*\<^sup>* s t \<Longrightarrow> \<not> wt_panic t \<Longrightarrow> i < length (wt_handlers t) \<Longrightarrow> (wstep e)\<^sup>*\<^sup>* s (handler_step e i t)"
  by (erule wstep_trans) (rule wstep.handler)

lemma watcher_trans: "(wstep e)\<^sup>*\<^sup>* s t \<Longrightarrow> \<not> wt_panic t \<Longrightarrow> (wstep e)\<^sup>*\<^sup>* s (watcher_step c t)"
  by (erule wstep_trans) (rule wstep.watcher)

lemma sent_reachable: "(wstep 0)\<^sup>*\<^sup>* new_waiter sent_state"
proof -
  let ?s = "new_waiter\<lparr> wt_handlers := [HCheck (Some 0)], wt_seen := [Some 0] \<rparr>"
  have "wstep 0 new_waiter ?s" using wstep.event [of new_waiter 0 "Some 0"] by (simp add: new_waiter_def)
  then have "(wstep 0)\<^sup>*\<^sup>* new_waiter ?s" by (rule r_into_rtranclp)
  then have "(wstep 0)\<^sup>*\<^sup>* new_waiter (handler_step 0 0 ?s)" by (rule handler_trans) (simp_all add: race_eval)
  then have "(wstep 0)\<^sup>*\<^sup>* new_waiter (handler_step 0 0 (handler_step 0 0 ?s))"
    by (rule handler_trans) (simp_all add: race_eval)
  then show ?thesis unfolding sent_state_def by (rule handler_trans) (simp_all add: race_eval)
qed

lemma race_reachable: "(wstep 0)\<^sup>*\<^sup>* new_waiter race_state"
proof -
  let ?R = "(wstep 0)\<^sup>*\<^sup>* new_waiter" and ?s = "sent_state\<lparr> wt_ctx := Some DeadlineExceeded \<rparr>"
  have "wstep 0 sent_state ?s"
    by (rule wstep.expire) (simp_all add: sent_state_eval new_waiter_def)
  with sent_reachable have "?R ?s"
    by (rule wstep_trans)
  then have "?R (watcher_step True ?s)" by (rule watcher_trans) (simp add: sent_state_eval race_eval)
  then have "?R (watcher_step True (watcher_step True ?s))"
    by (rule watcher_trans) (simp add: sent_state_eval race_eval)
  then have "?R (watcher_step True (watcher_step True (watcher_step True ?s)))"
    by (rule watcher_trans) (simp add: sent_state_eval race_eval)
  then show ?thesis
    unfolding race_state_def by (rule handler_trans) (simp_all add: sent_state_eval race_eval)
qed

text \<open>
  C21: The two goroutines of a confirmation wait can close the channel \<open>done\<close> twice, which
  panics and takes the controller down: a sensor message that confirms the command at the
  moment the wait times out or is cancelled is enough.
\<close>

theorem waiter_double_close: "\<exists>s. (wstep 0)\<^sup>*\<^sup>* new_waiter s \<and> wt_panic s"
  using race_reachable by (intro exI [of _ race_state]) (simp add: race_state_def sent_state_eval race_eval)

theorem waiter_answer_sound_witness:
  "\<exists>s. (wstep 0)\<^sup>*\<^sup>* new_waiter s \<and> wt_received s = Some None \<and> Some 0 \<in> set (wt_seen s)"
proof -
  let ?s = "sent_state\<lparr> wt_ch := None, wt_received := Some None \<rparr>"
  have "wstep 0 sent_state ?s" by (rule wstep.receive) (simp_all add: sent_state_eval new_waiter_def)
  with sent_reachable have r: "(wstep 0)\<^sup>*\<^sup>* new_waiter ?s" by (rule wstep_trans)
  with waiter_answer_sound [OF r, of None] show ?thesis by (intro exI [of _ ?s]) simp
qed

subsection \<open>What a wait promises\<close>

text \<open>
  The abstract contract: events are seen and the context may end; the answer is given once and
  for all, nil after an event with the expected power was seen, or the context's error after
  it ended.
\<close>

record promise =
  pr_seen :: "int option list"
  pr_ctx :: "ctx_error option"
  pr_answer :: "ctx_error option option"

inductive pstep :: "int \<Rightarrow> promise \<Rightarrow> promise \<Rightarrow> bool" for expected where
  see: "pstep expected p (p\<lparr> pr_seen := x # pr_seen p \<rparr>)"
| expire: "pr_ctx p = None \<Longrightarrow> pstep expected p (p\<lparr> pr_ctx := Some e \<rparr>)"
| confirm: "pr_answer p = None \<Longrightarrow> Some expected \<in> set (pr_seen p) \<Longrightarrow> pstep expected p (p\<lparr> pr_answer := Some None \<rparr>)"
| give_up: "pr_answer p = None \<Longrightarrow> pr_ctx p = Some e \<Longrightarrow> pstep expected p (p\<lparr> pr_answer := Some (Some e) \<rparr>)"

text \<open>The answer of a wait: what the caller has received, or what lies in the channel for it.\<close>

definition promised :: "waiter \<Rightarrow> promise" where
  "promised s = \<lparr> pr_seen = wt_seen s, pr_ctx = wt_ctx s,
     pr_answer = (case wt_received s of Some v \<Rightarrow> Some v | None \<Rightarrow> wt_ch s) \<rparr>"

lemma promised_eq:
  "wt_seen t = wt_seen s \<Longrightarrow> wt_ctx t = wt_ctx s \<Longrightarrow> wt_ch t = wt_ch s \<Longrightarrow> wt_received t = wt_received s \<Longrightarrow>
   promised t = promised s"
  by (simp add: promised_def cong: option.case_cong)

text \<open>A value put into the empty channel is the answer, unless the caller has had one.\<close>

lemma promised_put:
  assumes "wt_seen t = wt_seen s" "wt_ctx t = wt_ctx s" "wt_received t = wt_received s" "wt_ch s = None" "wt_ch t = Some v"
    and "case v of None \<Rightarrow> Some expected \<in> set (wt_seen s) | Some e \<Rightarrow> wt_ctx s = Some e"
  shows "(pstep expected)\<^sup>=\<^sup>= (promised s) (promised t)"
proof (cases "wt_received s")
  case None
  then have t: "promised t = (promised s)\<lparr> pr_answer := Some v \<rparr>" "pr_answer (promised s) = None"
    using assms(1-5) by (simp_all add: promised_def)
  show ?thesis
  proof (cases v)
    case None
    with assms(6) t pstep.confirm [of "promised s" expected] show ?thesis by (simp add: promised_def)
  next
    case (Some e)
    with assms(6) t pstep.give_up [of "promised s" e expected] show ?thesis by (simp add: promised_def)
  qed
next
  case (Some u)
  with assms(1-3) have "promised t = promised s" by (simp add: promised_def)
  then show ?thesis by simp
qed

lemma wstep_promised:
  assumes "wstep expected s t" "waiter_inv expected s"
  shows "(pstep expected)\<^sup>=\<^sup>= (promised s) (promised t)"
  using assms
proof (induction rule: wstep.induct)
  case (event s p)
  have "promised (s\<lparr> wt_handlers := wt_handlers s @ [HCheck p], wt_seen := p # wt_seen s \<rparr>) =
      (promised s)\<lparr> pr_seen := p # pr_seen (promised s) \<rparr>" by (simp add: promised_def cong: option.case_cong)
  then show ?case using pstep.see by simp
next
  case (handler s i)
  have pc: "pc_ok expected (wt_seen s) (wt_handlers s ! i)" using handler by (auto simp: waiter_inv_def list_all_length)
  show ?case
  proof (cases "wt_handlers s ! i = HSend \<and> wt_ch s = None")
    case True
    with pc show ?thesis by (intro promised_put [where v = None]) (simp_all add: handler_step_def Let_def)
  next
    case False
    then have "promised (handler_step expected i s) = promised s"
      by (intro promised_eq) (auto simp: handler_step_def Let_def split: handler_pc.splits)
    then show ?thesis by simp
  qed
next
  case (watcher s choice)
  show ?case
  proof (cases "wt_watcher s = WSend \<and> wt_ch s = None")
    case True
    with watcher obtain e where "wt_ctx s = Some e" by (auto simp: waiter_inv_def)
    with True show ?thesis by (intro promised_put [where v = "Some e"]) (simp_all add: watcher_step_def)
  next
    case False
    then have "promised (watcher_step choice s) = promised s"
      by (intro promised_eq) (auto simp: watcher_step_def split: watcher_pc.splits)
    then show ?thesis by simp
  qed
next
  case (expire s e)
  have "promised (s\<lparr> wt_ctx := Some e \<rparr>) = (promised s)\<lparr> pr_ctx := Some e \<rparr>" "pr_ctx (promised s) = None"
    using expire by (simp_all add: promised_def cong: option.case_cong)
  then show ?case using pstep.expire by simp
next
  case (receive s v)
  then have "promised (s\<lparr> wt_ch := None, wt_received := Some v \<rparr>) = promised s" by (simp add: promised_def)
  then show ?case by simp
qed

text \<open>
  C19: The statements of the goroutines inside a confirmation wait, however they interleave with
  each other, with events and with the end of the context, implement the contract: each one
  leaves the promise as it is or is one of its steps. So the caller gets one answer that never
  changes, nil only after an event that reported the expected power, an error only after the
  context ended, and then the context's own.
\<close>

theorem waiter_implements_promise:
  assumes "(wstep expected)\<^sup>*\<^sup>* new_waiter s" "wstep expected s t"
  shows "promised t = promised s \<or> pstep expected (promised s) (promised t)"
  using wstep_promised [OF assms(2)] waiter_inv_reach [of expected s] assms(1) by (auto simp: wreach_def)

theorem waiter_implements_promise_witness:
  "\<exists>s t. (wstep 0)\<^sup>*\<^sup>* new_waiter s \<and> wstep 0 s t \<and> pr_answer (promised t) = Some None \<and> promised t = promised s"
proof -
  let ?t = "sent_state\<lparr> wt_ch := None, wt_received := Some None \<rparr>"
  have st: "wstep 0 sent_state ?t" by (rule wstep.receive) (simp_all add: sent_state_eval new_waiter_def)
  have "\<not> pstep 0 (promised sent_state) (promised ?t)"
    by (auto simp: promised_def sent_state_eval new_waiter_def elim!: pstep.cases)
  with waiter_implements_promise [OF sent_reachable st] have "promised ?t = promised sent_state" by blast
  moreover have "pr_answer (promised ?t) = Some None" by (simp add: promised_def)
  ultimately show ?thesis using sent_reachable st by blast
qed

lemma answer_stays:
  "(pstep expected)\<^sup>*\<^sup>* p q \<Longrightarrow> pr_answer p = Some v \<Longrightarrow> pr_answer q = Some v"
proof (induction rule: rtranclp_induct)
  case (step y z)
  from step.hyps(2) step.IH [OF step.prems] show ?case by (cases) simp_all
qed simp

end
