(* ===== verification/K8s.thy ===== *)
theory K8s
  imports Scheduler
begin

text \<open>
  \<^verbatim>\<open>internal/k8s\<close> and the types of \<^verbatim>\<open>api/v1alpha1\<close>: the two reconcilers and the
  status writer. The resources owned by another controller (devices and bridges) are not
  defined in the repository; their records hold the fields the sources read. The cluster is
  of any type \<open>'k\<close>: every call of the client may see it changed by others, so each
  operation gives its result and the cluster afterwards. The client and
  \<open>RetryOnConflict\<close> are parameters.
\<close>

subsection \<open>Resources\<close>

record MQTTValveSpec =
  sp_Disabled :: bool
  sp_RetryCount :: int
  sp_CommandTimeoutSeconds :: int
  sp_KeepClosedIntervalSeconds :: int
  sp_MaxOpenDurationSeconds :: int
  sp_CloseRepeatCount :: int

record Condition =
  cd_Type :: string
  cd_Status :: string
  cd_Reason :: string
  cd_Message :: string
  cd_LastTransitionTime :: time
  cd_ObservedGeneration :: int

record MQTTValveStatus =
  st_ValveState :: string
  st_LastOpenTime :: "time option"
  st_LastCloseTime :: "time option"
  st_CurrentActionID :: string
  st_DailyIrrigationVolume :: rat
  st_LastValveOpenDuration :: int
  st_Conditions :: "Condition list"

record MQTTValve =
  mv_Name :: string
  mv_Namespace :: string
  mv_DeletionTimestamp :: "time option"
  mv_Generation :: int
  mv_Spec :: MQTTValveSpec
  mv_Status :: MQTTValveStatus

record TypeRef =
  tr_Kind :: string
  tr_Name :: string
  tr_Namespace :: string

record ObjectRef =
  or_Name :: string
  or_Namespace :: string

record MQTTDevice =
  md_TypeRef :: "TypeRef option"
  md_BridgeRef :: ObjectRef
  md_FriendlyName :: string
  md_ShortAddr :: string
  md_Disabled :: bool

record CredentialsRef =
  cref_Name :: string
  cref_Namespace :: string
  cref_UsernameKey :: string
  cref_PasswordKey :: string

record MQTTBridge =
  mb_Name :: string
  mb_Namespace :: string
  mb_DeletionTimestamp :: "time option"
  mb_BridgeName :: string
  mb_Host :: string
  mb_Port :: int
  mb_MaxReconnectBackoffSeconds :: int
  mb_Topics :: "TopicEntry list"
  mb_CredentialsSecretRef :: "CredentialsRef option"

subsection \<open>The Kubernetes client\<close>

datatype api_error = NotFound | Conflict | OtherError string

type_synonym nsname = "string \<times> string"   \<comment> \<open>namespace and name\<close>

record 'k client =
  cl_get_valve :: "nsname \<Rightarrow> 'k \<Rightarrow> (api_error + MQTTValve) \<times> 'k"
  cl_get_bridge :: "nsname \<Rightarrow> 'k \<Rightarrow> (api_error + MQTTBridge) \<times> 'k"
  cl_get_secret :: "nsname \<Rightarrow> 'k \<Rightarrow> (api_error + (string \<rightharpoonup> string)) \<times> 'k"
  cl_list_devices :: "'k \<Rightarrow> (api_error + MQTTDevice list) \<times> 'k"
  cl_status_update :: "MQTTValve \<Rightarrow> 'k \<Rightarrow> api_error option \<times> 'k"
  cl_IgnoreNotFound :: "api_error \<Rightarrow> api_error option"

type_synonym 'k attempt = "'k \<Rightarrow> api_error option \<times> 'k"
type_synonym 'k retry = "'k attempt \<Rightarrow> 'k attempt"

text \<open>\<open>types.NamespacedName.String\<close>\<close>

definition nsname_String :: "nsname \<Rightarrow> string" where
  "nsname_String nn = fst nn @ ''/'' @ snd nn"

subsection \<open>Conditions and status\<close>

fun setCondition :: "Condition list \<Rightarrow> Condition \<Rightarrow> Condition list" where
  "setCondition [] new = [new]"
| "setCondition (c # cs) new =
     (if cd_Type c = cd_Type new then
        (if cd_Status c = cd_Status new then c # cs else new # cs)
      else c # setCondition cs new)"

text \<open>The fields \<open>UpdateValveStatus\<close> sets on a freshly read valve.\<close>

definition write_status :: "time \<Rightarrow> ValveState \<Rightarrow> string \<Rightarrow> MQTTValve \<Rightarrow> MQTTValve" where
  "write_status now st actionID v =
     (let s = (mv_Status v)\<lparr> st_ValveState := st, st_CurrentActionID := actionID \<rparr>;
          s = (if st = ValveStateOpen then s\<lparr> st_LastOpenTime := Some now \<rparr>
               else if st = ValveStateClosed then s\<lparr> st_LastCloseTime := Some now \<rparr>
               else s)
      in v\<lparr> mv_Status := s \<rparr>)"

definition UpdateValveStatus :: "'k client \<Rightarrow> 'k retry \<Rightarrow> time \<Rightarrow> string \<Rightarrow> string \<Rightarrow> ValveState \<Rightarrow> string
    \<Rightarrow> 'k attempt" where
  "UpdateValveStatus cl retry now name namespace st actionID =
     retry (\<lambda>k. case cl_get_valve cl (namespace, name) k of
                  (Inl e, k) \<Rightarrow> (cl_IgnoreNotFound cl e, k)
                | (Inr v, k) \<Rightarrow> cl_status_update cl (write_status now st actionID v) k)"

definition ready_condition :: "time \<Rightarrow> bool \<Rightarrow> string \<Rightarrow> string \<Rightarrow> MQTTValve \<Rightarrow> Condition" where
  "ready_condition now ready reason msg v =
     \<lparr> cd_Type = ''Ready'', cd_Status = (if \<not> ready then ''False'' else ''True''), cd_Reason = reason,
       cd_Message = msg, cd_LastTransitionTime = now, cd_ObservedGeneration = mv_Generation v \<rparr>"

definition patchReadyCondition :: "'k client \<Rightarrow> 'k retry \<Rightarrow> time \<Rightarrow> MQTTValve \<Rightarrow> bool \<Rightarrow> string \<Rightarrow> string
    \<Rightarrow> 'k attempt" where
  "patchReadyCondition cl retry now valve ready reason msg =
     retry (\<lambda>k. case cl_get_valve cl (mv_Namespace valve, mv_Name valve) k of
                  (Inl e, k) \<Rightarrow> (cl_IgnoreNotFound cl e, k)
                | (Inr v, k) \<Rightarrow>
                    (let s = mv_Status v;
                         s = s\<lparr> st_Conditions := setCondition (st_Conditions s) (ready_condition now ready reason msg v) \<rparr>
                     in cl_status_update cl (v\<lparr> mv_Status := s \<rparr>) k))"

subsection \<open>The valve reconciler\<close>

fun find_device_in :: "string \<Rightarrow> string \<Rightarrow> MQTTDevice list \<Rightarrow> MQTTDevice option" where
  "find_device_in valveName namespace [] = None"
| "find_device_in valveName namespace (d # ds) =
     (case md_TypeRef d of
        None \<Rightarrow> find_device_in valveName namespace ds
      | Some t \<Rightarrow>
          if tr_Kind t = ''MQTTValve'' \<and> tr_Name t = valveName \<and> tr_Namespace t = namespace
          then Some d else find_device_in valveName namespace ds)"

definition findDevice :: "'k client \<Rightarrow> string \<Rightarrow> string \<Rightarrow> 'k
    \<Rightarrow> (api_error + MQTTDevice option) \<times> 'k" where
  "findDevice cl valveName namespace k =
     (case cl_list_devices cl k of
        (Inl e, k) \<Rightarrow> (Inl e, k)
      | (Inr items, k) \<Rightarrow> (Inr (find_device_in valveName namespace items), k))"

text \<open>\<open>time.Duration(n) * time.Second\<close>\<close>

definition seconds :: "int \<Rightarrow> duration" where
  "seconds n = wrap_signed 64 (n * Second)"

definition or_default :: "int \<Rightarrow> int \<Rightarrow> int" where
  "or_default x d = (if x = 0 then d else x)"

definition valve_info :: "MQTTValve \<Rightarrow> MQTTDevice \<Rightarrow> MQTTBridge \<Rightarrow> ValveInfo" where
  "valve_info valve dev bridge =
     \<lparr> vi_Name = mv_Name valve, vi_Namespace = mv_Namespace valve,
       vi_Config =
         \<lparr> Disabled = sp_Disabled (mv_Spec valve) \<or> md_Disabled dev,
           RetryCount = or_default (sp_RetryCount (mv_Spec valve)) 3,
           CommandTimeout = or_default (seconds (sp_CommandTimeoutSeconds (mv_Spec valve))) (30 * Second),
           KeepClosedInterval = or_default (seconds (sp_KeepClosedIntervalSeconds (mv_Spec valve))) (5 * Minute),
           MaxOpenDuration = seconds (sp_MaxOpenDurationSeconds (mv_Spec valve)),
           CloseRepeatCount = or_default (sp_CloseRepeatCount (mv_Spec valve)) 3 \<rparr>,
       vi_FriendlyName = md_FriendlyName dev, vi_ShortAddr = md_ShortAddr dev,
       vi_BridgeName = mb_BridgeName bridge, vi_BridgeHost = mb_Host bridge,
       vi_BridgePort = or_default (mb_Port bridge) 1883,
       vi_State = st_ValveState (mv_Status valve),
       vi_LinkQuality = 0, vi_BatteryPercentage = 0, vi_Reachable = False, vi_DailyIrrigationVolume = 0,
       vi_LastValveOpenDuration = 0, vi_CurrentActionID = '''', vi_LastOpenTime = None, vi_LastCloseTime = None \<rparr>"

record reconcile_result =
  rr_RequeueAfter :: duration
  rr_err :: "api_error option"

definition requeue :: reconcile_result where
  "requeue = \<lparr> rr_RequeueAfter = 30 * Second, rr_err = None \<rparr>"

definition done_with :: "api_error option \<Rightarrow> reconcile_result" where
  "done_with e = \<lparr> rr_RequeueAfter = 0, rr_err = e \<rparr>"

definition Reconcile_valve :: "'k client \<Rightarrow> 'k retry \<Rightarrow> ctx \<Rightarrow> time \<Rightarrow> nsname \<Rightarrow> 'k \<Rightarrow> Scheduler
    \<Rightarrow> reconcile_result \<times> 'k \<times> Scheduler" where
  "Reconcile_valve cl retry c now req k s =
     (case cl_get_valve cl req k of
        (Inl e, k) \<Rightarrow> (done_with (cl_IgnoreNotFound cl e), k, s)
      | (Inr valve, k) \<Rightarrow>
          if mv_DeletionTimestamp valve \<noteq> None
          then (done_with None, k, DeregisterValve (nsname_String req) s)
          else (case findDevice cl (mv_Name valve) (mv_Namespace valve) k of
                  (Inl e, k) \<Rightarrow> (requeue, k, s)
                | (Inr None, k) \<Rightarrow> (requeue, k, s)
                | (Inr (Some dev), k) \<Rightarrow>
                    (case cl_get_bridge cl (or_Namespace (md_BridgeRef dev), or_Name (md_BridgeRef dev)) k of
                       (Inl e, k) \<Rightarrow> (requeue, k, s)
                     | (Inr bridge, k) \<Rightarrow>
                         (let s = RegisterValve c (valve_info valve dev bridge) s;
                              (_, k) = patchReadyCondition cl retry now valve True ''Configured''
                                         ''valve pipeline running'' k
                          in (done_with None, k, s)))))"

subsection \<open>Watches\<close>

datatype client_object = ObjDevice MQTTDevice | ObjBridge MQTTBridge | ObjOther

definition mapDeviceToValve :: "client_object \<Rightarrow> nsname list" where
  "mapDeviceToValve obj =
     (case obj of
        ObjDevice dev \<Rightarrow>
          (case md_TypeRef dev of
             None \<Rightarrow> []
           | Some t \<Rightarrow> if tr_Kind t \<noteq> ''MQTTValve'' then [] else [(tr_Namespace t, tr_Name t)])
      | _ \<Rightarrow> [])"

fun bridge_requests :: "MQTTBridge \<Rightarrow> MQTTDevice list \<Rightarrow> nsname list" where
  "bridge_requests bridge [] = []"
| "bridge_requests bridge (dev # devs) =
     (case md_TypeRef dev of
        None \<Rightarrow> bridge_requests bridge devs
      | Some t \<Rightarrow>
          if tr_Kind t \<noteq> ''MQTTValve'' then bridge_requests bridge devs
          else if or_Name (md_BridgeRef dev) = mb_Name bridge \<and> or_Namespace (md_BridgeRef dev) = mb_Namespace bridge
          then (tr_Namespace t, tr_Name t) # bridge_requests bridge devs
          else bridge_requests bridge devs)"

definition mapBridgeToValves :: "'k client \<Rightarrow> client_object \<Rightarrow> 'k \<Rightarrow> nsname list \<times> 'k" where
  "mapBridgeToValves cl obj k =
     (case obj of
        ObjBridge bridge \<Rightarrow>
          (case cl_list_devices cl k of
             (Inl e, k) \<Rightarrow> ([], k)
           | (Inr items, k) \<Rightarrow> (bridge_requests bridge items, k))
      | _ \<Rightarrow> ([], k))"

subsection \<open>The bridge reconciler\<close>

text \<open>Reading a missing key of a secret's data gives the empty string.\<close>

definition secret_data :: "(string \<rightharpoonup> string) \<Rightarrow> string \<Rightarrow> string" where
  "secret_data d key = (case d key of None \<Rightarrow> '''' | Some v \<Rightarrow> v)"

definition readCredentials :: "'k client \<Rightarrow> CredentialsRef \<Rightarrow> 'k \<Rightarrow> (api_error + string \<times> string) \<times> 'k" where
  "readCredentials cl ref k =
     (case cl_get_secret cl (cref_Namespace ref, cref_Name ref) k of
        (Inl e, k) \<Rightarrow> (Inl e, k)
      | (Inr d, k) \<Rightarrow>
          (let usernameKey = (if cref_UsernameKey ref = '''' then ''username'' else cref_UsernameKey ref);
               passwordKey = (if cref_PasswordKey ref = '''' then ''password'' else cref_PasswordKey ref)
           in (Inr (secret_data d usernameKey, secret_data d passwordKey), k)))"

definition bridge_config :: "MQTTBridge \<Rightarrow> string \<Rightarrow> string \<Rightarrow> BridgeConfig" where
  "bridge_config b username password =
     \<lparr> bcf_BridgeName = mb_BridgeName b, bcf_Host = mb_Host b, bcf_Port = or_default (mb_Port b) 1883,
       bcf_Username = username, bcf_Password = password, bcf_Hostname = '''',
       bcf_MaxReconnectBackoff = mb_MaxReconnectBackoffSeconds b,
       bcf_Topics = map (\<lambda>t. t\<lparr> te_QoS := te_QoS t mod 256 \<rparr>) (mb_Topics b) \<rparr>"

definition bridge_credentials :: "'k client \<Rightarrow> MQTTBridge \<Rightarrow> 'k \<Rightarrow> (api_error + string \<times> string) \<times> 'k" where
  "bridge_credentials cl b k =
     (case mb_CredentialsSecretRef b of
        None \<Rightarrow> (Inr ('''', ''''), k)
      | Some ref \<Rightarrow> readCredentials cl ref k)"

text \<open>\<open>connect\<close> is the outcome of \<open>Connect\<close>, should \<open>Upsert\<close> call it.\<close>

definition Reconcile_bridge :: "'k client \<Rightarrow> api_error option \<Rightarrow> nsname \<Rightarrow> 'k \<Rightarrow> Manager \<Rightarrow> Metrics
    \<Rightarrow> reconcile_result \<times> 'k \<times> Manager \<times> Metrics" where
  "Reconcile_bridge cl connect req k mgr m =
     (case cl_get_bridge cl req k of
        (Inl e, k) \<Rightarrow> (done_with (cl_IgnoreNotFound cl e), k, mgr, m)
      | (Inr bridge, k) \<Rightarrow>
          if mb_DeletionTimestamp bridge \<noteq> None
          then (done_with None, k, Remove mgr m (mb_BridgeName bridge))
          else (case bridge_credentials cl bridge k of
                  (Inl e, k) \<Rightarrow> (done_with (Some e), k, mgr, m)
                | (Inr (username, password), k) \<Rightarrow>
                    (case Upsert mgr m (bridge_config bridge username password) connect of
                       (e, mgr, m) \<Rightarrow> (done_with e, k, mgr, m))))"

end
