(* ===== verification/K8sProps.thy ===== *)
theory K8sProps
  imports K8s MqttProps SchedulerProps
begin

text \<open>
  What the reconcilers promise: which scheduler and bridge operations a resource leads to,
  that defaults and conversions give usable configurations, that a change of a bridge
  reaches the valves on it, and how status writes behave under concurrent changes. What is
  assumed of the client libraries is written as two predicates.
\<close>

text \<open>\<open>client.IgnoreNotFound\<close>: nil for a not-found error, any other error unchanged.\<close>

definition ignores_NotFound :: "'k client \<Rightarrow> bool" where
  "ignores_NotFound cl \<longleftrightarrow> (\<forall>e. cl_IgnoreNotFound cl e = (if e = NotFound then None else Some e))"

text \<open>
  \<open>retry.RetryOnConflict\<close>: run the function again while it reports a conflict, a bounded
  number of times; the result is that of the last run.
\<close>

fun retry_loop :: "nat \<Rightarrow> 'k attempt \<Rightarrow> 'k attempt" where
  "retry_loop 0 f k = f k"
| "retry_loop (Suc n) f k =
     (case f k of (Some Conflict, k') \<Rightarrow> retry_loop n f k' | res \<Rightarrow> res)"

definition retries_on_conflict :: "'k retry \<Rightarrow> bool" where
  "retries_on_conflict retry \<longleftrightarrow> (\<forall>f k. \<exists>n. retry f k = retry_loop n f k)"

lemma retry_loop_last: "\<exists>k0. retry_loop n f k = f k0"
proof (induction n f k rule: retry_loop.induct)
  case (2 n f k)
  then show ?case by (cases "f k") (auto split: option.splits api_error.splits intro: exI [of _ k])
qed auto

lemma retry_last: "retries_on_conflict retry \<Longrightarrow> \<exists>k0. retry f k = f k0"
  unfolding retries_on_conflict_def by (metis retry_loop_last)

text \<open>A cluster with one valve, its device and its bridge, used by the witnesses.\<close>

definition k_spec :: MQTTValveSpec where
  "k_spec = \<lparr> sp_Disabled = False, sp_RetryCount = 0, sp_CommandTimeoutSeconds = 20,
     sp_KeepClosedIntervalSeconds = 300, sp_MaxOpenDurationSeconds = 3600, sp_CloseRepeatCount = 2 \<rparr>"

definition k_valve :: "time option \<Rightarrow> MQTTValve" where
  "k_valve del = \<lparr> mv_Name = ''v'', mv_Namespace = ''ns'', mv_DeletionTimestamp = del, mv_Generation = 1,
     mv_Spec = k_spec, mv_Status = \<lparr> st_ValveState = ''closed'', st_LastOpenTime = None, st_LastCloseTime = None,
       st_CurrentActionID = '''', st_DailyIrrigationVolume = 0, st_LastValveOpenDuration = 0, st_Conditions = [] \<rparr> \<rparr>"

definition k_device :: MQTTDevice where
  "k_device = \<lparr> md_TypeRef = Some \<lparr> tr_Kind = ''MQTTValve'', tr_Name = ''v'', tr_Namespace = ''ns'' \<rparr>,
     md_BridgeRef = \<lparr> or_Name = ''b'', or_Namespace = ''ns'' \<rparr>, md_FriendlyName = ''garden'',
     md_ShortAddr = ''0xDA76'', md_Disabled = False \<rparr>"

definition k_bridge :: MQTTBridge where
  "k_bridge = \<lparr> mb_Name = ''b'', mb_Namespace = ''ns'', mb_DeletionTimestamp = None, mb_BridgeName = ''tasmota'',
     mb_Host = ''h'', mb_Port = 0, mb_MaxReconnectBackoffSeconds = 0, mb_Topics = [], mb_CredentialsSecretRef = None \<rparr>"

definition k_client :: "MQTTValve option client" where
  "k_client =
     \<lparr> cl_get_valve = (\<lambda>nn k. (case k of None \<Rightarrow> Inl NotFound | Some v \<Rightarrow> Inr v, k)),
       cl_get_bridge = (\<lambda>nn k. (Inr k_bridge, k)),
       cl_get_secret = (\<lambda>nn k. (Inl NotFound, k)),
       cl_list_devices = (\<lambda>k. (Inr [k_device], k)),
       cl_status_update = (\<lambda>v k. (None, Some v)),
       cl_IgnoreNotFound = (\<lambda>e. if e = NotFound then None else Some e) \<rparr>"

lemma k_eval:
  "cl_get_valve k_client nn (Some v) = (Inr v, Some v)" "cl_get_valve k_client nn None = (Inl NotFound, None)"
  "cl_get_bridge k_client nn k = (Inr k_bridge, k)" "cl_list_devices k_client k = (Inr [k_device], k)"
  "cl_status_update k_client v k = (None, Some v)" "md_TypeRef k_device = Some \<lparr> tr_Kind = ''MQTTValve'', tr_Name = ''v'', tr_Namespace = ''ns'' \<rparr>"
  "mv_Name (k_valve del) = ''v''" "mv_Namespace (k_valve del) = ''ns''" "mv_DeletionTimestamp (k_valve del) = del"
  "mv_Spec (k_valve del) = k_spec"
  by (simp_all add: k_client_def k_device_def k_valve_def)

lemma k_client_ok: "ignores_NotFound k_client" "retries_on_conflict (retry_loop 4)"
  by (auto simp: ignores_NotFound_def retries_on_conflict_def k_client_def)

subsection \<open>The valve reconciler\<close>

lemma find_device_in_Some:
  "find_device_in n ns ds = Some d \<Longrightarrow>
     d \<in> set ds \<and> (\<exists>t. md_TypeRef d = Some t \<and> tr_Kind t = ''MQTTValve'' \<and> tr_Name t = n \<and> tr_Namespace t = ns)"
  by (induction ds) (auto split: option.splits if_splits)

lemma RegisterValve_info:
  "\<exists>p. map_of (s_pipelines (RegisterValve c i s)) (Key i) = Some p \<and>
    vi_Config (p_info p) = vi_Config i \<and> CommandTarget (p_info p) = CommandTarget i \<and>
    vi_BridgeName (p_info p) = vi_BridgeName i"
  by (auto simp: RegisterValve_def unfocus_def UpdateConfig_def upd_info_def upd_pl_def focus_def Let_def
      newPipeline_def update_conv' CommandTarget_def split: option.splits prod.splits)

lemma valve_info_simps:
  "Key (valve_info v d b) = mv_Namespace v @ ''/'' @ mv_Name v"
  "CommandTarget (valve_info v d b) = (if md_ShortAddr d \<noteq> '''' then md_ShortAddr d else md_FriendlyName d)"
  "vi_BridgeName (valve_info v d b) = mb_BridgeName b"
  by (simp_all add: valve_info_def Key_def CommandTarget_def)

lemma Reconcile_valve_cases:
  assumes "Reconcile_valve cl retry c now req k s = (res, k', s')"
  obtains
    (unchanged) "s' = s" "res = requeue \<or> (\<exists>e. fst (cl_get_valve cl req k) = Inl e \<and> res = done_with (cl_IgnoreNotFound cl e))"
  | (deleted) v where "fst (cl_get_valve cl req k) = Inr v" "mv_DeletionTimestamp v \<noteq> None"
      "s' = DeregisterValve (nsname_String req) s"
  | (registered) v ds d b k1 k2 where "fst (cl_get_valve cl req k) = Inr v" "mv_DeletionTimestamp v = None"
      "find_device_in (mv_Name v) (mv_Namespace v) ds = Some d" "fst (cl_list_devices cl k1) = Inr ds"
      "fst (cl_get_bridge cl (or_Namespace (md_BridgeRef d), or_Name (md_BridgeRef d)) k2) = Inr b"
      "s' = RegisterValve c (valve_info v d b) s"
  using assms unfolding Reconcile_valve_def findDevice_def Let_def
  by (auto split: prod.splits sum.splits option.splits if_splits simp del: not_None_eq) (metis fst_conv)+

text \<open>
  A reconcile that ends without error and without a requeue has either seen the valve
  gone or being deleted (then it is deregistered), or has left a pipeline running for it that
  carries the configuration computed from the valve, from a device that refers to this valve,
  and from that device's bridge.
\<close>

theorem reconcile_registers_the_valve:
  assumes "sched_inv s" "ignores_NotFound cl"
    and run: "Reconcile_valve cl retry c now req k s = (done_with None, k', s')"
  shows "fst (cl_get_valve cl req k) = Inl NotFound \<or>
    (\<exists>v. fst (cl_get_valve cl req k) = Inr v \<and> mv_DeletionTimestamp v \<noteq> None \<and>
         map_of (s_pipelines s') (nsname_String req) = None) \<or>
    (\<exists>v d t b k2 p. fst (cl_get_valve cl req k) = Inr v \<and> mv_DeletionTimestamp v = None \<and>
         md_TypeRef d = Some t \<and> tr_Kind t = ''MQTTValve'' \<and> tr_Name t = mv_Name v \<and> tr_Namespace t = mv_Namespace v \<and>
         fst (cl_get_bridge cl (or_Namespace (md_BridgeRef d), or_Name (md_BridgeRef d)) k2) = Inr b \<and>
         map_of (s_pipelines s') (mv_Namespace v @ ''/'' @ mv_Name v) = Some p \<and>
         vi_Config (p_info p) = vi_Config (valve_info v d b) \<and>
         CommandTarget (p_info p) = (if md_ShortAddr d \<noteq> '''' then md_ShortAddr d else md_FriendlyName d) \<and>
         vi_BridgeName (p_info p) = mb_BridgeName b)"
  using run
proof (cases rule: Reconcile_valve_cases)
  case unchanged
  then show ?thesis using assms(2)
    by (auto simp: requeue_def done_with_def Second_def ignores_NotFound_def split: if_splits)
next
  case (deleted v)
  then show ?thesis using valves.look_remove [OF assms(1)] by auto
next
  case (registered v ds d b k1 k2)
  from RegisterValve_info [of c "valve_info v d b" s, unfolded valve_info_simps] obtain p where
    "map_of (s_pipelines s') (mv_Namespace v @ ''/'' @ mv_Name v) = Some p"
    "vi_Config (p_info p) = vi_Config (valve_info v d b)"
    "CommandTarget (p_info p) = (if md_ShortAddr d \<noteq> '''' then md_ShortAddr d else md_FriendlyName d)"
    "vi_BridgeName (p_info p) = mb_BridgeName b"
    unfolding registered(6) by blast
  with registered find_device_in_Some [OF registered(3)] show ?thesis by blast
qed

theorem reconcile_registers_the_valve_witness:
  "\<exists>k' s' p. Reconcile_valve k_client (retry_loop 4) Background 0 (''ns'', ''v'') (Some (k_valve None)) reg_sched
      = (done_with None, k', s') \<and> map_of (s_pipelines s') ''ns/v'' = Some p \<and> RetryCount (vi_Config (p_info p)) = 3"
proof -
  obtain k' s' where run: "Reconcile_valve k_client (retry_loop 4) Background 0 (''ns'', ''v'') (Some (k_valve None)) reg_sched
      = (done_with None, k', s')"
    by (simp add: Reconcile_valve_def findDevice_def k_eval Let_def split_beta)
  have "RetryCount (vi_Config (valve_info (k_valve None) d b)) = 3" for d b
    by (simp add: valve_info_def k_eval k_spec_def or_default_def)
  with reconcile_registers_the_valve [OF reg_sched_inv k_client_ok(1) run] run show ?thesis
    by (auto simp: k_eval)
qed

text \<open>
  When the resource of a valve is gone by the time it is reconciled (it has no finalizer,
  so its deletion is usually seen this way), the reconcile reports success and leaves the
  scheduler as it is: the pipeline of the deleted valve keeps running.
\<close>

theorem vanished_valve_keeps_its_pipeline:
  assumes "ignores_NotFound cl" "fst (cl_get_valve cl req k) = Inl NotFound"
  shows "fst (Reconcile_valve cl retry c now req k s) = done_with None \<and>
    snd (snd (Reconcile_valve cl retry c now req k s)) = s"
  using assms by (auto simp: Reconcile_valve_def ignores_NotFound_def split: prod.splits)

theorem vanished_valve_keeps_its_pipeline_witness:
  "snd (snd (Reconcile_valve k_client (retry_loop 4) Background 0 (''ns'', ''v'') None reg_sched)) = reg_sched"
  using vanished_valve_keeps_its_pipeline [OF k_client_ok(1), of "(''ns'', ''v'')" None] by (simp add: k_client_def)

subsection \<open>Configurations\<close>

lemma seconds_exact: "in_signed 32 n \<Longrightarrow> seconds n = n * Second"
  unfolding seconds_def by (rule wrap_signed_id) (auto simp: in_signed_def Second_def)

text \<open>
  C32: The configuration a valve gets is usable: with fields that the resource's schema admits
  (32-bit, not negative; zero when absent) at least one attempt and one command per attempt
  are made, the command timeout and the safety ping's interval are positive, no conversion
  to nanoseconds overflows, and a disabled device disables its valve.
\<close>

theorem reconciled_config_is_usable:
  assumes "\<forall>x \<in> {sp_RetryCount (mv_Spec v), sp_CommandTimeoutSeconds (mv_Spec v), sp_KeepClosedIntervalSeconds (mv_Spec v),
      sp_MaxOpenDurationSeconds (mv_Spec v), sp_CloseRepeatCount (mv_Spec v)}. in_signed 32 x \<and> 0 \<le> x"
  shows "let cfg = vi_Config (valve_info v d b) in
    1 \<le> RetryCount cfg \<and> 1 \<le> CloseRepeatCount cfg \<and> 0 < CommandTimeout cfg \<and> 0 < KeepClosedInterval cfg \<and>
    CommandTimeout cfg = (if sp_CommandTimeoutSeconds (mv_Spec v) = 0 then 30 * Second
                          else sp_CommandTimeoutSeconds (mv_Spec v) * Second) \<and>
    MaxOpenDuration cfg = sp_MaxOpenDurationSeconds (mv_Spec v) * Second \<and>
    keepClosed_interval cfg = KeepClosedInterval cfg \<and>
    (Disabled cfg \<longleftrightarrow> sp_Disabled (mv_Spec v) \<or> md_Disabled d)"
  using assms by (auto simp: valve_info_def or_default_def seconds_exact Second_def Minute_def keepClosed_interval_def Let_def)

theorem reconciled_config_is_usable_witness:
  "CommandTimeout (vi_Config (valve_info (k_valve None) k_device k_bridge)) = 20 * Second \<and>
   RetryCount (vi_Config (valve_info (k_valve None) k_device k_bridge)) \<ge> 1"
  using reconciled_config_is_usable [of "k_valve None" k_device k_bridge]
  by (simp add: k_valve_def k_spec_def in_signed_def Let_def)

subsection \<open>The bridge reconciler\<close>

lemma done_with_None: "done_with e = done_with None \<longleftrightarrow> e = None"
  by (simp add: done_with_def)

text \<open>
  A reconcile of a bridge that reports success leaves the manager as the resource says:
  nothing changed because the resource is gone, no client when it is being deleted, and
  otherwise a client for the bridge's name with the resource's host, port (1883 by default),
  topics and the user of its secret. Clients of other names are not touched.
\<close>

theorem reconciled_bridge_is_current:
  assumes "ignores_NotFound cl" and run: "Reconcile_bridge cl conn req k mgr m = (done_with None, k', mgr', m')"
  shows "fst (cl_get_bridge cl req k) = Inl NotFound \<and> mgr' = mgr \<or>
    (\<exists>b k1. cl_get_bridge cl req k = (Inr b, k1) \<and>
       (\<forall>n. n \<noteq> mb_BridgeName b \<longrightarrow> mgr_bridges mgr' n = mgr_bridges mgr n) \<and>
       (if mb_DeletionTimestamp b \<noteq> None then mgr_bridges mgr' (mb_BridgeName b) = None
        else \<exists>user pw bc. fst (bridge_credentials cl b k1) = Inr (user, pw) \<and>
          mgr_bridges mgr' (mb_BridgeName b) = Some bc \<and>
          bcf_Host (bc_cfg bc) = mb_Host b \<and> bcf_Username (bc_cfg bc) = user \<and>
          bcf_Port (bc_cfg bc) = (if mb_Port b = 0 then 1883 else mb_Port b) \<and>
          map te_Topic (bcf_Topics (bc_cfg bc)) = map te_Topic (mb_Topics b)))"
proof -
  obtain r k1 where get: "cl_get_bridge cl req k = (r, k1)" by (cases "cl_get_bridge cl req k")
  show ?thesis
  proof (cases r)
    case (Inl e)
    with get run assms(1) show ?thesis
      by (auto simp: Reconcile_bridge_def ignores_NotFound_def done_with_None split: if_splits)
  next
    case (Inr b)
    show ?thesis
    proof (cases "mb_DeletionTimestamp b")
      case (Some t)
      with get Inr run Remove_bridges [of mgr m "mb_BridgeName b"] show ?thesis
        by (auto simp: Reconcile_bridge_def)
    next
      case None
      obtain c k2 where cred: "bridge_credentials cl b k1 = (c, k2)" by (cases "bridge_credentials cl b k1")
      with get Inr None run obtain user pw where c: "c = Inr (user, pw)"
        by (cases c) (auto simp: Reconcile_bridge_def done_with_None)
      let ?cfg = "bridge_config b user pw"
      have up: "Upsert mgr m ?cfg conn = (None, mgr', m')"
        using get Inr None run cred c by (auto simp: Reconcile_bridge_def done_with_None split: prod.splits)
      obtain bc where bc: "mgr_bridges mgr' (mb_BridgeName b) = Some bc" "serves bc ?cfg"
        using Upsert_success [OF up] by (auto simp: bridge_config_def)
      have "\<forall>n. n \<noteq> mb_BridgeName b \<longrightarrow> mgr_bridges mgr' n = mgr_bridges mgr n"
        using Upsert_others [of _ ?cfg mgr m conn] up by (auto simp: bridge_config_def)
      moreover have "bcf_Host (bc_cfg bc) = mb_Host b \<and> bcf_Username (bc_cfg bc) = user \<and>
          bcf_Port (bc_cfg bc) = (if mb_Port b = 0 then 1883 else mb_Port b) \<and>
          map te_Topic (bcf_Topics (bc_cfg bc)) = map te_Topic (mb_Topics b)"
        using bc(2) by (simp add: serves_def bridge_config_def or_default_def comp_def)
      ultimately show ?thesis using get Inr None cred c bc(1) by auto
    qed
  qed
qed

theorem reconciled_bridge_is_current_witness:
  "\<exists>k' mgr' m' bc. Reconcile_bridge k_client None (''ns'', ''b'') None (NewManager '''') new_metrics = (done_with None, k', mgr', m') \<and>
     mgr_bridges mgr' ''tasmota'' = Some bc \<and> bcf_Port (bc_cfg bc) = 1883"
proof -
  obtain res k' mgr' m' where run: "Reconcile_bridge k_client None (''ns'', ''b'') None (NewManager '''') new_metrics = (res, k', mgr', m')"
    by (metis prod_cases4)
  moreover from this have "res = done_with None"
    by (auto simp: Reconcile_bridge_def k_eval k_bridge_def bridge_credentials_def Upsert_def NewManager_def Let_def)
  moreover have "mb_BridgeName k_bridge = ''tasmota''" "mb_Port k_bridge = 0" "mb_DeletionTimestamp k_bridge = None"
    by (simp_all add: k_bridge_def)
  ultimately show ?thesis
    using reconciled_bridge_is_current [OF k_client_ok(1), of None "(''ns'', ''b'')" None "NewManager ''''" new_metrics k' mgr' m']
    by (auto simp: k_eval)
qed

subsection \<open>Watches\<close>

lemma bridge_requests_iff:
  "(ns, n) \<in> set (bridge_requests b ds) \<longleftrightarrow>
     (\<exists>d t. d \<in> set ds \<and> md_TypeRef d = Some t \<and> tr_Kind t = ''MQTTValve'' \<and> tr_Name t = n \<and> tr_Namespace t = ns \<and>
        or_Name (md_BridgeRef d) = mb_Name b \<and> or_Namespace (md_BridgeRef d) = mb_Namespace b)"
  by (induction ds) (auto split: option.splits)

text \<open>
  A changed bridge is passed on to every valve whose reconcile would use that bridge: if
  the device found for a valve refers to the bridge, the valve is among the requests.
\<close>

theorem bridge_change_reaches_its_valves:
  assumes "find_device_in n ns ds = Some d" "or_Name (md_BridgeRef d) = mb_Name b"
    and "or_Namespace (md_BridgeRef d) = mb_Namespace b" "fst (cl_list_devices cl k) = Inr ds"
  shows "(ns, n) \<in> set (fst (mapBridgeToValves cl (ObjBridge b) k)) \<and> (ns, n) \<in> set (mapDeviceToValve (ObjDevice d))"
proof -
  from find_device_in_Some [OF assms(1)] obtain t where
    t: "d \<in> set ds" "md_TypeRef d = Some t" "tr_Kind t = ''MQTTValve''" "tr_Name t = n" "tr_Namespace t = ns"
    by blast
  then have "(ns, n) \<in> set (bridge_requests b ds)" using assms by (auto simp: bridge_requests_iff)
  then show ?thesis using assms(4) t by (auto simp: mapBridgeToValves_def mapDeviceToValve_def split: prod.splits)
qed

theorem bridge_change_reaches_its_valves_witness:
  "(''ns'', ''v'') \<in> set (fst (mapBridgeToValves k_client (ObjBridge k_bridge) None))"
  using bridge_change_reaches_its_valves [of "''v''" "''ns''" "[k_device]" k_device k_bridge k_client None]
  by (simp add: k_device_def k_bridge_def k_client_def)

subsection \<open>Status\<close>

lemma setCondition_types:
  "set (map cd_Type (setCondition cs new)) = insert (cd_Type new) (set (map cd_Type cs))"
  by (induction cs) auto

text \<open>
  Setting a condition keeps the list a map from types: no type appears twice, all other
  conditions stay, and the condition of the set type has the new status; when it already had
  that status the old entry, with its transition time, stays.
\<close>

theorem setCondition_is_a_map_update:
  assumes "distinct (map cd_Type cs)"
  shows "distinct (map cd_Type (setCondition cs new)) \<and>
    (\<forall>t. t \<noteq> cd_Type new \<longrightarrow> find (\<lambda>c. cd_Type c = t) (setCondition cs new) = find (\<lambda>c. cd_Type c = t) cs) \<and>
    find (\<lambda>c. cd_Type c = cd_Type new) (setCondition cs new) =
      (case find (\<lambda>c. cd_Type c = cd_Type new) cs of
         Some c \<Rightarrow> Some (if cd_Status c = cd_Status new then c else new) | None \<Rightarrow> Some new)"
  using assms
proof (induction cs)
  case (Cons c cs)
  then show ?case using setCondition_types [of cs new] by auto
qed simp

theorem setCondition_is_a_map_update_witness:
  "distinct (map cd_Type (setCondition [] (ready_condition 0 True '''' '''' (k_valve None))))"
  using setCondition_is_a_map_update [of "[]" "ready_condition 0 True '''' '''' (k_valve None)"] by simp

text \<open>
  A status write ends with the outcome of its last attempt: the valve was gone (success),
  could not be read (the error), or the freshly read valve was sent back with the new state
  and action and with everything else as read, and the server's answer is the result. A write
  of the state open sets the time of the last opening anew, also when the valve was open.
\<close>

theorem status_write_uses_fresh_valve:
  assumes "retries_on_conflict retry" "ignores_NotFound cl"
    and "UpdateValveStatus cl retry now name ns st aid k = (e, k')"
  shows "\<exists>k0 k1. cl_get_valve cl (ns, name) k0 = (Inl NotFound, k') \<and> e = None \<or>
    (\<exists>e'. cl_get_valve cl (ns, name) k0 = (Inl e', k') \<and> e' \<noteq> NotFound \<and> e = Some e') \<or>
    (\<exists>v v'. cl_get_valve cl (ns, name) k0 = (Inr v, k1) \<and> cl_status_update cl v' k1 = (e, k') \<and>
       st_ValveState (mv_Status v') = st \<and> st_CurrentActionID (mv_Status v') = aid \<and>
       st_LastOpenTime (mv_Status v') = (if st = ValveStateOpen then Some now else st_LastOpenTime (mv_Status v)) \<and>
       v' = v\<lparr> mv_Status := mv_Status v' \<rparr> \<and> st_Conditions (mv_Status v') = st_Conditions (mv_Status v))"
proof -
  let ?f = "\<lambda>k. case cl_get_valve cl (ns, name) k of
                  (Inl e, k) \<Rightarrow> (cl_IgnoreNotFound cl e, k)
                | (Inr v, k) \<Rightarrow> cl_status_update cl (write_status now st aid v) k"
  obtain k0 where k0: "?f k0 = (e, k')"
    using retry_last [OF assms(1), of ?f k] assms(3) by (auto simp: UpdateValveStatus_def)
  obtain r k1 where g: "cl_get_valve cl (ns, name) k0 = (r, k1)" by (cases "cl_get_valve cl (ns, name) k0")
  have w: "st_ValveState (mv_Status (write_status now st aid v)) = st"
    "st_CurrentActionID (mv_Status (write_status now st aid v)) = aid"
    "st_LastOpenTime (mv_Status (write_status now st aid v)) =
       (if st = ValveStateOpen then Some now else st_LastOpenTime (mv_Status v))"
    "write_status now st aid v = v\<lparr> mv_Status := mv_Status (write_status now st aid v) \<rparr>"
    "st_Conditions (mv_Status (write_status now st aid v)) = st_Conditions (mv_Status v)" for v
    by (simp_all add: write_status_def Let_def)
  show ?thesis
  proof (cases r)
    case (Inl e0)
    with k0 g assms(2) show ?thesis by (intro exI [of _ k0]) (auto simp: ignores_NotFound_def split: if_splits)
  next
    case (Inr v)
    with k0 g have "cl_status_update cl (write_status now st aid v) k1 = (e, k')" by simp
    with Inr g w [of v] show ?thesis by blast
  qed
qed

theorem status_write_uses_fresh_valve_witness:
  "\<exists>k'. UpdateValveStatus k_client (retry_loop 4) 0 ''v'' ''ns'' ValveStateOpen ''a'' (Some (k_valve None)) = (None, Some k') \<and>
     st_ValveState (mv_Status k') = ValveStateOpen"
proof -
  obtain e k' where run: "UpdateValveStatus k_client (retry_loop 4) 0 ''v'' ''ns'' ValveStateOpen ''a'' (Some (k_valve None)) = (e, k')"
    by (cases "UpdateValveStatus k_client (retry_loop 4) 0 ''v'' ''ns'' ValveStateOpen ''a'' (Some (k_valve None))")
  have "e = None" "k' \<noteq> None"
    using run by (auto simp: UpdateValveStatus_def numeral_eq_Suc k_eval)
  with status_write_uses_fresh_valve [OF k_client_ok(2,1) run] run show ?thesis
    by (auto simp: k_client_def)
qed

end
