(* ===== verification/Controllers.thy ===== *)
theory Controllers
  imports K8sProps
begin

text \<open>
  The controllers at work: \<open>SetupWithManager\<close> of both reconcilers, the registration of the
  resource types, and the loop the controller library runs around the valve reconciler. The
  library keeps a cache of the resources up to date, tells the watches about each change, and
  hands the requests they give to \<open>Reconcile\<close>, one after the other, until it reports success
  without a requeue. Changes go on while events are delivered and while a reconcile runs.
\<close>

subsection \<open>Resource types\<close>

record group_version =
  gv_Group :: string
  gv_Version :: string

definition GroupVersion :: group_version where
  "GroupVersion = \<lparr> gv_Group = ''iot.hauke.cloud'', gv_Version = ''v1alpha1'' \<rparr>"

text \<open>A scheme is the set of the kinds it knows; a builder adds kinds of its group to it.\<close>

type_synonym kinds = "(group_version \<times> string) set"

definition SchemeBuilder :: "string list \<Rightarrow> kinds \<Rightarrow> kinds" where
  "SchemeBuilder objects scheme = scheme \<union> set (map (Pair GroupVersion) objects)"

definition registered_kinds :: "string list" where
  "registered_kinds = [''MQTTValve'', ''MQTTValveList'']"

definition AddToScheme :: "kinds \<Rightarrow> kinds" where
  "AddToScheme = SchemeBuilder registered_kinds"

text \<open>
  \<open>init\<close> of \<open>main\<close>: the types of the two imported modules are added by their own functions,
  which may fail; \<open>utilruntime.Must\<close> then panics (\<^term>\<open>None\<close>).
\<close>

definition main_scheme :: "(kinds \<Rightarrow> kinds option) \<Rightarrow> (kinds \<Rightarrow> kinds option) \<Rightarrow> kinds option" where
  "main_scheme clientgo_AddToScheme iotdev_AddToScheme =
     map_option AddToScheme (Option.bind (clientgo_AddToScheme {}) iotdev_AddToScheme)"

subsection \<open>Watches\<close>

text \<open>A change of an object as the cache reports it: before and after, where there was or is one.\<close>

datatype watch_event =
    ValveEvent nsname
  | DeviceEvent "MQTTDevice option" "MQTTDevice option"
  | BridgeEvent "MQTTBridge option" "MQTTBridge option"

definition opt_list :: "'a option \<Rightarrow> 'a list" where
  "opt_list x = (case x of None \<Rightarrow> [] | Some y \<Rightarrow> [y])"

text \<open>\<open>handler.EnqueueRequestsFromMapFunc\<close> applies the function to the old and to the new object.\<close>

fun map_objects :: "('a \<Rightarrow> 'k \<Rightarrow> nsname list \<times> 'k) \<Rightarrow> 'a list \<Rightarrow> 'k \<Rightarrow> nsname list \<times> 'k" where
  "map_objects f [] k = ([], k)"
| "map_objects f (x # xs) k =
     (let (reqs, k) = f x k; (more, k) = map_objects f xs k in (reqs @ more, k))"

text \<open>The three watches of the valve controller (\<open>For\<close> and twice \<open>Watches\<close>).\<close>

fun watch_requests :: "'k client \<Rightarrow> watch_event \<Rightarrow> 'k \<Rightarrow> nsname list \<times> 'k" where
  "watch_requests cl (ValveEvent nn) k = ([nn], k)"
| "watch_requests cl (DeviceEvent old new) k =
     map_objects (\<lambda>d k. (mapDeviceToValve (ObjDevice d), k)) (opt_list old @ opt_list new) k"
| "watch_requests cl (BridgeEvent old new) k =
     map_objects (\<lambda>b. mapBridgeToValves cl (ObjBridge b)) (opt_list old @ opt_list new) k"

subsection \<open>The cache and the work queue\<close>

record store =
  so_valves :: "nsname \<rightharpoonup> MQTTValve"
  so_devices :: "nsname \<rightharpoonup> MQTTDevice"
  so_bridges :: "nsname \<rightharpoonup> MQTTBridge"
  so_events :: "watch_event list"     \<comment> \<open>changes the watches have not been told of yet\<close>
  so_queue :: "nsname set"

definition empty_store :: store where
  "empty_store = \<lparr> so_valves = Map.empty, so_devices = Map.empty, so_bridges = Map.empty, so_events = [], so_queue = {} \<rparr>"

text \<open>Resources carry their own names; a namespace has no slash.\<close>

definition valve_at :: "nsname \<Rightarrow> MQTTValve option \<Rightarrow> bool" where
  "valve_at nn v \<longleftrightarrow> (\<forall>x. v = Some x \<longrightarrow> (mv_Namespace x, mv_Name x) = nn \<and> CHR ''/'' \<notin> set (fst nn))"

definition bridge_at :: "nsname \<Rightarrow> MQTTBridge option \<Rightarrow> bool" where
  "bridge_at nn b \<longleftrightarrow> (\<forall>x. b = Some x \<longrightarrow> (mb_Namespace x, mb_Name x) = nn)"

text \<open>A client that answers from the cache; a list comes in any order.\<close>

definition cache_client :: "(store \<Rightarrow> MQTTDevice list) \<Rightarrow> store client" where
  "cache_client items =
     \<lparr> cl_get_valve = (\<lambda>nn k. (case so_valves k nn of None \<Rightarrow> Inl NotFound | Some v \<Rightarrow> Inr v, k)),
       cl_get_bridge = (\<lambda>nn k. (case so_bridges k nn of None \<Rightarrow> Inl NotFound | Some b \<Rightarrow> Inr b, k)),
       cl_get_secret = (\<lambda>nn k. (Inl NotFound, k)),
       cl_list_devices = (\<lambda>k. (Inr (items k), k)),
       cl_status_update = (\<lambda>v k. (None, k)),
       cl_IgnoreNotFound = (\<lambda>e. if e = NotFound then None else Some e) \<rparr>"

text \<open>
  What happens to the cache: a resource is created, changed or deleted (by anyone, status
  writes of this program included), or a change is delivered to the watches.
\<close>

inductive env :: "store \<Rightarrow> store \<Rightarrow> bool" where
  valve: "valve_at nn v \<Longrightarrow>
    env k (k\<lparr> so_valves := (so_valves k)(nn := v), so_events := ValveEvent nn # so_events k \<rparr>)"
| device: "env k (k\<lparr> so_devices := (so_devices k)(nn := d), so_events := DeviceEvent (so_devices k nn) d # so_events k \<rparr>)"
| bridge: "bridge_at nn b \<Longrightarrow>
    env k (k\<lparr> so_bridges := (so_bridges k)(nn := b), so_events := BridgeEvent (so_bridges k nn) b # so_events k \<rparr>)"
| deliver: "e \<in> set (so_events k) \<Longrightarrow> set (items k) = ran (so_devices k) \<Longrightarrow>
    env k (k\<lparr> so_events := remove1 e (so_events k),
              so_queue := so_queue k \<union> set (fst (watch_requests (cache_client items) e k)) \<rparr>)"

abbreviation envs :: "store \<Rightarrow> store \<Rightarrow> bool" where
  "envs \<equiv> env\<^sup>*\<^sup>*"

text \<open>
  What the reconciler may rely on: its reads come from the cache as it is then (a read of a
  valve or of the devices may also fail), while a call is under way the cache may change.
  \<open>'x\<close> is whatever else the client's answers depend on.
\<close>

definition reads_cache :: "(store \<times> 'x) client \<Rightarrow> bool" where
  "reads_cache cl \<longleftrightarrow> ignores_NotFound cl \<and>
     (\<forall>nn k r k'. cl_get_valve cl nn k = (r, k') \<longrightarrow> envs (fst k) (fst k') \<and>
        (case r of Inl e \<Rightarrow> e = NotFound \<longrightarrow> so_valves (fst k') nn = None | Inr v \<Rightarrow> so_valves (fst k') nn = Some v)) \<and>
     (\<forall>k r k'. cl_list_devices cl k = (r, k') \<longrightarrow> envs (fst k) (fst k') \<and>
        (case r of Inl e \<Rightarrow> True | Inr items \<Rightarrow> set items = ran (so_devices (fst k')))) \<and>
     (\<forall>nn k r k'. cl_get_bridge cl nn k = (r, k') \<longrightarrow> envs (fst k) (fst k') \<and>
        (case r of Inl e \<Rightarrow> True | Inr b \<Rightarrow> so_bridges (fst k') nn = Some b)) \<and>
     (\<forall>v k. envs (fst k) (fst (snd (cl_status_update cl v k))))"

text \<open>The work queue: a request is taken before it is reconciled and comes back when asked for.\<close>

definition take_request :: "nsname \<Rightarrow> store \<Rightarrow> store" where
  "take_request req k = k\<lparr> so_queue := so_queue k - {req} \<rparr>"

definition finish_request :: "nsname \<Rightarrow> reconcile_result \<Rightarrow> store \<Rightarrow> store" where
  "finish_request req res k =
     (if rr_err res \<noteq> None \<or> rr_RequeueAfter res > 0 then k\<lparr> so_queue := insert req (so_queue k) \<rparr> else k)"

text \<open>
  The controller: the cache changes, a request is reconciled, the scheduler is used by the REST
  API and by sensor messages, and the goroutine of a pipeline takes an atomic step (one that
  is not itself a change of the configuration).
\<close>

inductive ctl_step :: "(store \<times> 'x) client \<Rightarrow> (store \<times> 'x) retry \<Rightarrow> ctx
    \<Rightarrow> (store \<times> 'x) \<times> Scheduler \<Rightarrow> (store \<times> 'x) \<times> Scheduler \<Rightarrow> bool" for cl retry c where
  cache: "env k k' \<Longrightarrow> ctl_step cl retry c ((k, x), s) ((k', x'), s)"
| reconcile: "req \<in> so_queue k \<Longrightarrow>
    Reconcile_valve cl retry c now req (take_request req k, x) s = (res, (k', x'), s') \<Longrightarrow>
    ctl_step cl retry c ((k, x), s) ((finish_request req res k', x'), s')"
| use_scheduler: "(\<forall>c i. op \<noteq> Register c i) \<and> (\<forall>key. op \<noteq> Deregister key) \<Longrightarrow>
    ctl_step cl retry c ((k, x), s) ((k, x), sched_step op s)"
| goroutine: "map_of (s_pipelines s) key = Some p \<Longrightarrow> atomic A P (focus s p) w \<Longrightarrow>
    (\<forall>i. w \<noteq> UpdateConfig i (focus s p)) \<Longrightarrow>
    ctl_step cl retry c ((k, x), s) ((k, x), unfocus s key w)"

subsection \<open>In agreement, or about to be\<close>

text \<open>The part of a pipeline's information that comes from the resources.\<close>

definition spec_part :: "ValveInfo \<Rightarrow> ValveConfig \<times> string \<times> string \<times> string \<times> string \<times> int" where
  "spec_part i = (vi_Config i, vi_FriendlyName i, vi_ShortAddr i, vi_BridgeName i, vi_BridgeHost i, vi_BridgePort i)"

definition refers :: "MQTTDevice \<Rightarrow> nsname \<Rightarrow> bool" where
  "refers d nn \<longleftrightarrow> nn \<in> set (mapDeviceToValve (ObjDevice d))"

definition bridge_ref :: "MQTTDevice \<Rightarrow> nsname" where
  "bridge_ref d = (or_Namespace (md_BridgeRef d), or_Name (md_BridgeRef d))"

text \<open>
  A valve is in agreement when it is gone, or is being deleted and has no pipeline, or has a
  pipeline that is configured from the valve, a device that refers to it and that device's
  bridge, all as they are in the cache.
\<close>

definition in_agreement :: "store \<Rightarrow> Scheduler \<Rightarrow> nsname \<Rightarrow> bool" where
  "in_agreement k s nn \<longleftrightarrow>
     (case so_valves k nn of
        None \<Rightarrow> True
      | Some v \<Rightarrow>
          if mv_DeletionTimestamp v \<noteq> None then map_of (s_pipelines s) (nsname_String nn) = None
          else \<exists>d b p. d \<in> ran (so_devices k) \<and> refers d nn \<and> so_bridges k (bridge_ref d) = Some b \<and>
                 map_of (s_pipelines s) (nsname_String nn) = Some p \<and>
                 spec_part (p_info p) = spec_part (valve_info v d b))"

definition affects :: "store \<Rightarrow> nsname \<Rightarrow> watch_event \<Rightarrow> bool" where
  "affects k nn e \<longleftrightarrow>
     (case e of
        ValveEvent m \<Rightarrow> m = nn
      | DeviceEvent old new \<Rightarrow> \<exists>d \<in> set_option old \<union> set_option new. refers d nn
      | BridgeEvent old new \<Rightarrow> \<exists>b \<in> set_option old \<union> set_option new. \<exists>d \<in> ran (so_devices k).
          refers d nn \<and> bridge_ref d = (mb_Namespace b, mb_Name b))"

definition due :: "store \<Rightarrow> nsname \<Rightarrow> bool" where
  "due k nn \<longleftrightarrow> nn \<in> so_queue k \<or> (\<exists>e \<in> set (so_events k). affects k nn e)"

lemma refers_iff:
  "refers d nn \<longleftrightarrow> (\<exists>t. md_TypeRef d = Some t \<and> tr_Kind t = ''MQTTValve'' \<and> tr_Namespace t = fst nn \<and> tr_Name t = snd nn)"
  by (cases "md_TypeRef d"; cases nn) (auto simp: refers_def mapDeviceToValve_def)

lemma find_device_in_refers: "find_device_in n ns ds = Some d \<Longrightarrow> d \<in> set ds \<and> refers d (ns, n)"
  by (auto simp: refers_iff dest!: find_device_in_Some)

lemma bridge_requests_refers:
  "nn \<in> set (bridge_requests b ds) \<longleftrightarrow> (\<exists>d \<in> set ds. refers d nn \<and> bridge_ref d = (mb_Namespace b, mb_Name b))"
  by (cases nn) (auto simp: bridge_requests_iff refers_iff bridge_ref_def)

text \<open>A delivered event puts exactly the affected valves into the queue.\<close>

lemma delivered_requests:
  assumes "set (items k) = ran (so_devices k)"
  shows "set (fst (watch_requests (cache_client items) e k)) = {nn. affects k nn e}"
proof -
  have dev: "set (fst (map_objects (\<lambda>d k. (mapDeviceToValve (ObjDevice d), k)) ds k)) = {nn. \<exists>d \<in> set ds. refers d nn}"
    for ds and k :: store
    by (induction ds) (auto simp: Let_def split_beta refers_def)
  have same: "snd (mapBridgeToValves (cache_client items) (ObjBridge b) k) = k"
    "fst (mapBridgeToValves (cache_client items) (ObjBridge b) k) = bridge_requests b (items k)" for b
    by (simp_all add: mapBridgeToValves_def cache_client_def)
  have br: "set (fst (map_objects (\<lambda>b. mapBridgeToValves (cache_client items) (ObjBridge b)) bs k)) =
      {nn. \<exists>b \<in> set bs. \<exists>d \<in> ran (so_devices k). refers d nn \<and> bridge_ref d = (mb_Namespace b, mb_Name b)}" for bs
    by (induction bs) (auto simp: Let_def split_beta same bridge_requests_refers assms)
  show ?thesis
    by (cases e) (auto simp: affects_def dev br opt_list_def split: option.splits)
qed

lemma due_cases:
  "nn \<in> so_queue k \<Longrightarrow> due k nn" "e \<in> set (so_events k) \<Longrightarrow> affects k nn e \<Longrightarrow> due k nn"
  by (auto simp: due_def)

subsection \<open>Nothing is forgotten\<close>

lemma affects_cong: "so_devices k' = so_devices k \<Longrightarrow> affects k' nn e = affects k nn e"
  by (cases e) (simp_all add: affects_def)

lemma due_env:
  assumes "env k k'" "due k nn"
  shows "due k' nn"
  using assms
proof cases
  case (device dn d)
  show ?thesis
  proof (cases "\<exists>o' \<in> set_option (so_devices k dn). refers o' nn")
    case True
    then have "affects k' nn (DeviceEvent (so_devices k dn) d)" by (auto simp: affects_def)
    then show ?thesis using device(1) by (auto intro: due_cases)
  next
    case False
    then have "affects k nn e \<Longrightarrow> affects k' nn e" for e
      using device(1) by (cases e) (fastforce simp: affects_def ran_def)+
    then show ?thesis using assms(2) device(1) by (auto simp: due_def)
  qed
next
  case (deliver e items)
  then have dev: "so_devices k' = so_devices k" by simp
  show ?thesis
  proof (cases "affects k nn e")
    case True
    then show ?thesis using deliver delivered_requests [where items = items and k = k and e = e, OF deliver(3)] by (intro due_cases(1)) simp
  next
    case False
    then have "ev \<in> set (so_events k')" if "ev \<in> set (so_events k)" "affects k nn ev" for ev
      using that deliver(1) by (cases "ev = e") (simp_all add: in_set_remove1)
    moreover have "so_queue k \<subseteq> so_queue k'" using deliver(1) by auto
    ultimately show ?thesis
      using assms(2) affects_cong [OF dev, of nn] unfolding due_def by blast
  qed
next
  case (valve m v)
  then have "affects k' nn e = affects k nn e" for e by (intro affects_cong) simp
  then show ?thesis using assms(2) valve(1) by (auto simp: due_def)
next
  case (bridge m b)
  then have "affects k' nn e = affects k nn e" for e by (intro affects_cong) simp
  then show ?thesis using assms(2) bridge(1) by (auto simp: due_def)
qed

lemma due_envs: "envs k k' \<Longrightarrow> due k nn \<Longrightarrow> due k' nn"
  by (induction rule: rtranclp_induct) (auto intro: due_env)

text \<open>What the valve is configured from stays in the cache, or the valve is due.\<close>

lemma kept_env:
  assumes "env k k'"
  shows "so_valves k' nn = so_valves k nn \<or> due k' nn"
    "d \<in> ran (so_devices k) \<Longrightarrow> refers d nn \<Longrightarrow> d \<in> ran (so_devices k') \<or> due k' nn"
    "d \<in> ran (so_devices k) \<Longrightarrow> refers d nn \<Longrightarrow> so_bridges k (bridge_ref d) = Some b \<Longrightarrow>
       (\<forall>m x. so_bridges k m = Some x \<longrightarrow> bridge_at m (Some x)) \<Longrightarrow>
       so_bridges k' (bridge_ref d) = Some b \<or> due k' nn"
  using assms
proof (induction rule: env.induct)
  case (valve m v k)
  { case 1 show ?case by (auto simp: due_def affects_def) }
  { case 2 then show ?case by simp }
  { case 3 then show ?case by simp }
next
  case (device dn d' k)
  { case 1 show ?case by simp }
  { case 2
    then show ?case by (fastforce simp: due_def affects_def ran_def) }
  { case 3 then show ?case by simp }
next
  case (bridge m b' k)
  { case 1 show ?case by simp }
  { case 2 then show ?case by simp }
  { case 3
    show ?case
    proof (cases "m = bridge_ref d")
      case True
      then have "bridge_ref d = (mb_Namespace b, mb_Name b)" using 3 by (metis bridge_at_def)
      then have "affects k nn (BridgeEvent (so_bridges k m) b')"
        using 3 True by (auto simp: affects_def)
      then show ?thesis by (auto simp: due_def affects_def)
    next
      case False
      with 3 show ?thesis by simp
    qed }
next
  case (deliver e k items)
  { case 1 show ?case by simp }
  { case 2 then show ?case by simp }
  { case 3 then show ?case by simp }
qed

definition named :: "store \<Rightarrow> bool" where
  "named k \<longleftrightarrow> (\<forall>nn. valve_at nn (so_valves k nn)) \<and> (\<forall>nn. bridge_at nn (so_bridges k nn))"

lemma named_env: "env k k' \<Longrightarrow> named k \<Longrightarrow> named k'"
  by (induction rule: env.induct) (simp_all add: named_def)

lemma named_envs: "envs k k' \<Longrightarrow> named k \<Longrightarrow> named k'"
  by (induction rule: rtranclp_induct) (auto intro: named_env)

lemma named_bridges: "named k \<Longrightarrow> \<forall>m x. so_bridges k m = Some x \<longrightarrow> bridge_at m (Some x)"
  unfolding named_def by metis

lemma kept_envs:
  assumes "envs k k'" "named k"
  shows "so_valves k' nn = so_valves k nn \<or> due k' nn"
    "d \<in> ran (so_devices k) \<Longrightarrow> refers d nn \<Longrightarrow> d \<in> ran (so_devices k') \<or> due k' nn"
    "d \<in> ran (so_devices k) \<Longrightarrow> refers d nn \<Longrightarrow> so_bridges k (bridge_ref d) = Some b \<Longrightarrow>
       so_bridges k' (bridge_ref d) = Some b \<or> due k' nn"
  using assms
proof (induction rule: rtranclp_induct)
  case (step y z)
  note due = due_env [OF step.hyps(2), of nn]
  { case 1 then show ?case using step.IH(1) kept_env(1) [OF step.hyps(2), of nn] due by auto }
  { case 2 then show ?case using step.IH(2) kept_env(2) [OF step.hyps(2)] due by blast }
  { case 3
    then have "named y" using named_envs [OF step.hyps(1)] by blast
    from kept_env(3) [OF step.hyps(2) _ _ _ named_bridges [OF this], of d nn b]
    show ?case using 3 step.IH(2,3) due by blast }
qed auto

definition spec_of :: "Scheduler \<Rightarrow> string \<Rightarrow> (ValveConfig \<times> string \<times> string \<times> string \<times> string \<times> int) option" where
  "spec_of s key = map_option (\<lambda>p. spec_part (p_info p)) (map_of (s_pipelines s) key)"

lemma in_agreement_spec:
  "in_agreement k s nn \<longleftrightarrow>
     (case so_valves k nn of
        None \<Rightarrow> True
      | Some v \<Rightarrow>
          if mv_DeletionTimestamp v \<noteq> None then spec_of s (nsname_String nn) = None
          else \<exists>d b. d \<in> ran (so_devices k) \<and> refers d nn \<and> so_bridges k (bridge_ref d) = Some b \<and>
                 spec_of s (nsname_String nn) = Some (spec_part (valve_info v d b)))"
  by (auto simp: in_agreement_def spec_of_def split: option.splits)

lemma agreement_envs:
  assumes "envs k k'" "named k" "in_agreement k s nn"
  shows "due k' nn \<or> in_agreement k' s nn"
proof -
  note kept = kept_envs [OF assms(1,2), where nn = nn]
  show ?thesis
  proof (cases "due k' nn")
    case False
    then have v: "so_valves k' nn = so_valves k nn" using kept(1) by blast
    show ?thesis
    proof (cases "\<exists>v. so_valves k nn = Some v \<and> mv_DeletionTimestamp v = None")
      case True
      with assms(3) obtain v d b where "so_valves k nn = Some v" "mv_DeletionTimestamp v = None"
        "d \<in> ran (so_devices k)" "refers d nn" "so_bridges k (bridge_ref d) = Some b"
        "spec_of s (nsname_String nn) = Some (spec_part (valve_info v d b))"
        by (auto simp: in_agreement_spec)
      moreover from this have "d \<in> ran (so_devices k')" "so_bridges k' (bridge_ref d) = Some b"
        using kept(2,3) False by blast+
      ultimately show ?thesis using v by (auto simp: in_agreement_spec)
    next
      case False
      with v assms(3) show ?thesis by (auto simp: in_agreement_spec split: option.splits)
    qed
  qed simp
qed

lemma slash_inj:
  assumes "CHR ''/'' \<notin> set (fst a)" "CHR ''/'' \<notin> set (fst b)" "nsname_String a = nsname_String b"
  shows "a = b"
proof -
  have "SplitN (nsname_String x) CHR ''/'' 2 = [fst x, snd x]" if "CHR ''/'' \<notin> set (fst x)" for x
    using SplitN_two [OF that] by (simp add: nsname_String_def)
  then have "[fst a, snd a] = [fst b, snd b]" using assms by metis
  then show ?thesis by (simp add: prod_eq_iff)
qed

subsection \<open>A reconcile\<close>

lemma reads:
  assumes "reads_cache cl"
  shows "cl_get_valve cl nn k = (Inr v, k1) \<Longrightarrow> so_valves (fst k1) nn = Some v"
    "cl_get_valve cl nn k = (Inl NotFound, k1) \<Longrightarrow> so_valves (fst k1) nn = None"
    "cl_list_devices cl k = (Inr items, k1) \<Longrightarrow> set items = ran (so_devices (fst k1))"
    "cl_get_bridge cl nn k = (Inr b, k1) \<Longrightarrow> so_bridges (fst k1) nn = Some b"
    "cl_get_valve cl nn k = (rv, k1) \<Longrightarrow> envs (fst k) (fst k1)"
    "cl_list_devices cl k = (rl, k1) \<Longrightarrow> envs (fst k) (fst k1)"
    "cl_get_bridge cl nn k = (rb, k1) \<Longrightarrow> envs (fst k) (fst k1)"
    "cl_status_update cl x k = (ru, k1) \<Longrightarrow> envs (fst k) (fst k1)"
proof -
  have r: "cl_get_valve cl nn k = (r, k') \<longrightarrow> envs (fst k) (fst k') \<and>
        (case r of Inl e \<Rightarrow> e = NotFound \<longrightarrow> so_valves (fst k') nn = None | Inr v \<Rightarrow> so_valves (fst k') nn = Some v)"
    "cl_list_devices cl k = (r', k') \<longrightarrow> envs (fst k) (fst k') \<and>
        (case r' of Inl e \<Rightarrow> True | Inr items \<Rightarrow> set items = ran (so_devices (fst k')))"
    "cl_get_bridge cl nn k = (r'', k') \<longrightarrow> envs (fst k) (fst k') \<and>
        (case r'' of Inl e \<Rightarrow> True | Inr b \<Rightarrow> so_bridges (fst k') nn = Some b)"
    "envs (fst k) (fst (snd (cl_status_update cl x k)))" for r r' r'' k' k nn x
    using assms unfolding reads_cache_def by blast+
  show "cl_get_valve cl nn k = (Inr v, k1) \<Longrightarrow> so_valves (fst k1) nn = Some v" using r(1) by fastforce
  show "cl_get_valve cl nn k = (Inl NotFound, k1) \<Longrightarrow> so_valves (fst k1) nn = None" using r(1) by fastforce
  show "cl_list_devices cl k = (Inr items, k1) \<Longrightarrow> set items = ran (so_devices (fst k1))" using r(2) by fastforce
  show "cl_get_bridge cl nn k = (Inr b, k1) \<Longrightarrow> so_bridges (fst k1) nn = Some b" using r(3) by fastforce
  show "cl_get_valve cl nn k = (rv, k1) \<Longrightarrow> envs (fst k) (fst k1)" using r(1) by blast
  show "cl_list_devices cl k = (rl, k1) \<Longrightarrow> envs (fst k) (fst k1)" using r(2) by blast
  show "cl_get_bridge cl nn k = (rb, k1) \<Longrightarrow> envs (fst k) (fst k1)" using r(3) by blast
  show "cl_status_update cl x k = (ru, k1) \<Longrightarrow> envs (fst k) (fst k1)" using r(4) [where k=k and x=x] by simp
qed

lemma retry_loop_envs:
  assumes "\<And>k. envs (fst k) (fst (snd (f k)))"
  shows "envs (fst k) (fst (snd (retry_loop n f k)))"
proof (induction n arbitrary: k)
  case 0
  from assms [of k] show ?case by simp
next
  case (Suc n)
  show ?case
  proof (cases "fst (f k) = Some Conflict")
    case True
    then obtain k1 where f: "f k = (Some Conflict, k1)" by (cases "f k") auto
    have "envs (fst k) (fst k1)" using assms [of k] f by simp
    moreover have "envs (fst k1) (fst (snd (retry_loop n f k1)))" by (rule Suc.IH)
    ultimately show ?thesis by (simp add: f)
  next
    case False
    then have "retry_loop (Suc n) f k = f k"
      by (cases "f k") (auto split: option.splits api_error.splits)
    with assms [of k] show ?thesis by simp
  qed
qed

lemma patch_envs:
  assumes "reads_cache cl" "retries_on_conflict retry"
  shows "envs (fst k) (fst (snd (patchReadyCondition cl retry now v ready reason msg k)))"
proof -
  let ?f = "\<lambda>k. case cl_get_valve cl (mv_Namespace v, mv_Name v) k of
                  (Inl e, k) \<Rightarrow> (cl_IgnoreNotFound cl e, k)
                | (Inr v, k) \<Rightarrow>
                    (let s = mv_Status v;
                         s = s\<lparr> st_Conditions := setCondition (st_Conditions s) (ready_condition now ready reason msg v) \<rparr>
                     in cl_status_update cl (v\<lparr> mv_Status := s \<rparr>) k)"
  have f: "envs (fst k) (fst (snd (?f k)))" for k
  proof -
    obtain r k1 where g: "cl_get_valve cl (mv_Namespace v, mv_Name v) k = (r, k1)" by (rule prod.exhaust)
    have u: "envs (fst k1) (fst (snd (cl_status_update cl u k1)))" for u
      by (rule reads(8) [OF assms(1)]) (rule surjective_pairing)
    have "envs (fst k1) (fst (snd (?f k)))"
      by (cases r) (simp_all add: g Let_def u)
    with reads(5) [OF assms(1) g] show ?thesis by (rule rtranclp_trans)
  qed
  obtain n where n: "retry ?f k = retry_loop n ?f k" using assms(2) unfolding retries_on_conflict_def by blast
  show ?thesis unfolding patchReadyCondition_def n by (rule retry_loop_envs) (rule f)
qed

text \<open>
  However the cache changes while it runs, a reconcile leaves its valve in agreement, due again,
  or asks to be called again; and it does not touch the pipelines of other valves.
\<close>

definition called_again :: "reconcile_result \<Rightarrow> bool" where
  "called_again res \<longleftrightarrow> rr_err res \<noteq> None \<or> rr_RequeueAfter res > 0"

lemma called_again_simps [simp]: "called_again requeue" "called_again (done_with e) \<longleftrightarrow> e \<noteq> None"
  by (simp_all add: called_again_def requeue_def done_with_def Second_def)

lemma spec_of_Register:
  "spec_of (RegisterValve c i s) (Key i) = Some (spec_part i)"
  "key \<noteq> Key i \<Longrightarrow> spec_of (RegisterValve c i s) key = spec_of s key"
  by (auto simp: spec_of_def spec_part_def RegisterValve_def unfocus_def UpdateConfig_def upd_info_def upd_pl_def focus_def
      newPipeline_def update_conv' Let_def split: option.splits prod.splits)

lemma reconcile_agrees:
  assumes cl: "reads_cache cl" "retries_on_conflict retry" and "named (fst k)" "sched_inv s"
    and run: "Reconcile_valve cl retry c now req k s = (res, k', s')"
  shows "envs (fst k) (fst k')" "sched_inv s'"
    "called_again res \<or> due (fst k') req \<or> in_agreement (fst k') s' req"
    "valve_at nn (Some v) \<Longrightarrow> nn \<noteq> req \<Longrightarrow> spec_of s' (nsname_String nn) = spec_of s (nsname_String nn)"
proof -
  obtain rv k1 where g: "cl_get_valve cl req k = (rv, k1)" by (rule prod.exhaust)
  note r = reads [OF cl(1)]
  have e1: "envs (fst k) (fst k1)" by (rule r(5) [OF g])
  have ign: "ignores_NotFound cl" using cl(1) by (simp add: reads_cache_def)
  have all: "envs (fst k) (fst k') \<and> sched_inv s' \<and>
    (called_again res \<or> due (fst k') req \<or> in_agreement (fst k') s' req) \<and>
    (\<forall>nn v. valve_at nn (Some v) \<and> nn \<noteq> req \<longrightarrow> spec_of s' (nsname_String nn) = spec_of s (nsname_String nn))"
  proof (cases rv)
    case (Inl e)
    then have r: "res = done_with (cl_IgnoreNotFound cl e)" "k' = k1" "s' = s"
      using run g by (simp_all add: Reconcile_valve_def)
    show ?thesis
    proof (cases "e = NotFound")
      case True
      with Inl g have "so_valves (fst k1) req = None" by (intro reads(2) [OF cl(1)]) simp
      then show ?thesis using r e1 assms(4) by (simp add: in_agreement_def)
    next
      case False
      then show ?thesis using r e1 ign assms(4) by (simp add: ignores_NotFound_def)
    qed
  next
    case (Inr v)
    have v: "so_valves (fst k1) req = Some v" using g Inr by (intro r(1)) simp
    have n1: "named (fst k1)" by (rule named_envs [OF e1 assms(3)])
    then have "valve_at req (Some v)" using v unfolding named_def by metis
    then have at: "(mv_Namespace v, mv_Name v) = req" "CHR ''/'' \<notin> set (fst req)"
      by (simp_all add: valve_at_def)
    have others: "nsname_String nn \<noteq> nsname_String req" if "valve_at nn (Some u)" "nn \<noteq> req" for nn u
      using that at(2) slash_inj [of nn req] by (auto simp: valve_at_def)
    show ?thesis
    proof (cases "mv_DeletionTimestamp v")
      case (Some t)
      then have r: "res = done_with None" "k' = k1" "s' = DeregisterValve (nsname_String req) s"
        using run g Inr by (simp_all add: Reconcile_valve_def)
      have "in_agreement (fst k1) s' req"
        using v Some valves.look_remove [OF assms(4)] by (simp add: r(3) in_agreement_def)
      moreover have "spec_of s' (nsname_String nn) = spec_of s (nsname_String nn)" if "valve_at nn (Some u)" "nn \<noteq> req" for nn u
        using others [OF that] valves.look_remove_other [OF assms(4)] by (simp add: r(3) spec_of_def)
      ultimately show ?thesis using r e1 sched_inv_Deregister [OF assms(4)] by blast
    next
      case None
      obtain rl k2 where gl: "cl_list_devices cl k1 = (rl, k2)" by (rule prod.exhaust)
      have e2: "envs (fst k1) (fst k2)" by (rule r(6) [OF gl])
      show ?thesis
      proof (cases "\<exists>items d. rl = Inr items \<and> find_device_in (mv_Name v) (mv_Namespace v) items = Some d")
        case False
        then have "res = requeue \<and> k' = k2 \<and> s' = s"
          using run g Inr None gl by (cases rl) (auto simp: Reconcile_valve_def findDevice_def split: option.splits)
        with e1 e2 assms(4) show ?thesis by (auto intro: rtranclp_trans)
      next
        case True
        then obtain items d where rl: "rl = Inr items" "find_device_in (mv_Name v) (mv_Namespace v) items = Some d" by blast
        with gl have items: "set items = ran (so_devices (fst k2))" by (intro r(3)) simp
        have d: "d \<in> ran (so_devices (fst k2))" "refers d req"
          using find_device_in_refers [OF rl(2)] at(1) items by auto
        obtain rb k3 where gb: "cl_get_bridge cl (bridge_ref d) k2 = (rb, k3)" by (rule prod.exhaust)
        have e3: "envs (fst k2) (fst k3)" by (rule r(7) [OF gb])
        show ?thesis
        proof (cases rb)
          case (Inl e)
          then have "res = requeue \<and> k' = k3 \<and> s' = s"
            using run g Inr None gl rl gb by (simp add: Reconcile_valve_def findDevice_def bridge_ref_def)
          with e1 e2 e3 assms(4) show ?thesis by (auto intro: rtranclp_trans)
        next
          case (Inr b)
          have b: "so_bridges (fst k3) (bridge_ref d) = Some b" using gb Inr by (intro r(4)) simp
          have res: "res = done_with None" "s' = RegisterValve c (valve_info v d b) s"
            "k' = snd (patchReadyCondition cl retry now v True ''Configured'' ''valve pipeline running'' k3)"
            using run g \<open>rv = Inr v\<close> None gl rl gb Inr
            by (auto simp: Reconcile_valve_def findDevice_def bridge_ref_def Let_def split: prod.splits)
          have e4: "envs (fst k3) (fst k')" unfolding res(3) by (rule patch_envs [OF cl])
          have key: "Key (valve_info v d b) = nsname_String req"
            using at(1) by (auto simp: valve_info_simps nsname_String_def)
          have "due (fst k') req \<or> in_agreement (fst k') s' req"
          proof (cases "due (fst k') req")
            case False
            have e34: "envs (fst k2) (fst k')" "envs (fst k1) (fst k')" using e2 e3 e4 by auto
            have n2: "named (fst k2)" "named (fst k3)" using named_envs e2 e3 n1 by blast+
            have "so_valves (fst k') req = Some v" using kept_envs(1) [OF e34(2) n1] v False by metis
            moreover have "d \<in> ran (so_devices (fst k'))" using kept_envs(2) [OF e34(1) n2(1) d] False by blast
            moreover have "d \<in> ran (so_devices (fst k3))"
              using kept_envs(2) [OF e3 n2(1) d] due_envs [OF e4] False by blast
            then have "so_bridges (fst k') (bridge_ref d) = Some b"
              using kept_envs(3) [OF e4 n2(2) _ d(2) b] False by blast
            moreover have "spec_of s' (nsname_String req) = Some (spec_part (valve_info v d b))"
              unfolding res(2) key [symmetric] by (rule spec_of_Register(1))
            ultimately show ?thesis using None d(2) by (auto simp: in_agreement_spec)
          qed simp
          moreover have "spec_of s' (nsname_String nn) = spec_of s (nsname_String nn)"
            if "valve_at nn (Some u)" "nn \<noteq> req" for nn u
            using others [OF that] spec_of_Register(2) [of "nsname_String nn" "valve_info v d b" c s] key by (simp add: res(2))
          moreover have "envs (fst k) (fst k')" using e1 e2 e3 e4 by (meson rtranclp_trans)
          moreover have "sched_inv s'" unfolding res(2) by (rule sched_inv_Register [OF assms(4)])
          ultimately show ?thesis by blast
        qed
      qed
    qed
  qed
  then show "envs (fst k) (fst k')" "sched_inv s'" "called_again res \<or> due (fst k') req \<or> in_agreement (fst k') s' req"
    "valve_at nn (Some v) \<Longrightarrow> nn \<noteq> req \<Longrightarrow> spec_of s' (nsname_String nn) = spec_of s (nsname_String nn)"
    by blast+
qed

subsection \<open>The controller\<close>

text \<open>
  The invariant: resources carry their names, the scheduler's registry is well formed, and every
  valve is due or in agreement.
\<close>

definition ctl_inv :: "(store \<times> 'x) \<times> Scheduler \<Rightarrow> bool" where
  "ctl_inv = (\<lambda>((k, x), s). named k \<and> sched_inv s \<and> (\<forall>nn. due k nn \<or> in_agreement k s nn))"

lemma spec_part_atomic:
  assumes "atomic A P w w'"
  shows "spec_part (info w') = spec_part (info w) \<or> (\<exists>i. w' = UpdateConfig i w)"
  using assms
proof (induction rule: atomic.induct)
  case (config i w)
  then show ?case by blast
qed (simp_all add: spec_part_def Steps.update_defs close_cell_simps add_cell_simps Let_def)

lemma spec_of_unfocus:
  assumes "map_of (s_pipelines s) key = Some p" "spec_part (info w) = spec_part (p_info p)"
  shows "spec_of (unfocus s key w) = spec_of s"
  using assms by (auto simp: spec_of_def unfocus_def update_conv' fun_eq_iff)

lemma in_agreement_cong:
  "so_valves k' = so_valves k \<Longrightarrow> so_devices k' = so_devices k \<Longrightarrow> so_bridges k' = so_bridges k \<Longrightarrow>
   spec_of s' (nsname_String nn) = spec_of s (nsname_String nn) \<Longrightarrow> in_agreement k' s' nn = in_agreement k s nn"
  unfolding in_agreement_spec by (simp only:)

lemma ctl_invD:
  assumes "ctl_inv ((k, x), s)"
  shows "named k" "sched_inv s" "due k nn \<or> in_agreement k s nn"
  using assms unfolding ctl_inv_def prod.case by blast+

lemma ctl_invI:
  "named k \<Longrightarrow> sched_inv s \<Longrightarrow> (\<And>nn. due k nn \<or> in_agreement k s nn) \<Longrightarrow> ctl_inv ((k, x), s)"
  unfolding ctl_inv_def prod.case by blast

lemma ctl_inv_sched:
  assumes "ctl_inv ((k, x), s)" "spec_of s' = spec_of s" "sched_inv s'"
  shows "ctl_inv ((k, x), s')"
proof (rule ctl_invI)
  fix nn
  have "in_agreement k s' nn = in_agreement k s nn" by (rule in_agreement_cong) (simp_all add: assms(2))
  with ctl_invD(3) [OF assms(1)] show "due k nn \<or> in_agreement k s' nn" by simp
qed (use ctl_invD [OF assms(1)] assms(3) in auto)

lemma finish_request_simps:
  "so_valves (finish_request req res k) = so_valves k" "so_devices (finish_request req res k) = so_devices k"
  "so_bridges (finish_request req res k) = so_bridges k" "so_events (finish_request req res k) = so_events k"
  "so_queue (finish_request req res k) = (if called_again res then insert req (so_queue k) else so_queue k)"
  by (simp_all add: finish_request_def called_again_def)

lemma due_finish: "due (finish_request req res k) nn \<longleftrightarrow> due k nn \<or> (called_again res \<and> nn = req)"
proof -
  have "affects (finish_request req res k) nn e = affects k nn e" for e
    by (rule affects_cong) (simp add: finish_request_simps)
  then show ?thesis by (auto simp: due_def finish_request_simps)
qed

lemma due_take: "nn \<noteq> req \<Longrightarrow> due (take_request req k) nn = due k nn"
proof -
  have "affects (take_request req k) nn e = affects k nn e" for e
    by (rule affects_cong) (simp add: take_request_def)
  then show "nn \<noteq> req \<Longrightarrow> due (take_request req k) nn = due k nn" by (auto simp: due_def take_request_def)
qed

lemma ctl_inv_reconcile:
  assumes cl: "reads_cache cl" "retries_on_conflict retry" and inv: "ctl_inv ((k, x), s)"
    and run: "Reconcile_valve cl retry c now req (take_request req k, x) s = (res, (k', x'), s')"
  shows "ctl_inv ((finish_request req res k', x'), s')"
proof -
  let ?k = "take_request req k"
  have n: "named ?k" "sched_inv s" using ctl_invD [OF inv] by (simp_all add: named_def take_request_def)
  note rec = reconcile_agrees [OF cl _ n(2) run, unfolded fst_conv, OF n(1)]
  have nk: "named k'" by (rule named_envs [OF rec(1) n(1)])
  have "due (finish_request req res k') nn \<or> in_agreement (finish_request req res k') s' nn" for nn
  proof -
    have agree: "in_agreement (finish_request req res k') s' nn = in_agreement k' s' nn"
      by (rule in_agreement_cong) (simp_all add: finish_request_simps)
    show ?thesis
    proof (cases "nn = req")
      case True
      with rec(3) show ?thesis unfolding agree due_finish by blast
    next
      case False
      note ctl_invD(3) [OF inv, of nn]
      moreover have "in_agreement ?k s nn = in_agreement k s nn"
        by (rule in_agreement_cong) (simp_all add: take_request_def)
      ultimately have "due k' nn \<or> in_agreement k' s nn"
        using due_take [OF False, of k] due_envs [OF rec(1)] agreement_envs [OF rec(1) n(1)] by blast
      moreover have "in_agreement k' s' nn" if "in_agreement k' s nn"
      proof (cases "so_valves k' nn")
        case None
        then show ?thesis by (simp add: in_agreement_def)
      next
        case (Some v)
        with nk have "valve_at nn (Some v)" unfolding named_def by metis
        have "in_agreement k' s' nn = in_agreement k' s nn"
          by (rule in_agreement_cong) (simp_all add: rec(4) [OF \<open>valve_at nn (Some v)\<close> False])
        with that show ?thesis by simp
      qed
      ultimately show ?thesis unfolding agree due_finish by blast
    qed
  qed
  moreover have "named (finish_request req res k')" using nk by (simp add: named_def finish_request_simps)
  ultimately show ?thesis using rec(2) by (intro ctl_invI)
qed

lemma ctl_inv_step:
  assumes cl: "reads_cache cl" "retries_on_conflict retry"
    and "ctl_step cl retry c st st'" "ctl_inv st"
  shows "ctl_inv st'"
  using assms(3,4)
proof (induction rule: ctl_step.induct)
  case (cache k k' x s x')
  note inv = ctl_invD [OF cache(2)]
  have "due k' nn \<or> in_agreement k' s nn" for nn
    using inv(3) [of nn] due_env [OF cache(1)] agreement_envs [OF r_into_rtranclp [of env, OF cache(1)] inv(1)] by blast
  with inv named_env [OF cache(1)] show ?case by (intro ctl_invI)
next
  case (reconcile req k now x s res k' x' s')
  show ?case by (rule ctl_inv_reconcile [OF cl reconcile(3,2)])
next
  case (use_scheduler op k x s)
  have "spec_of (sched_step op s) = spec_of s"
    using use_scheduler(1)
    by (cases op) (auto simp: spec_of_unfocus spec_part_def Open_def Close_def UpdateSensorFields_def getPipeline_def GetInfo_def focus_def
        update_sensor_def sensor_fields_def alloc_act_def Enqueue_def set_sensor_gauges_def Steps.update_defs Let_def split: option.splits)
  with ctl_inv_sched [OF use_scheduler(2)] sched_inv_step [OF ctl_invD(2) [OF use_scheduler(2)]] show ?case by blast
next
  case (goroutine s key p A P w k x)
  have "spec_part (info w) = spec_part (p_info p)"
    using spec_part_atomic [OF goroutine(2)] goroutine(3) by (auto simp: focus_def)
  with goroutine(1) have "spec_of (unfocus s key w) = spec_of s" by (rule spec_of_unfocus)
  moreover have "sched_inv (unfocus s key w)"
    using ctl_invD(2) [OF goroutine(4)] sched_inv_unfocus [OF _ goroutine(1) step1 [OF goroutine(2)]] by simp
  ultimately show ?case by (rule ctl_inv_sched [OF goroutine(4)])
qed

text \<open>
  C4: However valves, devices and bridges are created, changed and deleted, while changes are
  being delivered, while reconciles are under way and between them, and whatever requests,
  messages and pipelines do: as soon as no change is undelivered and no request is queued for
  a valve, the valve is in agreement with the resources. If it exists and is not being deleted
  it has a pipeline whose configuration, address and bridge are those computed from the current
  valve, a current device that refers to it and that device's current bridge; if it is being
  deleted it has no pipeline.
\<close>

theorem configuration_follows_resources:
  assumes "reads_cache cl" "retries_on_conflict retry"
    and "(ctl_step cl retry c)\<^sup>*\<^sup>* ((empty_store, x0), NewScheduler w) ((k, x), s)"
    and "so_events k = []" "nn \<notin> so_queue k"
  shows "case so_valves k nn of
      None \<Rightarrow> True
    | Some v \<Rightarrow>
        if mv_DeletionTimestamp v \<noteq> None then map_of (s_pipelines s) (nsname_String nn) = None
        else \<exists>d b p. d \<in> ran (so_devices k) \<and> refers d nn \<and> so_bridges k (bridge_ref d) = Some b \<and>
               map_of (s_pipelines s) (nsname_String nn) = Some p \<and>
               spec_part (p_info p) = spec_part (valve_info v d b)"
proof -
  have "ctl_inv ((empty_store, x0), NewScheduler w)"
    by (rule ctl_invI) (simp_all add: named_def valve_at_def bridge_at_def empty_store_def in_agreement_def sched_inv_New)
  with assms(3) have "ctl_inv ((k, x), s)"
    by (induction rule: rtranclp_induct) (auto intro: ctl_inv_step [OF assms(1,2)])
  from ctl_invD(3) [OF this, of nn] assms(4,5) show ?thesis by (simp add: due_def in_agreement_def)
qed

text \<open>A client that sees no changes during a call, and a run that configures one valve.\<close>

definition demo_client :: "(store \<times> unit) client" where
  "demo_client =
     \<lparr> cl_get_valve = (\<lambda>nn k. (case so_valves (fst k) nn of None \<Rightarrow> Inl NotFound | Some v \<Rightarrow> Inr v, k)),
       cl_get_bridge = (\<lambda>nn k. (case so_bridges (fst k) nn of None \<Rightarrow> Inl NotFound | Some b \<Rightarrow> Inr b, k)),
       cl_get_secret = (\<lambda>nn k. (Inl NotFound, k)),
       cl_list_devices = (\<lambda>k. (if ran (so_devices (fst k)) = {k_device} then Inr [k_device] else Inl (OtherError ''''), k)),
       cl_status_update = (\<lambda>v k. (None, k)),
       cl_IgnoreNotFound = (\<lambda>e. if e = NotFound then None else Some e) \<rparr>"

lemma demo_client_reads: "reads_cache demo_client"
  by (auto simp: reads_cache_def demo_client_def ignores_NotFound_def split: option.splits)

definition demo_store :: "watch_event list \<Rightarrow> nsname set \<Rightarrow> store" where
  "demo_store evs q =
     \<lparr> so_valves = [(''ns'', ''v'') \<mapsto> k_valve None], so_devices = [(''ns'', ''d'') \<mapsto> k_device],
       so_bridges = [(''ns'', ''b'') \<mapsto> k_bridge], so_events = evs, so_queue = q \<rparr>"

lemma envs3: "env k0 k1 \<Longrightarrow> env k1 k2 \<Longrightarrow> env k2 k3 \<Longrightarrow> envs k0 k3"
  by (meson rtranclp.rtrancl_into_rtrancl rtranclp.rtrancl_refl)

lemma demo_created:
  "envs empty_store (demo_store [BridgeEvent None (Some k_bridge), DeviceEvent None (Some k_device), ValveEvent (''ns'', ''v'')] {})"
proof -
  let ?k0 = empty_store
  let ?k1 = "?k0\<lparr> so_valves := (so_valves ?k0)((''ns'', ''v'') := Some (k_valve None)), so_events := ValveEvent (''ns'', ''v'') # so_events ?k0 \<rparr>"
  let ?k2 = "?k1\<lparr> so_devices := (so_devices ?k1)((''ns'', ''d'') := Some k_device),
                    so_events := DeviceEvent (so_devices ?k1 (''ns'', ''d'')) (Some k_device) # so_events ?k1 \<rparr>"
  let ?k3 = "?k2\<lparr> so_bridges := (so_bridges ?k2)((''ns'', ''b'') := Some k_bridge),
                    so_events := BridgeEvent (so_bridges ?k2 (''ns'', ''b'')) (Some k_bridge) # so_events ?k2 \<rparr>"
  have e: "env ?k0 ?k1" "env ?k1 ?k2" "env ?k2 ?k3"
    by (rule env.valve, simp add: valve_at_def k_eval, rule env.device, rule env.bridge, simp add: bridge_at_def k_bridge_def)
  have "envs ?k0 ?k3"
    by (rule envs3 [OF e])
  moreover have "?k3 = demo_store [BridgeEvent None (Some k_bridge), DeviceEvent None (Some k_device), ValveEvent (''ns'', ''v'')] {}"
    by (simp add: demo_store_def empty_store_def)
  ultimately show ?thesis by simp
qed

lemma demo_deliver:
  "env (demo_store (e # evs) q) (demo_store evs (q \<union> {nn. affects (demo_store evs q) nn e}))"
proof -
  let ?k = "demo_store (e # evs) q"
  have items: "set ((\<lambda>_. [k_device]) ?k) = ran (so_devices ?k)" by (simp add: demo_store_def)
  have "affects (demo_store evs q) nn e = affects ?k nn e" for nn by (rule affects_cong) (simp add: demo_store_def)
  then have "?k\<lparr> so_events := remove1 e (so_events ?k),
      so_queue := so_queue ?k \<union> set (fst (watch_requests (cache_client (\<lambda>_. [k_device])) e ?k)) \<rparr> =
    demo_store evs (q \<union> {nn. affects (demo_store evs q) nn e})"
    using delivered_requests [where items = "\<lambda>_. [k_device]" and k = ?k and e = e, OF items] by (simp add: demo_store_def)
  with env.deliver [of e ?k "\<lambda>_. [k_device]", OF _ items] show ?thesis by (simp add: demo_store_def)
qed

lemma demo_affects:
  "{nn. affects (demo_store evs q) nn (ValveEvent (''ns'', ''v''))} = {(''ns'', ''v'')}"
  "{nn. affects (demo_store evs q) nn (DeviceEvent None (Some k_device))} = {(''ns'', ''v'')}"
  "{nn. affects (demo_store evs q) nn (BridgeEvent None (Some k_bridge))} = {(''ns'', ''v'')}"
  by (auto simp: affects_def demo_store_def refers_iff k_device_def k_bridge_def bridge_ref_def)

lemma demo_queued: "envs empty_store (demo_store [] {(''ns'', ''v'')})"
  using demo_created demo_deliver [of "BridgeEvent None (Some k_bridge)" "[DeviceEvent None (Some k_device), ValveEvent (''ns'', ''v'')]" "{}"]
    demo_deliver [of "DeviceEvent None (Some k_device)" "[ValveEvent (''ns'', ''v'')]" "{(''ns'', ''v'')}"]
    demo_deliver [of "ValveEvent (''ns'', ''v'')" "[]" "{(''ns'', ''v'')}"]
  by (simp add: demo_affects)

lemma ctl_envs: "envs k k' \<Longrightarrow> (ctl_step cl retry c)\<^sup>*\<^sup>* ((k, x), s) ((k', x), s)"
  by (induction rule: rtranclp_induct) (auto intro: rtranclp.rtrancl_into_rtrancl ctl_step.cache)

theorem configuration_follows_resources_witness:
  "\<exists>s p. (ctl_step demo_client (retry_loop 4) Background)\<^sup>*\<^sup>* ((empty_store, ()), NewScheduler reg_world) ((demo_store [] {}, ()), s) \<and>
     map_of (s_pipelines s) ''ns/v'' = Some p \<and> CommandTarget (p_info p) = ''0xDA76''"
proof -
  let ?k = "demo_store [] {(''ns'', ''v'')}"
  let ?R = "Reconcile_valve demo_client (retry_loop 4) Background 0 (''ns'', ''v'') (take_request (''ns'', ''v'') ?k, ()) (NewScheduler reg_world)"
  have taken: "take_request (''ns'', ''v'') ?k = demo_store [] {}" by (simp add: take_request_def demo_store_def)
  obtain s where R: "?R = (done_with None, (demo_store [] {}, ()), s)"
    unfolding taken
    by (simp add: Reconcile_valve_def findDevice_def patchReadyCondition_def numeral_eq_Suc demo_client_def demo_store_def k_eval k_device_def Let_def)
  have "(ctl_step demo_client (retry_loop 4) Background) ((?k, ()), NewScheduler reg_world) ((finish_request (''ns'', ''v'') (done_with None) (demo_store [] {}), ()), s)"
    by (rule ctl_step.reconcile [OF _ R]) (simp add: demo_store_def)
  moreover have "finish_request (''ns'', ''v'') (done_with None) (demo_store [] {}) = demo_store [] {}"
    by (simp add: finish_request_def done_with_def)
  ultimately have run: "(ctl_step demo_client (retry_loop 4) Background)\<^sup>*\<^sup>* ((empty_store, ()), NewScheduler reg_world) ((demo_store [] {}, ()), s)"
    using ctl_envs [OF demo_queued] by (metis rtranclp.rtrancl_into_rtrancl)
  from configuration_follows_resources [OF demo_client_reads k_client_ok(2) run, of "(''ns'', ''v'')"]
  obtain p b where "map_of (s_pipelines s) ''ns/v'' = Some p" "spec_part (p_info p) = spec_part (valve_info (k_valve None) k_device b)"
    by (auto simp: demo_store_def k_eval nsname_String_def)
  moreover from this have "CommandTarget (p_info p) = ''0xDA76''"
    by (simp add: spec_part_def CommandTarget_def valve_info_def k_device_def)
  ultimately show ?thesis using run by blast
qed

subsection \<open>Once the changes stop\<close>

lemma retry_steady:
  assumes "retries_on_conflict retry" "fst (f k) \<noteq> Some Conflict"
  shows "retry f k = f k"
proof -
  obtain n where "retry f k = retry_loop n f k" using assms(1) unfolding retries_on_conflict_def by blast
  with assms(2) show ?thesis
    by (cases n; cases "f k") (auto split: option.splits api_error.splits)
qed

lemma patch_cached:
  assumes "retries_on_conflict retry"
  shows "snd (patchReadyCondition (cache_client items) retry now v ready reason msg k) = k"
proof -
  let ?f = "\<lambda>k. case cl_get_valve (cache_client items) (mv_Namespace v, mv_Name v) k of
                  (Inl e, k) \<Rightarrow> (cl_IgnoreNotFound (cache_client items) e, k)
                | (Inr v, k) \<Rightarrow>
                    (let s = mv_Status v;
                         s = s\<lparr> st_Conditions := setCondition (st_Conditions s) (ready_condition now ready reason msg v) \<rparr>
                     in cl_status_update (cache_client items) (v\<lparr> mv_Status := s \<rparr>) k)"
  have f: "?f k = (None, k)" by (auto simp: cache_client_def split: option.splits)
  with retry_steady [OF assms, of ?f k] show ?thesis unfolding patchReadyCondition_def by simp
qed

lemma find_device_in_complete:
  "\<exists>d \<in> set ds. refers d (ns, n) \<Longrightarrow> find_device_in n ns ds \<noteq> None"
  by (induction ds) (auto simp: refers_iff split: option.splits)

text \<open>
  C33: Once the changes stop, every valve whose resources are complete gets its pipeline: a queued
  request for an existing valve to which some device refers, where the bridge of every such
  device exists, leaves the queue with the next reconcile, without error or requeue, and then
  the valve is in agreement.
\<close>

theorem complete_valve_is_configured:
  assumes "named k" "sched_inv s" "retries_on_conflict retry" "set (items k) = ran (so_devices k)"
    and "nn \<in> so_queue k" "so_valves k nn = Some v" "mv_DeletionTimestamp v = None"
    and "d \<in> ran (so_devices k)" "refers d nn"
    and "\<forall>d \<in> ran (so_devices k). refers d nn \<longrightarrow> so_bridges k (bridge_ref d) \<noteq> None"
    and "items (take_request nn k) = items k"
  shows "\<exists>s'. Reconcile_valve (cache_client items) retry c now nn (take_request nn k) s = (done_with None, take_request nn k, s') \<and>
    nn \<notin> so_queue (finish_request nn (done_with None) (take_request nn k)) \<and>
    in_agreement (finish_request nn (done_with None) (take_request nn k)) s' nn"
proof -
  let ?k = "take_request nn k"
  have at: "mv_Namespace v = fst nn" "mv_Name v = snd nn"
    using assms(1,6) unfolding named_def valve_at_def by fastforce+
  have k: "so_valves ?k = so_valves k" "so_devices ?k = so_devices k" "so_bridges ?k = so_bridges k" "nn \<notin> so_queue ?k"
    by (simp_all add: take_request_def)
  obtain d' where d': "find_device_in (snd nn) (fst nn) (items k) = Some d'"
    using find_device_in_complete [of "items k" "fst nn" "snd nn"] assms(4,8,9) by auto
  from find_device_in_refers [OF d'] assms(4) have r: "d' \<in> ran (so_devices k)" "refers d' nn" by auto
  with assms(10) obtain b where b: "so_bridges k (bridge_ref d') = Some b" by blast
  let ?s = "RegisterValve c (valve_info v d' b) s"
  have "Reconcile_valve (cache_client items) retry c now nn ?k s = (done_with None, ?k, ?s)"
    using assms(6,7,11) d' b k at patch_cached [OF assms(3), of items now v True "''Configured''" "''valve pipeline running''" ?k]
    by (simp add: Reconcile_valve_def findDevice_def cache_client_def bridge_ref_def Let_def split_beta)
  moreover have fin: "finish_request nn (done_with None) ?k = ?k" by (simp add: finish_request_def done_with_def)
  moreover have "Key (valve_info v d' b) = nsname_String nn" using at by (simp add: valve_info_simps nsname_String_def)
  then have "in_agreement ?k ?s nn"
    using spec_of_Register(1) [of c "valve_info v d' b" s] assms(6,7) r b k by (auto simp: in_agreement_spec)
  ultimately show ?thesis using k(4) by auto
qed

theorem complete_valve_is_configured_witness:
  "\<exists>s' p. Reconcile_valve (cache_client (\<lambda>_. [k_device])) (retry_loop 4) Background 0 (''ns'', ''v'') (demo_store [] {})
      (NewScheduler reg_world) = (done_with None, demo_store [] {}, s') \<and> map_of (s_pipelines s') ''ns/v'' = Some p"
proof -
  let ?k = "demo_store [] {(''ns'', ''v'')}"
  have taken: "take_request (''ns'', ''v'') ?k = demo_store [] {}" by (simp add: take_request_def demo_store_def)
  have "named ?k" by (auto simp: named_def valve_at_def bridge_at_def demo_store_def k_eval k_bridge_def)
  note complete_valve_is_configured [OF this sched_inv_New [of reg_world] k_client_ok(2), of "\<lambda>_. [k_device]" "(''ns'', ''v'')" "k_valve None"
      k_device Background 0]
  moreover have "so_devices ?k = [(''ns'', ''d'') \<mapsto> k_device]" "so_queue ?k = {(''ns'', ''v'')}"
    "so_valves ?k (''ns'', ''v'') = Some (k_valve None)" "refers k_device (''ns'', ''v'')" "so_bridges ?k (bridge_ref k_device) \<noteq> None"
    by (simp_all add: demo_store_def refers_iff k_eval bridge_ref_def k_device_def)
  moreover have "so_valves (demo_store [] {}) (''ns'', ''v'') = Some (k_valve None)" by (simp add: demo_store_def)
  ultimately show ?thesis
    by (auto simp: taken k_eval in_agreement_def finish_request_def done_with_def nsname_String_def)
qed

end
