(* ===== verification/BridgeControl.thy ===== *)
theory BridgeControl
  imports K8sProps
begin

text \<open>
  The bridge controller at work, as \<open>Controllers\<close> has it for the valve controller: changes of
  the bridge resources reach the work queue, one worker reconciles the queued requests, and
  the clients the manager holds react to their brokers meanwhile. A bridge is watched, the
  secret with its credentials is not.
\<close>

subsection \<open>The cache and the work queue\<close>

record bridge_store =
  bs_bridges :: "nsname \<rightharpoonup> MQTTBridge"
  bs_events :: "nsname list"     \<comment> \<open>changes the watch has not been told of yet\<close>
  bs_queue :: "nsname set"

definition empty_bridges :: bridge_store where
  "empty_bridges = \<lparr> bs_bridges = Map.empty, bs_events = [], bs_queue = {} \<rparr>"

text \<open>The watch of the bridge controller (\<open>For\<close> in \<open>SetupWithManager\<close>).\<close>

definition bridge_watch :: "nsname \<Rightarrow> nsname list" where
  "bridge_watch nn = [nn]"

text \<open>The manager keeps clients by bridge name, so no two resources may claim one name.\<close>

definition distinct_names :: "(nsname \<rightharpoonup> MQTTBridge) \<Rightarrow> bool" where
  "distinct_names bs \<longleftrightarrow> (\<forall>m n a b. bs m = Some a \<longrightarrow> bs n = Some b \<longrightarrow> mb_BridgeName a = mb_BridgeName b \<longrightarrow> m = n)"

inductive bridge_env :: "bridge_store \<Rightarrow> bridge_store \<Rightarrow> bool" where
  change: "distinct_names ((bs_bridges k)(nn := b)) \<Longrightarrow>
    bridge_env k (k\<lparr> bs_bridges := (bs_bridges k)(nn := b), bs_events := nn # bs_events k \<rparr>)"
| deliver: "nn \<in> set (bs_events k) \<Longrightarrow>
    bridge_env k (k\<lparr> bs_events := remove1 nn (bs_events k), bs_queue := bs_queue k \<union> set (bridge_watch nn) \<rparr>)"

abbreviation bridge_envs :: "bridge_store \<Rightarrow> bridge_store \<Rightarrow> bool" where
  "bridge_envs \<equiv> bridge_env\<^sup>*\<^sup>*"

text \<open>
  What the reconciler may rely on: a bridge is read from the cache as it is then, reading it
  or a secret may fail, and the cache may change while a call is under way.
\<close>

definition reads_bridges :: "(bridge_store \<times> 'x) client \<Rightarrow> bool" where
  "reads_bridges cl \<longleftrightarrow> ignores_NotFound cl \<and>
     (\<forall>nn k r k'. cl_get_bridge cl nn k = (r, k') \<longrightarrow> bridge_envs (fst k) (fst k') \<and>
        (case r of Inl e \<Rightarrow> e = NotFound \<longrightarrow> bs_bridges (fst k') nn = None | Inr b \<Rightarrow> bs_bridges (fst k') nn = Some b)) \<and>
     (\<forall>nn k. bridge_envs (fst k) (fst (snd (cl_get_secret cl nn k))))"

definition take_bridge :: "nsname \<Rightarrow> bridge_store \<Rightarrow> bridge_store" where
  "take_bridge req k = k\<lparr> bs_queue := bs_queue k - {req} \<rparr>"

definition finish_bridge :: "nsname \<Rightarrow> reconcile_result \<Rightarrow> bridge_store \<Rightarrow> bridge_store" where
  "finish_bridge req res k =
     (if rr_err res \<noteq> None \<or> rr_RequeueAfter res > 0 then k\<lparr> bs_queue := insert req (bs_queue k) \<rparr> else k)"

text \<open>What a client does on its own: the callbacks and handlers of its broker, and status queries.\<close>

inductive client_step :: "BridgeClient \<Rightarrow> BridgeClient \<Rightarrow> bool" where
  "client_step bc (fst (onConnect bc m))"
| "client_step bc (fst (onConnectionLost bc m))"
| "client_step bc (fst (handleResult topic payload bc m))"
| "client_step bc (snd (status3_begin bc dev))"
| "client_step bc (status3_end bc dev)"

text \<open>
  The controller: the cache changes, the one worker reconciles a queued request (\<open>connect\<close> is
  the outcome of connecting), or a client takes a step. Metrics are anyone's.
\<close>

inductive bridge_step :: "(bridge_store \<times> 'x) client \<Rightarrow> (bridge_store \<times> 'x) \<times> Manager \<Rightarrow> (bridge_store \<times> 'x) \<times> Manager \<Rightarrow> bool"
  for cl where
  cache: "bridge_env k k' \<Longrightarrow> bridge_step cl ((k, x), mgr) ((k', x'), mgr)"
| reconcile: "req \<in> bs_queue k \<Longrightarrow>
    Reconcile_bridge cl connect req (take_bridge req k, x) mgr m = (res, (k', x'), mgr', m') \<Longrightarrow>
    bridge_step cl ((k, x), mgr) ((finish_bridge req res k', x'), mgr')"
| client: "mgr_bridges mgr n = Some bc \<Longrightarrow> client_step bc bc' \<Longrightarrow>
    bridge_step cl ((k, x), mgr) ((k, x), mgr\<lparr> mgr_bridges := (mgr_bridges mgr)(n \<mapsto> bc') \<rparr>)"

subsection \<open>In agreement, or about to be\<close>

text \<open>What the manager holds for a name: the broker's address and the topics.\<close>

definition client_endpoint :: "Manager \<Rightarrow> string \<Rightarrow> (string \<times> int \<times> TopicEntry list) option" where
  "client_endpoint mgr n = map_option (\<lambda>bc. (bcf_Host (bc_cfg bc), bcf_Port (bc_cfg bc), bcf_Topics (bc_cfg bc))) (mgr_bridges mgr n)"

definition bridge_endpoint :: "MQTTBridge \<Rightarrow> string \<times> int \<times> TopicEntry list" where
  "bridge_endpoint b = (mb_Host b, or_default (mb_Port b) 1883, map (\<lambda>t. t\<lparr> te_QoS := te_QoS t mod 256 \<rparr>) (mb_Topics b))"

definition bridge_agrees :: "bridge_store \<Rightarrow> Manager \<Rightarrow> nsname \<Rightarrow> bool" where
  "bridge_agrees k mgr nn \<longleftrightarrow>
     (case bs_bridges k nn of
        None \<Rightarrow> True
      | Some b \<Rightarrow> client_endpoint mgr (mb_BridgeName b) = (if mb_DeletionTimestamp b \<noteq> None then None else Some (bridge_endpoint b)))"

definition bridge_due :: "bridge_store \<Rightarrow> nsname \<Rightarrow> bool" where
  "bridge_due k nn \<longleftrightarrow> nn \<in> bs_queue k \<or> nn \<in> set (bs_events k)"

lemma bridge_envs_keep:
  assumes "bridge_envs k k'"
  shows "bridge_due k nn \<Longrightarrow> bridge_due k' nn"
    and "\<not> bridge_due k' nn \<Longrightarrow> bs_bridges k' nn = bs_bridges k nn"
    and "distinct_names (bs_bridges k) \<Longrightarrow> distinct_names (bs_bridges k')"
  using assms
proof (induction rule: rtranclp_induct)
  case (step y z)
  have "(bridge_due y nn \<longrightarrow> bridge_due z nn) \<and> (\<not> bridge_due z nn \<longrightarrow> bs_bridges z nn = bs_bridges y nn) \<and>
      (distinct_names (bs_bridges y) \<longrightarrow> distinct_names (bs_bridges z))"
    using step.hyps(2) by cases (auto simp: bridge_due_def bridge_watch_def)
  with step.IH show "bridge_due k nn \<Longrightarrow> bridge_due z nn" "\<not> bridge_due z nn \<Longrightarrow> bs_bridges z nn = bs_bridges k nn"
    "distinct_names (bs_bridges k) \<Longrightarrow> distinct_names (bs_bridges z)" by metis+
qed simp_all

lemma deliver_status_cfg [simp]: "bc_cfg (deliver_status r keys bc) = bc_cfg bc"
  by (induction r keys bc rule: deliver_status.induct) (auto split: option.splits)

lemma handleResult_cfg: "bc_cfg (fst (handleResult topic payload bc m)) = bc_cfg bc"
proof -
  have "bc_cfg (fold (\<lambda>r. deliver_status r [zr_DeviceName r, zr_ShortAddr r]) rs bc) = bc_cfg bc" for rs
    by (induction rs arbitrary: bc) (simp_all del: deliver_status.simps)
  then show ?thesis by (simp add: handleResult_def Let_def split: sum.splits)
qed

lemma client_step_cfg: "client_step bc bc' \<Longrightarrow> bc_cfg bc' = bc_cfg bc"
  by (induction rule: client_step.induct)
    (auto simp: onConnect_def onConnectionLost_def status3_begin_def status3_end_def Let_def handleResult_cfg)


subsection \<open>A reconcile\<close>

lemma bridge_read:
  assumes "reads_bridges cl" "cl_get_bridge cl nn k = (r, k')"
  shows "bridge_envs (fst k) (fst k') \<and>
    (case r of Inl e \<Rightarrow> e = NotFound \<longrightarrow> bs_bridges (fst k') nn = None | Inr b \<Rightarrow> bs_bridges (fst k') nn = Some b)"
  using assms unfolding reads_bridges_def by blast

text \<open>
  A reconcile reads one version of its resource, touches the client of that version's name
  only, and either fails or leaves that client as the version says.
\<close>

lemma Reconcile_bridge_effect:
  assumes cl: "reads_bridges cl"
    and run: "Reconcile_bridge cl connect req k mgr m = (res, k', mgr', m')"
  obtains (untouched) "mgr' = mgr" "rr_err res \<noteq> None \<or> bs_bridges (fst k') req = None" "bridge_envs (fst k) (fst k')"
  | (touched) b s where "bridge_envs (fst k) s" "bs_bridges s req = Some b" "bridge_envs s (fst k')"
      "\<And>n. n \<noteq> mb_BridgeName b \<Longrightarrow> mgr_bridges mgr' n = mgr_bridges mgr n"
      "rr_err res = None \<Longrightarrow>
         client_endpoint mgr' (mb_BridgeName b) = (if mb_DeletionTimestamp b \<noteq> None then None else Some (bridge_endpoint b))"
proof -
  obtain r k1 where get: "cl_get_bridge cl req k = (r, k1)" by (cases "cl_get_bridge cl req k")
  have read: "bridge_envs (fst k) (fst k1)" "r = Inl NotFound \<Longrightarrow> bs_bridges (fst k1) req = None"
    "\<And>b. r = Inr b \<Longrightarrow> bs_bridges (fst k1) req = Some b"
    using bridge_read [OF cl get] by auto
  have ign: "ignores_NotFound cl" using cl by (simp add: reads_bridges_def)
  show thesis
  proof (cases r)
    case (Inl e)
    with get run ign have "mgr' = mgr" "k' = k1" "e \<noteq> NotFound \<longrightarrow> rr_err res \<noteq> None"
      by (auto simp: Reconcile_bridge_def ignores_NotFound_def done_with_def)
    with read Inl show ?thesis by (intro untouched) auto
  next
    case (Inr b)
    show ?thesis
    proof (cases "mb_DeletionTimestamp b")
      case (Some t)
      then have "k' = k1" "mgr' = fst (Remove mgr m (mb_BridgeName b))"
        using get Inr run by (auto simp: Reconcile_bridge_def)
      with read Inr Some show ?thesis
        by (intro touched [of "fst k1" b]) (auto simp: Remove_bridges client_endpoint_def)
    next
      case None
      obtain c k2 where cred: "bridge_credentials cl b k1 = (c, k2)" by (cases "bridge_credentials cl b k1")
      have secret: "bridge_envs (fst k1) (fst (snd (cl_get_secret cl nn k1)))" for nn
        using cl unfolding reads_bridges_def by blast
      have k2: "bridge_envs (fst k1) (fst k2)"
      proof (cases "mb_CredentialsSecretRef b")
        case (Some ref)
        with secret [of "(cref_Namespace ref, cref_Name ref)"] cred show ?thesis
          by (auto simp: bridge_credentials_def readCredentials_def split: prod.splits sum.splits)
      qed (use cred in \<open>simp add: bridge_credentials_def\<close>)
      show ?thesis
      proof (cases c)
        case (Inl e)
        with get \<open>r = Inr b\<close> run None cred have "mgr' = mgr" "k' = k2" "rr_err res \<noteq> None"
          by (auto simp: Reconcile_bridge_def done_with_def)
        with read(1) k2 show ?thesis by (intro untouched) (auto intro: rtranclp_trans)
      next
        case (Inr up)
        obtain user pw where up: "up = (user, pw)" by (cases up)
        let ?cfg = "bridge_config b user pw"
        obtain e where e: "Upsert mgr m ?cfg connect = (e, mgr', m')" "k' = k2" "res = done_with e"
          using get \<open>r = Inr b\<close> run None cred Inr up by (auto simp: Reconcile_bridge_def split: prod.splits)
        have oth: "mgr_bridges mgr' n = mgr_bridges mgr n" if "n \<noteq> mb_BridgeName b" for n
          using Upsert_others [of n ?cfg mgr m connect] that e(1) by (simp add: bridge_config_def)
        have "client_endpoint mgr' (mb_BridgeName b) = Some (bridge_endpoint b)" if "rr_err res = None"
        proof -
          from that e have "Upsert mgr m ?cfg connect = (None, mgr', m')" by (simp add: done_with_def)
          from Upsert_success [OF this] show ?thesis
            by (auto simp: bridge_config_def serves_def client_endpoint_def bridge_endpoint_def)
        qed
        with touched [OF read(1) read(3) [OF \<open>r = Inr b\<close>]] k2 e(2) oth None show ?thesis by simp
      qed
    qed
  qed
qed

subsection \<open>Nothing is forgotten\<close>

definition own_names :: "Manager \<Rightarrow> bool" where
  "own_names mgr \<longleftrightarrow> (\<forall>n bc. mgr_bridges mgr n = Some bc \<longrightarrow> bcf_BridgeName (bc_cfg bc) = n)"

lemma own_names_Reconcile:
  "own_names mgr \<Longrightarrow> Reconcile_bridge cl connect req k mgr m = (res, k', mgr', m') \<Longrightarrow> own_names mgr'"
  by (auto simp: own_names_def Reconcile_bridge_def Remove_def Upsert_def newBridgeClient_def Let_def
      split: prod.splits sum.splits option.splits if_splits)

definition bridge_inv :: "(bridge_store \<times> 'x) \<times> Manager \<Rightarrow> bool" where
  "bridge_inv c \<longleftrightarrow> (case c of ((k, x), mgr) \<Rightarrow>
     distinct_names (bs_bridges k) \<and> own_names mgr \<and> (\<forall>nn. bridge_due k nn \<or> bridge_agrees k mgr nn))"

lemma bridge_invI:
  "distinct_names (bs_bridges k) \<Longrightarrow> own_names mgr \<Longrightarrow> (\<And>nn. bridge_due k nn \<or> bridge_agrees k mgr nn) \<Longrightarrow>
     bridge_inv ((k, x), mgr)"
  unfolding bridge_inv_def by simp

lemma bridge_invD:
  assumes "bridge_inv ((k, x), mgr)"
  shows "distinct_names (bs_bridges k)" "own_names mgr" "bridge_due k nn \<or> bridge_agrees k mgr nn"
  using assms unfolding bridge_inv_def prod.case by (simp, simp, blast)

lemma agrees_cong:
  "bs_bridges k' nn = bs_bridges k nn \<Longrightarrow> (\<And>b. bs_bridges k nn = Some b \<Longrightarrow>
     client_endpoint mgr' (mb_BridgeName b) = client_endpoint mgr (mb_BridgeName b)) \<Longrightarrow>
   bridge_agrees k' mgr' nn = bridge_agrees k mgr nn"
  by (simp add: bridge_agrees_def split: option.splits)

lemma agrees_envs:
  assumes "bridge_envs k k'" "bridge_due k nn \<or> bridge_agrees k mgr nn"
  shows "bridge_due k' nn \<or> bridge_agrees k' mgr nn"
  using assms(2) bridge_envs_keep(1,2) [OF assms(1), of nn] agrees_cong [of k' nn k mgr mgr] by blast

lemma bridge_inv_reconcile:
  assumes cl: "reads_bridges cl" and inv: "bridge_inv ((k, x), mgr)"
    and run: "Reconcile_bridge cl connect req (take_bridge req k, x) mgr m = (res, (k', x'), mgr', m')"
  shows "bridge_inv ((finish_bridge req res k', x'), mgr')"
proof -
  let ?k0 = "take_bridge req k" and ?k' = "finish_bridge req res k'"
  have d: "distinct_names (bs_bridges ?k0)" using inv by (simp add: bridge_inv_def take_bridge_def)
  have names: "own_names mgr'" by (rule own_names_Reconcile [OF bridge_invD(2) [OF inv] run])
  have others: "bridge_due ?k0 nn \<or> bridge_agrees ?k0 mgr nn" if "nn \<noteq> req" for nn
    using bridge_invD(3) [OF inv, of nn] that by (simp add: take_bridge_def bridge_due_def bridge_agrees_def)
  have fin: "bs_bridges ?k' = bs_bridges k'" "\<And>mgr nn. bridge_agrees ?k' mgr nn = bridge_agrees k' mgr nn"
    "\<And>nn. bridge_due k' nn \<Longrightarrow> bridge_due ?k' nn" "rr_err res \<noteq> None \<Longrightarrow> bridge_due ?k' req"
    by (auto simp: finish_bridge_def bridge_agrees_def bridge_due_def)
  from cl run show ?thesis
  proof (cases rule: Reconcile_bridge_effect)
    case untouched
    then have e: "bridge_envs ?k0 k'" by simp
    have "bridge_due ?k' nn \<or> bridge_agrees ?k' mgr nn" for nn
    proof (cases "nn = req")
      case True
      with untouched(2) fin show ?thesis by (auto simp: bridge_agrees_def)
    next
      case False
      from agrees_envs [OF e others [OF False]] show ?thesis using fin(2,3) by blast
    qed
    moreover have "distinct_names (bs_bridges ?k')" using bridge_envs_keep(3) [OF e d] fin(1) by simp
    ultimately show ?thesis using names unfolding untouched(1) by (intro bridge_invI)
  next
    case (touched b s)
    then have e1: "bridge_envs ?k0 s" and e2: "bridge_envs s k'" by simp_all
    note d1 = bridge_envs_keep(3) [OF e1 d]
    have "bridge_due ?k' nn \<or> bridge_agrees ?k' mgr' nn" for nn
    proof (cases "bridge_due ?k' nn")
      case False
      then have nd: "\<not> bridge_due k' nn" using fin(3) by blast
      then have same: "bs_bridges k' nn = bs_bridges s nn" using bridge_envs_keep(2) [OF e2] by blast
      show ?thesis
      proof (cases "nn = req")
        case True
        with False fin(4) have "rr_err res = None" by blast
        with touched(2,5) same True show ?thesis by (simp add: fin bridge_agrees_def)
      next
        case other: False
        have "mb_BridgeName b' \<noteq> mb_BridgeName b" if "bs_bridges k' nn = Some b'" for b'
          using d1 touched(2) same that other unfolding distinct_names_def by metis
        then have "bridge_agrees k' mgr' nn = bridge_agrees k' mgr nn"
          using touched(4) by (intro agrees_cong) (auto simp: client_endpoint_def)
        with agrees_envs [OF rtranclp_trans [OF e1 e2] others [OF other]] nd fin show ?thesis by blast
      qed
    qed simp
    with bridge_envs_keep(3) [OF e2 d1] fin(1) names show ?thesis by (intro bridge_invI) simp_all
  qed
qed

lemma bridge_inv_step:
  assumes "reads_bridges cl" "bridge_step cl c c'" "bridge_inv c"
  shows "bridge_inv c'"
  using assms(2,3)
proof (induction rule: bridge_step.induct)
  case (cache k k' x mgr x')
  then have e: "bridge_envs k k'" by blast
  from bridge_envs_keep(3) [OF e bridge_invD(1) [OF cache(2)]] bridge_invD(2) [OF cache(2)] agrees_envs [OF e bridge_invD(3) [OF cache(2)]]
  show ?case by (rule bridge_invI)
next
  case (reconcile req k connect x mgr m res k' x' mgr' m')
  show ?case by (rule bridge_inv_reconcile [OF assms(1) reconcile(3,2)])
next
  case (client mgr n bc bc' k x)
  have "client_endpoint (mgr\<lparr> mgr_bridges := (mgr_bridges mgr)(n \<mapsto> bc') \<rparr>) i = client_endpoint mgr i" for i
    using client(1) client_step_cfg [OF client(2)] by (simp add: client_endpoint_def)
  then have "bridge_agrees k (mgr\<lparr> mgr_bridges := (mgr_bridges mgr)(n \<mapsto> bc') \<rparr>) nn = bridge_agrees k mgr nn" for nn
    by (intro agrees_cong) simp_all
  moreover have "own_names (mgr\<lparr> mgr_bridges := (mgr_bridges mgr)(n \<mapsto> bc') \<rparr>)"
    using bridge_invD(2) [OF client(3)] client(1) client_step_cfg [OF client(2)] by (simp add: own_names_def)
  ultimately show ?case using bridge_invD [OF client(3)] by (intro bridge_invI) simp_all
qed



text \<open>A client that reads a quiet cache, and a run that connects one bridge.\<close>

definition quiet_reads :: "(bridge_store \<times> unit) client" where
  "quiet_reads =
     \<lparr> cl_get_valve = (\<lambda>nn k. (Inl NotFound, k)),
       cl_get_bridge = (\<lambda>nn k. (case bs_bridges (fst k) nn of None \<Rightarrow> Inl NotFound | Some b \<Rightarrow> Inr b, k)),
       cl_get_secret = (\<lambda>nn k. (Inl NotFound, k)),
       cl_list_devices = (\<lambda>k. (Inr [], k)),
       cl_status_update = (\<lambda>v k. (None, k)),
       cl_IgnoreNotFound = (\<lambda>e. if e = NotFound then None else Some e) \<rparr>"

lemma quiet_reads_ok: "reads_bridges quiet_reads"
  by (auto simp: reads_bridges_def quiet_reads_def ignores_NotFound_def split: option.splits)

definition one_bridge :: "nsname list \<Rightarrow> nsname set \<Rightarrow> bridge_store" where
  "one_bridge evs q = \<lparr> bs_bridges = [(''ns'', ''b'') \<mapsto> k_bridge], bs_events = evs, bs_queue = q \<rparr>"

lemma bridge_created: "bridge_env empty_bridges (one_bridge [(''ns'', ''b'')] {})"
  using bridge_env.change [of empty_bridges "(''ns'', ''b'')" "Some k_bridge"]
  by (simp add: empty_bridges_def one_bridge_def distinct_names_def)

lemma bridge_delivered: "bridge_env (one_bridge [(''ns'', ''b'')] {}) (one_bridge [] {(''ns'', ''b'')})"
  using bridge_env.deliver [of "(''ns'', ''b'')" "one_bridge [(''ns'', ''b'')] {}"]
  by (simp add: one_bridge_def bridge_watch_def)


text \<open>
  A bridge whose name was changed leaves the client of its old name behind: the reconcile of
  the new version does not touch it.
\<close>

theorem renamed_bridge_keeps_old_client:
  assumes "cl_get_bridge cl req k = (Inr b, k1)" "mb_BridgeName b \<noteq> old" "mgr_bridges mgr old = Some bc"
    and "Reconcile_bridge cl connect req k mgr m = (res, k', mgr', m')"
  shows "mgr_bridges mgr' old = Some bc"
proof (cases "mb_DeletionTimestamp b")
  case (Some t)
  with assms Remove_bridges [of mgr m "mb_BridgeName b" old] show ?thesis by (auto simp: Reconcile_bridge_def)
next
  case None
  have "mgr_bridges (fst (snd (Upsert mgr m (bridge_config b user pw) connect))) old = Some bc" for user pw
    using Upsert_others [of old "bridge_config b user pw" mgr m connect] assms(2,3) by (simp add: bridge_config_def)
  with None assms show ?thesis
    by (auto simp: Reconcile_bridge_def split: prod.splits sum.splits) (metis fst_conv snd_conv)
qed

end
