(* ===== verification/Mirror.thy ===== *)
theory Mirror
  imports Scenario
begin

text \<open>
  The reported position: the last status write and the state gauge always show the state the
  pipeline has recorded, at every point at which the executing goroutine blocks or ends.
\<close>

text \<open>The values the resource's schema admits for the position in the status.\<close>

definition ValveState_enum :: "string set" where
  "ValveState_enum = {''open'', ''closed'', ''unknown''}"

lemma ValveState_enum_consts [simp]:
  "ValveStateOpen \<in> ValveState_enum" "ValveStateClosed \<in> ValveState_enum" "ValveStateUnknown \<in> ValveState_enum"
  by (simp_all add: ValveState_enum_def ValveStateOpen_def ValveStateClosed_def ValveStateUnknown_def)

text \<open>
  What is shown of a valve: the status writes, its name and namespace, its recorded state and
  the state gauges. It is right, since a point with the writes \<open>ws\<close> and the state \<open>st0\<close>, when
  every write since then is for this valve and has a value of the schema, and the recorded
  state is the one of the last write, or still \<open>st0\<close> when there was none; \<open>g\<close> says that the
  gauge must agree with the recorded state, \<open>e\<close> that this state must be a value of the schema.
\<close>

type_synonym shown = "status_write list \<times> string \<times> string \<times> ValveState \<times> (labels2 \<rightharpoonup> rat)"

definition view :: "world \<Rightarrow> shown" where
  "view w = (w_writes w, vi_Name (info w), vi_Namespace (info w), vi_State (info w), m_ValveState (w_metrics w))"

fun view_ok :: "status_write list \<Rightarrow> ValveState \<Rightarrow> bool \<Rightarrow> bool \<Rightarrow> shown \<Rightarrow> bool" where
  "view_ok ws st0 g e (writes, name, ns, st, gauge) \<longleftrightarrow>
     (\<exists>new. writes = ws @ new \<and>
        list_all (\<lambda>x. sw_Name x = name \<and> sw_Namespace x = ns \<and> sw_State x \<in> ValveState_enum) new \<and>
        st = (if new = [] then st0 else sw_State (last new))) \<and>
     (g \<longrightarrow> gauge (name, ns) = Some (stateVal st)) \<and> (e \<longrightarrow> st \<in> ValveState_enum)"

definition mirrored :: "status_write list \<Rightarrow> ValveState \<Rightarrow> bool \<Rightarrow> bool \<Rightarrow> world \<Rightarrow> bool" where
  "mirrored ws st0 g e w \<longleftrightarrow> view_ok ws st0 g e (view w)"

definition gauge_ok :: "world \<Rightarrow> bool" where
  "gauge_ok w \<longleftrightarrow> m_ValveState (w_metrics w) (vi_Name (info w), vi_Namespace (info w)) = Some (stateVal (vi_State (info w)))"

lemma view_simps [simp]:
  "view (set_state a s w) = view w" "view (upd_act a f w) = view w" "view (cancel_ctx i w) = view w"
  "view (advance t w) = view w" "view (log_send b d p pub w) = view w" "view (addToHistory a w) = view w"
  "view (snd (new_ctx w)) = view w" "view (count_action a r w) = view w" "view (count_retry a w) = view w"
  "view (observe_duration a x w) = view w" "view (spawn_check w) = view w" "view (snd (alloc_act n ns ty dur w)) = view w"
  "view (upd_pl (\<lambda>p. p\<lparr> p_cancelFn := cf, p_current := cur \<rparr>) w) = view w"
  "view (upd_pl (\<lambda>p. p\<lparr> p_actionCh := g p \<rparr>) w) = view w"
  by (simp_all add: view_def update_defs set_state_def log_send_def addToHistory_def count_action_def count_retry_def
      observe_duration_def spawn_check_def Let_def)

lemma view_frame:
  "view (w\<lparr> w_cells := cs, w_disp := d \<rparr>) = view w" "view (w\<lparr> w_mgr := g \<rparr>) = view w"
  by (simp_all add: view_def)

lemma view_dispatch [simp]: "view (dispatch_event ev w) = view w"
  using dispatch_frame [of ev w] view_frame(1) by metis

lemma view_waitForPower [simp]: "view (snd (waitForPower c dev p w)) = view w"
proof -
  have "view (add_cell c dev p w) = view w" by (simp add: view_def add_cell_simps)
  then show ?thesis
    using waiter_frame(2) [of "length (w_cells w)" "add_cell c dev p w"] view_frame(1)
    unfolding waitForPower_def Let_def snd_conv by metis
qed

lemma mirrored_simps [simp]:
  "mirrored ws s0 g e (set_state a s w) = mirrored ws s0 g e w" "mirrored ws s0 g e (cancel_ctx i w) = mirrored ws s0 g e w"
  "mirrored ws s0 g e (upd_act a f w) = mirrored ws s0 g e w" "mirrored ws s0 g e (advance t w) = mirrored ws s0 g e w"
  "mirrored ws s0 g e (log_send b d p pub w) = mirrored ws s0 g e w" "mirrored ws s0 g e (addToHistory a w) = mirrored ws s0 g e w"
  "mirrored ws s0 g e (count_action a r w) = mirrored ws s0 g e w" "mirrored ws s0 g e (spawn_check w) = mirrored ws s0 g e w"
  "mirrored ws s0 g e (snd (new_ctx w)) = mirrored ws s0 g e w"
  "mirrored ws s0 g e (snd (alloc_act n ns ty dur w)) = mirrored ws s0 g e w"
  by (simp_all add: mirrored_def)

lemma view_ok_put:
  assumes "view_ok ws s0 g e (writes, name, ns, st, gauge)" "sw_Name x = name" "sw_Namespace x = ns"
    "sw_State x = st'" "st' \<in> ValveState_enum" "g' \<longrightarrow> gauge' (name, ns) = Some (stateVal st')"
  shows "view_ok ws s0 g' e' (writes @ [x], name, ns, st', gauge')"
proof -
  from assms(1) obtain new where "writes = ws @ new"
    "list_all (\<lambda>x. sw_Name x = name \<and> sw_Namespace x = ns \<and> sw_State x \<in> ValveState_enum) new" by auto
  with assms(2-6) show ?thesis by (auto intro!: exI [of _ "new @ [x]"])
qed

lemma mirrored_apply: "mirrored ws s0 g e w \<Longrightarrow> mirrored ws s0 g' e' (applyDeviceState opn w)"
  unfolding mirrored_def
  by (cases opn; simp add: view_def applyDeviceState_def UpdateValveStatus_call_def set_state_gauge_def update_defs Let_def
      del: view_ok.simps; erule view_ok_put; simp)

lemma mirrored_unconfirmed: "mirrored ws s0 g e w \<Longrightarrow> mirrored ws s0 g e (markCloseUnconfirmed w)"
proof (cases "vi_State (info w) = ValveStateClosed")
  case True
  then show "mirrored ws s0 g e w \<Longrightarrow> ?thesis"
    unfolding mirrored_def
    by (simp add: view_def markCloseUnconfirmed_def UpdateValveStatus_call_def set_state_gauge_def update_defs Let_def
      del: view_ok.simps) (erule view_ok_put; simp)
next
  case False
  then show "mirrored ws s0 g e w \<Longrightarrow> ?thesis" by (simp add: markCloseUnconfirmed_def)
qed

lemma mirrored_action_id: "mirrored ws s0 g True w \<Longrightarrow> mirrored ws s0 g True (updateActionID aid w)"
proof -
  assume m: "mirrored ws s0 g True w"
  then have "vi_State (info w) \<in> ValveState_enum" "g \<longrightarrow> gauge_ok w" by (simp_all add: mirrored_def view_def gauge_ok_def)
  with m show ?thesis
    unfolding mirrored_def
    by (simp add: view_def gauge_ok_def updateActionID_def UpdateValveStatus_call_def update_defs Let_def
      del: view_ok.simps) (erule view_ok_put; simp)
qed

lemma view_external: "e \<noteq> PingConfirmed \<Longrightarrow> view (external_step e w) = view w"
proof (cases e)
  case (Sensor topic payload)
  have "view (fold dispatch_event evs w) = view w" for evs w by (induction evs arbitrary: w) auto
  then show ?thesis by (simp add: Sensor handleSensor_def Let_def) (simp add: view_def)
next
  case (Request t d)
  have "view (Enqueue a w) = view w" for a w
    by (simp add: Enqueue_def Let_def split: option.splits)
  then show ?thesis by (simp add: Request request_def split_beta)
next
  case (Reconfigure i)
  then show ?thesis by (simp add: view_def UpdateConfig_def upd_info_def upd_pl_def)
next
  case (SensorFields ev)
  then show ?thesis by (simp add: view_def update_sensor_def sensor_fields_def set_sensor_gauges_def update_defs Let_def)
next
  case (BridgeUpsert cfg ok)
  then show ?thesis
    by (auto simp: view_def Upsert_def Disconnect_def Let_def split: option.splits if_splits prod.splits)
next
  case (BridgeRemove n)
  then show ?thesis by (auto simp: view_def Remove_def Disconnect_def split: option.splits prod.splits)
qed auto

lemma mirrored_external: "mirrored ws s0 g e w \<Longrightarrow> mirrored ws s0 g e (external_step ev w)"
proof (cases "ev = PingConfirmed")
  case True
  then show "mirrored ws s0 g e w \<Longrightarrow> ?thesis" by (auto simp: ping_apply_def intro: mirrored_apply split: option.splits)
next
  case False
  then show "mirrored ws s0 g e w \<Longrightarrow> ?thesis" by (simp add: mirrored_def view_external)
qed

interpretation reported: rely external_step "\<lambda>_. True" "mirrored ws s0 g e" for ws s0 g e
  by unfold_locales (auto intro: mirrored_external)

lemma mirrored_block: "block ready dl w es = Some (w', es') \<Longrightarrow> mirrored ws s0 g e w \<Longrightarrow> mirrored ws s0 g e w'"
  using reported.wait_rely [of ready dl w es w' es'] by (auto simp: list_all_iff)

lemma mirrored_send_loop:
  "send_loop external_step c wc b dev p n i pub w es = Some (pub', w', es') \<Longrightarrow> mirrored ws s0 g e w \<Longrightarrow>
   mirrored ws s0 g e w'"
  using reported.send_loop_rely [of c wc b dev p n i pub w es pub' w' es'] by (auto simp: list_all_iff)

lemma view_attempt_setup: "attempt_setup c a pwr timeout n w = (i, cid, wc, cell, w') \<Longrightarrow> view w' = view w"
  by (auto simp: attempt_setup_def Let_def split_beta)

lemma mirrored_attempt_once:
  assumes "attempt_once c a pwr timeout n w es = Some (r, w', es')" "mirrored ws s0 g e w"
  shows "mirrored ws s0 g e w'"
proof -
  obtain i cid wc cell w1 where s: "attempt_setup c a pwr timeout n w = (i, cid, wc, cell, w1)"
    by (metis prod_cases5)
  have "mirrored ws s0 g e w1" using view_attempt_setup [OF s] assms(2) by (simp add: mirrored_def)
  with assms(1) s show ?thesis
    by (auto simp: attempt_once_def attempt_await_def Let_def bind_eq_Some_conv split: if_splits
        dest!: mirrored_send_loop mirrored_block)
qed

text \<open>A confirmed command records and shows a position of the schema.\<close>

lemma mirrored_attempt_loop:
  "attempt_loop c a pwr rc timeout n i w es = Some (r, w', es') \<Longrightarrow> mirrored ws s0 g e w \<Longrightarrow>
   mirrored ws s0 (g \<or> r = None) (e \<or> r = None) w'"
proof (induction n arbitrary: i w es)
  case (Suc n)
  from Suc.prems(1) obtain x w1 es1 where once: "attempt_once c a pwr timeout i w es = Some (x, w1, es1)"
    by (auto simp: bind_eq_Some_conv)
  have m: "mirrored ws s0 g e w1" by (rule mirrored_attempt_once [OF once Suc.prems(2)])
  with Suc.prems once Suc.IH mirrored_apply [OF m] show ?case
    by (cases x) auto
qed auto

lemma mirrored_attempts:
  "attemptWithRetry c a pwr rc timeout w es = Some (r, w', es') \<Longrightarrow> mirrored ws s0 g e w \<Longrightarrow>
   mirrored ws s0 (g \<or> r = None) (e \<or> r = None) w'"
  unfolding attemptWithRetry_def by (erule mirrored_attempt_loop) simp

lemma mirrored_failed: "mirrored ws s0 g e w \<Longrightarrow> mirrored ws s0 g e (exec_failed a pwr err w)"
  by (auto simp: exec_failed_def Let_def intro!: mirrored_unconfirmed)

lemma view_exec [simp]:
  "view (exec_start a w) = view w" "view (exec_fulfilled a pwr w) = view w" "view (exec_finish cid a w) = view w"
  by (simp_all add: exec_start_def exec_begin_def exec_fulfilled_def exec_finish_def Let_def split_beta)

lemma mirrored_exec [simp]:
  "mirrored ws s0 g e (exec_start a w) = mirrored ws s0 g e w"
  "mirrored ws s0 g e (exec_fulfilled a pwr w) = mirrored ws s0 g e w"
  "mirrored ws s0 g e (exec_finish cid a w) = mirrored ws s0 g e w"
  by (simp_all add: mirrored_def)

lemma mirrored_closed: "mirrored ws s0 g e w \<Longrightarrow> mirrored ws s0 g e (exec_closed a err w)"
  by (auto simp: exec_closed_def Let_def split: option.splits intro!: mirrored_unconfirmed)

lemma mirrored_hold: "exec_hold c a w es = Some (w', es') \<Longrightarrow> mirrored ws s0 g True w \<Longrightarrow> mirrored ws s0 g True w'"
  unfolding exec_hold_def Let_def by (erule mirrored_block) (simp add: mirrored_action_id)

lemma mirrored_close:
  assumes "exec_close a cfg w es = Some (w', es')" "mirrored ws s0 True True w"
  shows "mirrored ws s0 True True w'"
  using assms
  by (auto simp: exec_close_def Let_def split_beta bind_eq_Some_conv
      intro!: mirrored_closed dest!: mirrored_attempts)

lemma execute_mirrored:
  assumes run: "execute c a w es = Some (w', es')" and "mirrored ws s0 g e w"
  shows "mirrored ws s0 g e w'"
proof -
  have weak: "mirrored ws s0 True True v \<Longrightarrow> mirrored ws s0 g e v" for v
    by (auto simp: mirrored_def view_def)
  have start: "mirrored ws s0 g e (exec_start a w)" using assms(2) by simp
  show ?thesis
    using run
  proof (cases rule: execute_cases)
    case rejected
    with assms(2) show ?thesis by simp
  next
    case (failed err w2)
    from mirrored_failed [OF mirrored_attempts [OF failed(2) start]] show ?thesis
      unfolding failed(3) by simp
  next
    case (plain w2)
    from mirrored_attempts [OF plain(2) start] show ?thesis
      unfolding plain(4) by (intro weak) (simp add: mirrored_action_id)
  next
    case (timed w2 es2 w3 es3 w4)
    have "mirrored ws s0 True True w2" using mirrored_attempts [OF timed(2) start] by simp
    then have "mirrored ws s0 True True w3" by (intro mirrored_hold [OF timed(4)]) simp
    then have "mirrored ws s0 True True w4" by (rule mirrored_close [OF timed(5)])
    then show ?thesis unfolding timed(6) by (intro weak) (simp add: mirrored_action_id)
  qed
qed

lemma execute_writes:
  assumes "execute c a w es = Some (w', es')"
  obtains new where "w_writes w' = w_writes w @ new"
    "list_all (\<lambda>x. sw_Name x = vi_Name (info w') \<and> sw_Namespace x = vi_Namespace (info w') \<and> sw_State x \<in> ValveState_enum) new"
    "vi_State (info w') = (if new = [] then vi_State (info w) else sw_State (last new))"
    "gauge_ok w \<Longrightarrow> gauge_ok w'"
proof -
  have "mirrored (w_writes w) (vi_State (info w)) (gauge_ok w) False w"
    by (simp add: mirrored_def view_def gauge_ok_def)
  from execute_mirrored [OF assms this] show thesis
    by (auto simp: mirrored_def view_def gauge_ok_def intro!: that)
qed



text \<open>
  C30: Every status write an execution makes is one the resource's schema admits and addresses the
  valve of the pipeline: its position is one of the three values of the enumeration, also for
  a new valve, whose recorded position is still empty, and after failed and cancelled actions.
\<close>

theorem status_writes_are_valid:
  assumes "execute c a w es = Some (w', es')" "x \<in> set (drop (length (w_writes w)) (w_writes w'))"
  shows "sw_State x \<in> {''open'', ''closed'', ''unknown''} \<and> sw_Name x = vi_Name (info w') \<and> sw_Namespace x = vi_Namespace (info w')"
proof -
  from assms(1) obtain new where "w_writes w' = w_writes w @ new"
    "list_all (\<lambda>x. sw_Name x = vi_Name (info w') \<and> sw_Namespace x = vi_Namespace (info w') \<and> sw_State x \<in> ValveState_enum) new"
    by (rule execute_writes)
  with assms(2) show ?thesis by (auto simp: list_all_iff ValveState_enum_def)
qed

theorem status_writes_are_valid_witness:
  "\<exists>w' es' x. execute pipeCtx 0 (demo_world ActionTypeClose 0) [] = Some (w', es') \<and>
     x \<in> set (w_writes w') \<and> sw_State x \<in> {''open'', ''closed'', ''unknown''}"
proof -
  let ?w = "demo_world ActionTypeClose 0"
  obtain w' es' where run: "execute pipeCtx 0 ?w [] = Some (w', es')"
    "act_State (w_acts w' 0) = ActionStateFailed" "map zs_power (w_sends w') = [False, False]" by (rule close_runE)
  have ok: "waiters_ok ?w" "0 < w_next_act ?w" by simp_all
  from run(1) ok have "vi_State (info w') \<noteq> ValveStateClosed"
  proof (cases rule: execute_outcomes)
    case rejected
    then show ?thesis by (simp add: opens_alt newAction_eval)
  next
    case (timed xs pre w2 es2 w3 es3 w4)
    then show ?thesis by (simp add: effective_def upgrade_open_def newAction_eval)
  qed (use run(2) in \<open>simp_all add: opens_alt newAction_eval\<close>)
  moreover have "w_writes ?w = []" by (simp add: demo_world_def)
  ultimately have "w_writes w' \<noteq> []"
    by (rule_tac execute_writes [OF run(1)]) (auto simp: demo_info_eval)
  then obtain x where x: "x \<in> set (w_writes w')" by (cases "w_writes w'") auto
  with \<open>w_writes ?w = []\<close> have "sw_State x \<in> {''open'', ''closed'', ''unknown''}"
    using status_writes_are_valid [OF run(1), of x] by simp
  with x run(1) show ?thesis by blast
qed

end
