(* ===== verification/Reporting.thy ===== *)
theory Reporting
  imports Mirror K8sProps
begin

text \<open>
  The status on the cluster: the status writes of a pipeline, in their order, go through
  \<open>UpdateValveStatus\<close> of the valve reconciler. Other clients may change the resources
  meanwhile, except for the recorded position, which only this program writes.
\<close>

text \<open>
  \<open>pos k\<close> is the position in the status of each existing valve. A read gives the valve as it is,
  or fails; a status update that succeeds stores the position it was given, when the valve
  still exists; one that fails changes nothing.
\<close>

definition keeps_positions :: "('k \<Rightarrow> nsname \<Rightarrow> string option) \<Rightarrow> 'k client \<Rightarrow> bool" where
  "keeps_positions pos cl \<longleftrightarrow> ignores_NotFound cl \<and>
     (\<forall>nn k r k'. cl_get_valve cl nn k = (r, k') \<longrightarrow> pos k' = pos k \<and>
        (case r of
           Inl e \<Rightarrow> e = NotFound \<longrightarrow> pos k nn = None
         | Inr v \<Rightarrow> (mv_Namespace v, mv_Name v) = nn)) \<and>
     (\<forall>v k e k'. cl_status_update cl v k = (e, k') \<longrightarrow>
        pos k' = (if e = None
          then (pos k)((mv_Namespace v, mv_Name v) := map_option (\<lambda>_. st_ValveState (mv_Status v)) (pos k (mv_Namespace v, mv_Name v)))
          else pos k))"

text \<open>The writes of a pipeline, each with the clock of its call; the results are only logged.\<close>

fun write_all :: "'k client \<Rightarrow> 'k retry \<Rightarrow> status_write list \<Rightarrow> 'k \<Rightarrow> api_error option list \<times> 'k" where
  "write_all cl retry [] k = ([], k)"
| "write_all cl retry (x # xs) k =
     (let (e, k) = UpdateValveStatus cl retry (sw_time x) (sw_Name x) (sw_Namespace x) (sw_State x) (sw_ActionID x) k;
          (es, k) = write_all cl retry xs k
      in (e # es, k))"

lemma UpdateValveStatus_pos:
  assumes cl: "keeps_positions pos cl" and retry: "retries_on_conflict retry"
    and run: "UpdateValveStatus cl retry now name ns st aid k = (e, k')"
  shows "pos k' = (if e = None then (pos k)((ns, name) := map_option (\<lambda>_. st) (pos k (ns, name))) else pos k)"
proof -
  let ?f = "\<lambda>k. case cl_get_valve cl (ns, name) k of
                  (Inl e, k) \<Rightarrow> (cl_IgnoreNotFound cl e, k)
                | (Inr v, k) \<Rightarrow> cl_status_update cl (write_status now st aid v) k"
  let ?new = "\<lambda>k. (pos k)((ns, name) := map_option (\<lambda>_. st) (pos k (ns, name)))"
  have w: "mv_Namespace (write_status now st aid v) = mv_Namespace v" "mv_Name (write_status now st aid v) = mv_Name v"
    "st_ValveState (mv_Status (write_status now st aid v)) = st" for v
    by (simp_all add: write_status_def Let_def)
  have f: "pos k' = (if e = None then ?new k else pos k)" if "?f k = (e, k')" for k e k'
  proof -
    obtain r k1 where g: "cl_get_valve cl (ns, name) k = (r, k1)" by (rule prod.exhaust)
    then have r: "pos k1 = pos k" "case r of Inl e \<Rightarrow> e = NotFound \<longrightarrow> pos k (ns, name) = None
        | Inr v \<Rightarrow> (mv_Namespace v, mv_Name v) = (ns, name)"
      using cl unfolding keeps_positions_def by blast+
    show ?thesis
    proof (cases r)
      case (Inl e0)
      with that g cl r show ?thesis
        by (auto simp: keeps_positions_def ignores_NotFound_def fun_eq_iff split: if_splits)
    next
      case (Inr v)
      with that g have "cl_status_update cl (write_status now st aid v) k1 = (e, k')" by simp
      with cl have "pos k' = (if e = None
          then (pos k1)((mv_Namespace v, mv_Name v) := map_option (\<lambda>_. st) (pos k1 (mv_Namespace v, mv_Name v)))
          else pos k1)"
        unfolding keeps_positions_def using w by metis
      with r Inr show ?thesis by simp
    qed
  qed
  obtain n where "retry ?f k = retry_loop n ?f k" using retry unfolding retries_on_conflict_def by blast
  with run have loop: "retry_loop n ?f k = (e, k')" by (simp add: UpdateValveStatus_def)
  have "pos k' = (if e = None then ?new k else pos k)" if "retry_loop n ?f k = (e, k')" for n k e k'
    using that
  proof (induction n arbitrary: k)
    case 0
    then show ?case by (simp add: f)
  next
    case (Suc n)
    obtain e1 k1 where f1: "?f k = (e1, k1)" by (rule prod.exhaust)
    show ?case
    proof (cases "e1 = Some Conflict")
      case True
      with Suc.prems f1 have "retry_loop n ?f k1 = (e, k')" by simp
      from Suc.IH [OF this] f [OF f1] True show ?thesis by simp
    next
      case False
      with Suc.prems f1 have "?f k = (e, k')" by (simp split: option.splits api_error.splits)
      then show ?thesis by (rule f)
    qed
  qed
  from this [OF loop] show ?thesis .
qed

lemma write_all_pos:
  assumes "keeps_positions pos cl" "retries_on_conflict retry"
    and "write_all cl retry xs k = (es, k')" "xs \<noteq> []" "last es = None"
    and "list_all (\<lambda>x. (sw_Namespace x, sw_Name x) = nn) xs"
  shows "pos k' nn = map_option (\<lambda>_. sw_State (last xs)) (pos k nn)"
  using assms(3-6)
proof (induction xs arbitrary: k es)
  case (Cons x xs)
  obtain e k1 where u: "UpdateValveStatus cl retry (sw_time x) (sw_Name x) (sw_Namespace x) (sw_State x) (sw_ActionID x) k = (e, k1)"
    by (rule prod.exhaust)
  obtain es1 k2 where r: "write_all cl retry xs k1 = (es1, k2)" by (rule prod.exhaust)
  from Cons.prems(1) u r have eq: "es = e # es1" "k' = k2" by auto
  note p = UpdateValveStatus_pos [OF assms(1,2) u]
  show ?case
  proof (cases "xs = []")
    case True
    with r Cons.prems eq p show ?thesis by auto
  next
    case False
    then have "es1 \<noteq> []" using r by (cases xs) (auto simp: Let_def split: prod.splits)
    from r eq(2) have r': "write_all cl retry xs k1 = (es1, k')" by simp
    from \<open>es1 \<noteq> []\<close> False Cons.IH [OF r'] Cons.prems eq p show ?thesis by (auto simp: option.map_comp comp_def split: if_splits)
  qed
qed simp


text \<open>A cluster that stores valves under their names.\<close>

definition map_client :: "(nsname \<rightharpoonup> MQTTValve) client" where
  "map_client =
     \<lparr> cl_get_valve = (\<lambda>nn k. (case k nn of None \<Rightarrow> Inl NotFound
         | Some v \<Rightarrow> Inr (v\<lparr> mv_Namespace := fst nn, mv_Name := snd nn \<rparr>), k)),
       cl_get_bridge = (\<lambda>nn k. (Inl NotFound, k)), cl_get_secret = (\<lambda>nn k. (Inl NotFound, k)),
       cl_list_devices = (\<lambda>k. (Inr [], k)),
       cl_status_update = (\<lambda>v k. (None, let nn = (mv_Namespace v, mv_Name v) in
         k(nn := map_option (\<lambda>old. old\<lparr> mv_Status := mv_Status v \<rparr>) (k nn)))),
       cl_IgnoreNotFound = (\<lambda>e. if e = NotFound then None else Some e) \<rparr>"

definition map_pos :: "(nsname \<rightharpoonup> MQTTValve) \<Rightarrow> nsname \<Rightarrow> string option" where
  "map_pos k nn = map_option (\<lambda>v. st_ValveState (mv_Status v)) (k nn)"

lemma map_client_ok: "keeps_positions map_pos map_client"
proof -
  have "map_pos (k(nn := map_option (\<lambda>old. old\<lparr> mv_Status := s \<rparr>) (k nn))) =
      (map_pos k)(nn := map_option (\<lambda>_. st_ValveState s) (map_pos k nn))" for k nn s
    by (rule ext) (simp add: map_pos_def option.map_comp comp_def)
  moreover have "map_pos k nn = None \<longleftrightarrow> k nn = None" for k nn by (simp add: map_pos_def)
  ultimately show ?thesis
    by (auto simp: keeps_positions_def map_client_def ignores_NotFound_def Let_def split: option.splits)
qed

lemma map_client_writes:
  "\<exists>k'. write_all map_client (retry_loop 4) xs k = (map (\<lambda>_. None) xs, k')"
proof (induction xs arbitrary: k)
  case (Cons x xs)
  have "\<exists>k1. UpdateValveStatus map_client (retry_loop 4) t n ns st aid k = (None, k1)" for t n ns st aid
    by (auto simp: UpdateValveStatus_def map_client_def numeral_eq_Suc split: option.splits)
  then obtain k1 where u: "UpdateValveStatus map_client (retry_loop 4) (sw_time x) (sw_Name x) (sw_Namespace x) (sw_State x)
      (sw_ActionID x) k = (None, k1)" by blast
  obtain k2 where "write_all map_client (retry_loop 4) xs k1 = (map (\<lambda>_. None) xs, k2)" using Cons by blast
  with u show ?case by simp
qed simp


end
