(* ===== verification/DeepCopy.thy ===== *)
theory DeepCopy
  imports K8s
begin

text \<open>
  \<^verbatim>\<open>api/v1alpha1/deepcopy_helpers.go\<close> and the copying functions generated beside it.
  Controllers read resources from a cache they must not modify, so what matters of a copy is
  what it shares with the original. Pointers and slices are addresses here: a heap holds a
  time or an array of conditions per address, and allocation takes a fresh address. A string,
  a number and a \<open>Condition\<close> are values (its time has no pointer that is written through).
\<close>

text \<open>
  The status as Go lays it out: two pointers and a slice (\<open>None\<close> is nil). Object and list
  metadata are the library's (\<open>'m\<close>, \<open>'l\<close>), and so is copying them.
\<close>

record status_ptrs =
  sq_ValveState :: string
  sq_LastOpenTime :: "nat option"
  sq_LastCloseTime :: "nat option"
  sq_CurrentActionID :: string
  sq_DailyIrrigationVolume :: rat
  sq_LastValveOpenDuration :: int
  sq_Conditions :: "nat option"

record 'm valve_ptrs =
  vq_TypeMeta :: "string \<times> string"
  vq_ObjectMeta :: 'm
  vq_Spec :: MQTTValveSpec
  vq_Status :: status_ptrs

record 'l list_ptrs =
  lq_TypeMeta :: "string \<times> string"
  lq_ListMeta :: 'l
  lq_Items :: "nat option"

datatype 'm cell = TimeCell time | CondCells "Condition list" | ValveCells "'m valve_ptrs list"

record 'm heap =
  hp_cells :: "nat \<rightharpoonup> 'm cell"
  hp_next :: nat

definition alloc_cell :: "'m cell \<Rightarrow> 'm heap \<Rightarrow> nat \<times> 'm heap" where
  "alloc_cell c h = (hp_next h, \<lparr> hp_cells = (hp_cells h)(hp_next h \<mapsto> c), hp_next = Suc (hp_next h) \<rparr>)"

text \<open>\<open>*out = (*in).DeepCopy()\<close> for a time, and the new slice with copied elements.\<close>

definition copy_ptr :: "nat option \<Rightarrow> 'm heap \<Rightarrow> nat option \<times> 'm heap" where
  "copy_ptr p h =
     (case p of
        None \<Rightarrow> (None, h)
      | Some a \<Rightarrow> (case hp_cells h a of
                    None \<Rightarrow> (Some a, h)
                  | Some c \<Rightarrow> (let (b, h) = alloc_cell c h in (Some b, h))))"

definition DeepCopyInto_status :: "status_ptrs \<Rightarrow> 'm heap \<Rightarrow> status_ptrs \<times> 'm heap" where
  "DeepCopyInto_status s h =
     (let out = s;
          (p, h) = copy_ptr (sq_LastOpenTime s) h;
          out = out\<lparr> sq_LastOpenTime := p \<rparr>;
          (p, h) = copy_ptr (sq_LastCloseTime s) h;
          out = out\<lparr> sq_LastCloseTime := p \<rparr>;
          (p, h) = copy_ptr (sq_Conditions s) h
      in (out\<lparr> sq_Conditions := p \<rparr>, h))"

definition DeepCopy_status :: "status_ptrs option \<Rightarrow> 'm heap \<Rightarrow> status_ptrs option \<times> 'm heap" where
  "DeepCopy_status s h =
     (case s of None \<Rightarrow> (None, h) | Some s \<Rightarrow> (let (out, h) = DeepCopyInto_status s h in (Some out, h)))"

text \<open>\<open>Spec\<close> holds values only and is copied by assignment.\<close>

definition DeepCopyInto_spec :: "MQTTValveSpec \<Rightarrow> MQTTValveSpec" where
  "DeepCopyInto_spec s = s"

definition DeepCopy_spec :: "MQTTValveSpec option \<Rightarrow> MQTTValveSpec option" where
  "DeepCopy_spec s = (case s of None \<Rightarrow> None | Some s \<Rightarrow> Some (DeepCopyInto_spec s))"

definition DeepCopyInto_valve :: "('m \<Rightarrow> 'm) \<Rightarrow> 'm valve_ptrs \<Rightarrow> 'm heap \<Rightarrow> 'm valve_ptrs \<times> 'm heap" where
  "DeepCopyInto_valve copy_meta v h =
     (let out = v;
          out = out\<lparr> vq_TypeMeta := vq_TypeMeta v \<rparr>;
          out = out\<lparr> vq_ObjectMeta := copy_meta (vq_ObjectMeta v) \<rparr>;
          out = out\<lparr> vq_Spec := vq_Spec v \<rparr>;
          (s, h) = DeepCopyInto_status (vq_Status v) h
      in (out\<lparr> vq_Status := s \<rparr>, h))"

definition DeepCopy_valve :: "('m \<Rightarrow> 'm) \<Rightarrow> 'm valve_ptrs option \<Rightarrow> 'm heap \<Rightarrow> 'm valve_ptrs option \<times> 'm heap" where
  "DeepCopy_valve copy_meta v h =
     (case v of None \<Rightarrow> (None, h)
      | Some v \<Rightarrow> (let (out, h) = DeepCopyInto_valve copy_meta v h in (Some out, h)))"

subsection \<open>Lists\<close>

text \<open>The loop over the items; the new array is filled with its result.\<close>

fun copy_items :: "('m \<Rightarrow> 'm) \<Rightarrow> 'm valve_ptrs list \<Rightarrow> 'm heap \<Rightarrow> 'm valve_ptrs list \<times> 'm heap" where
  "copy_items copy_meta [] h = ([], h)"
| "copy_items copy_meta (v # vs) h =
     (let (v', h) = DeepCopyInto_valve copy_meta v h; (vs', h) = copy_items copy_meta vs h in (v' # vs', h))"

definition items_at :: "'m heap \<Rightarrow> nat option \<Rightarrow> 'm valve_ptrs list" where
  "items_at h p =
     (case p of None \<Rightarrow> []
      | Some a \<Rightarrow> (case hp_cells h a of Some (ValveCells vs) \<Rightarrow> vs | _ \<Rightarrow> []))"

definition DeepCopyInto_list :: "('m \<Rightarrow> 'm) \<Rightarrow> ('l \<Rightarrow> 'l) \<Rightarrow> 'l list_ptrs \<Rightarrow> 'm heap \<Rightarrow> 'l list_ptrs \<times> 'm heap" where
  "DeepCopyInto_list copy_meta copy_list_meta l h =
     (let out = l;
          out = out\<lparr> lq_TypeMeta := lq_TypeMeta l \<rparr>;
          out = out\<lparr> lq_ListMeta := copy_list_meta (lq_ListMeta l) \<rparr>
      in case lq_Items l of
           None \<Rightarrow> (out, h)
         | Some a \<Rightarrow>
             (let (vs, h) = copy_items copy_meta (items_at h (Some a)) h;
                  (b, h) = alloc_cell (ValveCells vs) h
              in (out\<lparr> lq_Items := Some b \<rparr>, h)))"

definition DeepCopy_list :: "('m \<Rightarrow> 'm) \<Rightarrow> ('l \<Rightarrow> 'l) \<Rightarrow> 'l list_ptrs option \<Rightarrow> 'm heap
    \<Rightarrow> 'l list_ptrs option \<times> 'm heap" where
  "DeepCopy_list copy_meta copy_list_meta l h =
     (case l of None \<Rightarrow> (None, h)
      | Some l \<Rightarrow> (let (out, h) = DeepCopyInto_list copy_meta copy_list_meta l h in (Some out, h)))"

text \<open>The wrappers the controller library calls; a nil receiver gives a nil object.\<close>

datatype ('m, 'l) runtime_object = ValveObject "'m valve_ptrs" | ListObject "'l list_ptrs"

definition DeepCopyObject_valve :: "('m \<Rightarrow> 'm) \<Rightarrow> 'm valve_ptrs option \<Rightarrow> 'm heap
    \<Rightarrow> ('m, 'l) runtime_object option \<times> 'm heap" where
  "DeepCopyObject_valve copy_meta v h =
     (case DeepCopy_valve copy_meta v h of (Some c, h) \<Rightarrow> (Some (ValveObject c), h) | (None, h) \<Rightarrow> (None, h))"

definition DeepCopyObject_list :: "('m \<Rightarrow> 'm) \<Rightarrow> ('l \<Rightarrow> 'l) \<Rightarrow> 'l list_ptrs option \<Rightarrow> 'm heap
    \<Rightarrow> ('m, 'l) runtime_object option \<times> 'm heap" where
  "DeepCopyObject_list copy_meta copy_list_meta l h =
     (case DeepCopy_list copy_meta copy_list_meta l h of
        (Some c, h) \<Rightarrow> (Some (ListObject c), h) | (None, h) \<Rightarrow> (None, h))"

text \<open>The method call the library makes through the interface.\<close>

fun DeepCopyObject :: "('m \<Rightarrow> 'm) \<Rightarrow> ('l \<Rightarrow> 'l) \<Rightarrow> ('m, 'l) runtime_object \<Rightarrow> 'm heap
    \<Rightarrow> ('m, 'l) runtime_object option \<times> 'm heap" where
  "DeepCopyObject copy_meta copy_list_meta (ValveObject v) h = DeepCopyObject_valve copy_meta (Some v) h"
| "DeepCopyObject copy_meta copy_list_meta (ListObject l) h = DeepCopyObject_list copy_meta copy_list_meta (Some l) h"

subsection \<open>Reading\<close>

text \<open>The addresses a status refers to, and the value it denotes in a heap.\<close>

definition ptrs :: "status_ptrs \<Rightarrow> nat set" where
  "ptrs s = set_option (sq_LastOpenTime s) \<union> set_option (sq_LastCloseTime s) \<union> set_option (sq_Conditions s)"

definition deref_ptr :: "'m heap \<Rightarrow> nat option \<Rightarrow> 'm cell option" where
  "deref_ptr h p = (case p of None \<Rightarrow> None | Some a \<Rightarrow> hp_cells h a)"

definition denotes :: "'m heap \<Rightarrow> status_ptrs
    \<Rightarrow> string \<times> 'm cell option \<times> 'm cell option \<times> string \<times> rat \<times> int \<times> 'm cell option" where
  "denotes h s = (sq_ValveState s, deref_ptr h (sq_LastOpenTime s), deref_ptr h (sq_LastCloseTime s),
     sq_CurrentActionID s, sq_DailyIrrigationVolume s, sq_LastValveOpenDuration s, deref_ptr h (sq_Conditions s))"

definition heap_ok :: "'m heap \<Rightarrow> bool" where
  "heap_ok h \<longleftrightarrow> dom (hp_cells h) \<subseteq> {..<hp_next h}"

definition extends :: "'m heap \<Rightarrow> 'm heap \<Rightarrow> bool" where
  "extends h h' \<longleftrightarrow> heap_ok h' \<and> hp_next h \<le> hp_next h' \<and> hp_cells h \<subseteq>\<^sub>m hp_cells h'"

lemma extends_refl: "heap_ok h \<Longrightarrow> extends h h"
  by (simp add: extends_def map_le_def)

lemma extends_trans: "extends h1 h2 \<Longrightarrow> extends h2 h3 \<Longrightarrow> extends h1 h3"
  by (auto simp: extends_def intro: map_le_trans)

lemma deref_extends: "extends h h' \<Longrightarrow> set_option p \<subseteq> dom (hp_cells h) \<Longrightarrow> deref_ptr h' p = deref_ptr h p"
  by (auto simp: deref_ptr_def extends_def map_le_def split: option.splits)

lemma copy_ptr_spec:
  assumes "heap_ok h" "set_option p \<subseteq> dom (hp_cells h)" "copy_ptr p h = (q, h')"
  shows "extends h h' \<and> deref_ptr h' q = deref_ptr h p \<and> set_option q \<subseteq> {hp_next h..<hp_next h'} \<inter> dom (hp_cells h')"
proof (cases p)
  case None
  with assms show ?thesis by (simp add: copy_ptr_def extends_refl)
next
  case (Some a)
  then obtain c where "hp_cells h a = Some c" using assms(2) by auto
  moreover have "hp_next h \<notin> dom (hp_cells h)" using assms(1) by (auto simp: heap_ok_def)
  moreover have "x < Suc (hp_next h)" if "hp_cells h x = Some y" for x y
    using assms(1) that by (force simp: heap_ok_def)
  ultimately show ?thesis
    using assms(3) Some
    by (auto simp: copy_ptr_def alloc_cell_def extends_def heap_ok_def deref_ptr_def map_le_def split: if_splits)
qed

lemma copy_status_spec:
  assumes "heap_ok h" "ptrs s \<subseteq> dom (hp_cells h)" "DeepCopyInto_status s h = (s', h')"
  shows "extends h h' \<and> denotes h' s' = denotes h s \<and> ptrs s' \<subseteq> {hp_next h..<hp_next h'} \<inter> dom (hp_cells h')"
proof -
  obtain p1 h1 where c1: "copy_ptr (sq_LastOpenTime s) h = (p1, h1)" by (cases "copy_ptr (sq_LastOpenTime s) h")
  obtain p2 h2 where c2: "copy_ptr (sq_LastCloseTime s) h1 = (p2, h2)" by (cases "copy_ptr (sq_LastCloseTime s) h1")
  obtain p3 h3 where c3: "copy_ptr (sq_Conditions s) h2 = (p3, h3)" by (cases "copy_ptr (sq_Conditions s) h2")
  have out: "s' = s\<lparr> sq_LastOpenTime := p1, sq_LastCloseTime := p2, sq_Conditions := p3 \<rparr>" "h' = h3"
    using assms(3) c1 c2 c3 by (simp_all add: DeepCopyInto_status_def Let_def)
  have sub: "set_option (sq_LastOpenTime s) \<subseteq> dom (hp_cells h)" "set_option (sq_LastCloseTime s) \<subseteq> dom (hp_cells h)"
    "set_option (sq_Conditions s) \<subseteq> dom (hp_cells h)"
    using assms(2) by (auto simp: ptrs_def)
  have mono: "extends u v \<Longrightarrow> X \<subseteq> dom (hp_cells u) \<Longrightarrow> X \<subseteq> dom (hp_cells v)" for u v X
    using map_le_implies_dom_le by (fastforce simp: extends_def)
  note s1 = copy_ptr_spec [OF assms(1) sub(1) c1]
  then have e1: "extends h h1" and ok1: "heap_ok h1" by (auto simp: extends_def)
  note s2 = copy_ptr_spec [OF ok1 mono [OF e1 sub(2)] c2]
  then have e2: "extends h h2" and e12: "extends h1 h2" and ok2: "heap_ok h2"
    using e1 extends_trans by (auto simp: extends_def)
  note s3 = copy_ptr_spec [OF ok2 mono [OF e2 sub(3)] c3]
  then have e3: "extends h h3" and e23: "extends h2 h3" using e2 extends_trans by auto
  have d1: "deref_ptr h3 p1 = deref_ptr h (sq_LastOpenTime s)"
    using s1 deref_extends [OF extends_trans [OF e12 e23], of p1] by auto
  have d2: "deref_ptr h3 p2 = deref_ptr h (sq_LastCloseTime s)"
    using s2 deref_extends [OF e23, of p2] deref_extends [OF e1 sub(2)] by auto
  have d3: "deref_ptr h3 p3 = deref_ptr h (sq_Conditions s)"
    using s3 deref_extends [OF e2 sub(3)] by auto
  have sel: "sq_LastOpenTime s' = p1" "sq_LastCloseTime s' = p2" "sq_Conditions s' = p3" "h' = h3"
    by (simp_all add: out)
  have n: "hp_next h \<le> hp_next h1" "hp_next h1 \<le> hp_next h2" "hp_next h2 \<le> hp_next h3"
    using e1 e12 e23 by (simp_all add: extends_def)
  have "{hp_next h..<hp_next h1} \<subseteq> {hp_next h..<hp_next h3}" "{hp_next h1..<hp_next h2} \<subseteq> {hp_next h..<hp_next h3}"
    "{hp_next h2..<hp_next h3} \<subseteq> {hp_next h..<hp_next h3}"
    using n by (simp_all add: subset_eq)
  then have "ptrs s' \<subseteq> {hp_next h..<hp_next h3}"
    using s1 s2 s3 unfolding ptrs_def sel by blast
  moreover have "ptrs s' \<subseteq> dom (hp_cells h3)"
    using s1 s2 s3 mono [OF extends_trans [OF e12 e23], of "set_option p1"] mono [OF e23, of "set_option p2"]
    by (auto simp: ptrs_def out)
  ultimately show ?thesis using e3 d1 d2 d3 by (simp add: denotes_def out)
qed

definition write_cell :: "nat \<Rightarrow> 'm cell \<Rightarrow> 'm heap \<Rightarrow> 'm heap" where
  "write_cell a c h = h\<lparr> hp_cells := (hp_cells h)(a \<mapsto> c) \<rparr>"

lemma denotes_write: "a \<notin> ptrs s \<Longrightarrow> denotes (write_cell a c h) s = denotes h s"
  by (auto simp: denotes_def write_cell_def deref_ptr_def ptrs_def split: option.splits)

lemma extends_dom: "extends u v \<Longrightarrow> X \<subseteq> dom (hp_cells u) \<Longrightarrow> X \<subseteq> dom (hp_cells v)"
  using map_le_implies_dom_le by (fastforce simp: extends_def)

lemma denotes_extends: "extends h h' \<Longrightarrow> ptrs s \<subseteq> dom (hp_cells h) \<Longrightarrow> denotes h' s = denotes h s"
  using deref_extends [of h h'] by (auto simp: denotes_def ptrs_def)

subsection \<open>Objects\<close>

definition valve_value :: "'m heap \<Rightarrow> 'm valve_ptrs \<Rightarrow> (string \<times> string) \<times> 'm \<times> MQTTValveSpec \<times>
    (string \<times> 'm cell option \<times> 'm cell option \<times> string \<times> rat \<times> int \<times> 'm cell option)" where
  "valve_value h v = (vq_TypeMeta v, vq_ObjectMeta v, vq_Spec v, denotes h (vq_Status v))"

definition items_ptrs :: "'m valve_ptrs list \<Rightarrow> nat set" where
  "items_ptrs vs = (\<Union>v \<in> set vs. ptrs (vq_Status v))"

definition list_value where
  "list_value h l = (lq_TypeMeta l, lq_ListMeta l,
     map_option (\<lambda>a. map (valve_value h) (items_at h (Some a))) (lq_Items l))"

text \<open>The memory an object owns, and what a reader sees of it.\<close>

fun object_ptrs :: "'m heap \<Rightarrow> ('m, 'l) runtime_object \<Rightarrow> nat set" where
  "object_ptrs h (ValveObject v) = ptrs (vq_Status v)"
| "object_ptrs h (ListObject l) = set_option (lq_Items l) \<union> items_ptrs (items_at h (lq_Items l))"

definition same_value :: "'m heap \<Rightarrow> ('m, 'l) runtime_object \<Rightarrow> 'm heap \<Rightarrow> ('m, 'l) runtime_object \<Rightarrow> bool" where
  "same_value h x h' y \<longleftrightarrow>
     (case (x, y) of
        (ValveObject v, ValveObject v') \<Rightarrow> valve_value h v = valve_value h' v'
      | (ListObject l, ListObject l') \<Rightarrow> list_value h l = list_value h' l'
      | _ \<Rightarrow> False)"

fun object_ok :: "'m heap \<Rightarrow> ('m, 'l) runtime_object \<Rightarrow> bool" where
  "object_ok h (ValveObject v) \<longleftrightarrow> ptrs (vq_Status v) \<subseteq> dom (hp_cells h)"
| "object_ok h (ListObject l) \<longleftrightarrow> (case lq_Items l of None \<Rightarrow> True
     | Some a \<Rightarrow> (\<exists>vs. hp_cells h a = Some (ValveCells vs) \<and> items_ptrs vs \<subseteq> dom (hp_cells h)))"

lemma copy_valve_spec:
  assumes "heap_ok h" "ptrs (vq_Status v) \<subseteq> dom (hp_cells h)" "DeepCopyInto_valve cm v h = (v', h')" "\<And>m. cm m = m"
  shows "extends h h' \<and> valve_value h' v' = valve_value h v \<and>
    ptrs (vq_Status v') \<subseteq> {hp_next h..<hp_next h'} \<inter> dom (hp_cells h')"
proof -
  obtain s where s: "DeepCopyInto_status (vq_Status v) h = (s, h')" and v': "v' = v\<lparr> vq_Status := s \<rparr>"
    using assms(3,4) by (cases "DeepCopyInto_status (vq_Status v) h") (auto simp: DeepCopyInto_valve_def Let_def)
  from copy_status_spec [OF assms(1,2) s] show ?thesis by (simp add: v' valve_value_def)
qed

lemma map_valve_extends:
  "extends h h' \<Longrightarrow> items_ptrs vs \<subseteq> dom (hp_cells h) \<Longrightarrow> map (valve_value h') vs = map (valve_value h) vs"
  by (auto simp: valve_value_def items_ptrs_def intro!: denotes_extends)

lemma copy_items_spec:
  assumes "heap_ok h" "items_ptrs vs \<subseteq> dom (hp_cells h)" "copy_items cm vs h = (vs', h')" "\<And>m. cm m = m"
  shows "extends h h' \<and> map (valve_value h') vs' = map (valve_value h) vs \<and>
    items_ptrs vs' \<subseteq> {hp_next h..<hp_next h'} \<inter> dom (hp_cells h')"
  using assms(1-3)
proof (induction vs arbitrary: h vs')
  case Nil
  then show ?case by (simp add: extends_refl items_ptrs_def)
next
  case (Cons v vs)
  obtain w h1 where v: "DeepCopyInto_valve cm v h = (w, h1)" by (cases "DeepCopyInto_valve cm v h")
  obtain ws where ws: "copy_items cm vs h1 = (ws, h')" "vs' = w # ws"
    using Cons.prems(3) v by (cases "copy_items cm vs h1") (simp add: Let_def)
  have sub: "ptrs (vq_Status v) \<subseteq> dom (hp_cells h)" "items_ptrs vs \<subseteq> dom (hp_cells h)"
    using Cons.prems(2) by (auto simp: items_ptrs_def)
  note s1 = copy_valve_spec [OF Cons.prems(1) sub(1) v assms(4)]
  then have e: "extends h h1" "heap_ok h1" by (auto simp: extends_def)
  from Cons.IH [OF e(2) extends_dom [OF e(1) sub(2)] ws(1)]
  have s2: "extends h1 h'" "map (valve_value h') ws = map (valve_value h1) vs"
    "items_ptrs ws \<subseteq> {hp_next h1..<hp_next h'} \<inter> dom (hp_cells h')" by auto
  have "valve_value h' w = valve_value h v"
    using s1 denotes_extends [OF s2(1), of "vq_Status w"] by (auto simp: valve_value_def)
  moreover have "map (valve_value h1) vs = map (valve_value h) vs" by (rule map_valve_extends [OF e(1) sub(2)])
  moreover have "items_ptrs vs' \<subseteq> {hp_next h..<hp_next h'} \<inter> dom (hp_cells h')"
  proof -
    have "hp_next h \<le> hp_next h1" "hp_next h1 \<le> hp_next h'" using e s2(1) by (simp_all add: extends_def)
    moreover have "ptrs (vq_Status w) \<subseteq> dom (hp_cells h')" using s1 extends_dom [OF s2(1)] by auto
    moreover have "items_ptrs vs' = ptrs (vq_Status w) \<union> items_ptrs ws" by (simp add: ws(2) items_ptrs_def)
    moreover have "ptrs (vq_Status w) \<subseteq> {hp_next h..<hp_next h1}" "items_ptrs ws \<subseteq> {hp_next h1..<hp_next h'}"
      "items_ptrs ws \<subseteq> dom (hp_cells h')" using s1 s2(3) by blast+
    moreover have "{hp_next h..<hp_next h1} \<subseteq> {hp_next h..<hp_next h'}" "{hp_next h1..<hp_next h'} \<subseteq> {hp_next h..<hp_next h'}"
      using calculation(1,2) by (simp_all add: subset_eq)
    ultimately show ?thesis by blast
  qed
  ultimately show ?case using s2(2) extends_trans [OF e(1) s2(1)] by (simp add: ws(2))
qed

lemma items_at_extends: "extends h h' \<Longrightarrow> set_option p \<subseteq> dom (hp_cells h) \<Longrightarrow> items_at h' p = items_at h p"
  by (auto simp: items_at_def extends_def map_le_def split: option.splits)

lemma object_old:
  assumes "object_ok h x" "extends h h'" "heap_ok h"
  shows "object_ptrs h' x = object_ptrs h x \<and> object_ptrs h x \<subseteq> {..<hp_next h} \<and> same_value h' x h x"
proof (cases x)
  case (ValveObject v)
  with assms denotes_extends [OF assms(2), of "vq_Status v"] show ?thesis
    by (auto simp: heap_ok_def same_value_def valve_value_def)
next
  case (ListObject l)
  show ?thesis
  proof (cases "lq_Items l")
    case None
    then show ?thesis by (simp add: ListObject same_value_def list_value_def items_at_def items_ptrs_def)
  next
    case (Some a)
    with ListObject assms(1) obtain vs where vs: "hp_cells h a = Some (ValveCells vs)" "items_ptrs vs \<subseteq> dom (hp_cells h)" by auto
    then have it: "items_at h (Some a) = vs" "items_at h' (Some a) = vs"
      using items_at_extends [OF assms(2), of "Some a"] by (auto simp: items_at_def)
    have "a < hp_next h" using vs(1) assms(3) by (auto simp: heap_ok_def)
    then show ?thesis
      using it vs assms(3) map_valve_extends [OF assms(2) vs(2)]
      by (auto simp: ListObject Some same_value_def list_value_def heap_ok_def)
  qed
qed

lemma copy_object_spec:
  assumes "heap_ok h" "object_ok h x" "DeepCopyObject cm cl x h = (r, h')" "\<And>m. cm m = m" "\<And>m. cl m = m"
  obtains y where "r = Some y" "extends h h'" "same_value h' y h x" "object_ptrs h' y \<subseteq> {hp_next h..<hp_next h'}"
proof (cases x)
  case (ValveObject v)
  obtain v' where "DeepCopyInto_valve cm v h = (v', h')" "r = Some (ValveObject v')"
    using assms(3) by (cases "DeepCopyInto_valve cm v h") (simp add: ValveObject DeepCopyObject_valve_def DeepCopy_valve_def)
  with copy_valve_spec [OF assms(1) _ this(1) assms(4)] assms(2) ValveObject that show thesis
    by (simp add: same_value_def)
next
  case (ListObject l)
  show thesis
  proof (cases "lq_Items l")
    case None
    with assms(1,3,5) ListObject that [of x] extends_refl [of h] show thesis
      by (simp add: DeepCopyObject_list_def DeepCopy_list_def DeepCopyInto_list_def Let_def same_value_def items_at_def items_ptrs_def)
  next
    case (Some a)
    with ListObject assms(2) obtain vs where vs: "hp_cells h a = Some (ValveCells vs)" "items_ptrs vs \<subseteq> dom (hp_cells h)" by auto
    obtain ws h1 where c: "copy_items cm vs h = (ws, h1)" by (cases "copy_items cm vs h")
    let ?b = "hp_next h1" and ?h2 = "snd (alloc_cell (ValveCells ws) h1)"
    have r: "r = Some (ListObject (l\<lparr> lq_Items := Some ?b \<rparr>))" "h' = ?h2"
      using assms(3,5) Some vs c
      by (simp_all add: ListObject DeepCopyObject_list_def DeepCopy_list_def DeepCopyInto_list_def items_at_def alloc_cell_def Let_def)
    note s1 = copy_items_spec [OF assms(1) vs(2) c assms(4)]
    then have ok: "heap_ok h1" "hp_next h \<le> hp_next h1" by (simp_all add: extends_def)
    have e2: "extends h1 h'"
      using ok(1) by (force simp: r(2) alloc_cell_def extends_def heap_ok_def map_le_def less_Suc_eq)
    have at: "items_at h' (Some ?b) = ws" "hp_next h' = Suc ?b" by (simp_all add: r(2) items_at_def alloc_cell_def)
    have "map (valve_value h') ws = map (valve_value h) vs"
      using map_valve_extends [OF e2, of ws] s1 by simp
    then have "same_value h' (ListObject (l\<lparr> lq_Items := Some ?b \<rparr>)) h x"
      using at(1) vs(1) Some by (simp add: ListObject same_value_def list_value_def items_at_def)
    moreover have "object_ptrs h' (ListObject (l\<lparr> lq_Items := Some ?b \<rparr>)) \<subseteq> {hp_next h..<hp_next h'}"
      using s1 ok(2) at by force
    moreover have "extends h h'" using s1 e2 extends_trans by blast
    ultimately show thesis using that r(1) by blast
  qed
qed

lemma value_write:
  assumes "a \<notin> object_ptrs h x"
  shows "same_value (write_cell a c h) x h x"
proof (cases x)
  case (ValveObject v)
  with assms show ?thesis by (simp add: same_value_def valve_value_def denotes_write)
next
  case (ListObject l)
  then have "items_at (write_cell a c h) (lq_Items l) = items_at h (lq_Items l)"
    using assms by (auto simp: items_at_def write_cell_def split: option.splits)
  moreover have "map (valve_value (write_cell a c h)) (items_at h (lq_Items l)) = map (valve_value h) (items_at h (lq_Items l))"
    using assms ListObject by (auto simp: valve_value_def items_ptrs_def intro!: denotes_write)
  ultimately show ?thesis by (cases "lq_Items l") (simp_all add: ListObject same_value_def list_value_def)
qed

lemma same_value_trans: "same_value h x h' y \<Longrightarrow> same_value h' y h'' z \<Longrightarrow> same_value h x h'' z"
  by (auto simp: same_value_def split: runtime_object.splits prod.splits)

text \<open>
  C38: The copy of a valve, or of a list of valves, has the same contents and shares no memory
  with the original: whatever is then written through the copy (a time, an array of
  conditions, the array of items), the original, which may belong to a cache shared by all
  controllers, still reads as before, and the other way round.
\<close>

theorem deep_copy_is_independent:
  assumes "heap_ok h" "object_ok h x" "DeepCopyObject cm cl x h = (r, h')" "\<And>m. cm m = m" "\<And>m. cl m = m"
  shows "\<exists>y. r = Some y \<and> same_value h' y h x \<and> same_value h' x h x \<and>
    (\<forall>a \<in> object_ptrs h' y. \<forall>c. same_value (write_cell a c h') x h x) \<and>
    (\<forall>a \<in> object_ptrs h x. \<forall>c. same_value (write_cell a c h') y h x)"
proof -
  from copy_object_spec [OF assms] obtain y where y: "r = Some y" "extends h h'" "same_value h' y h x"
    "object_ptrs h' y \<subseteq> {hp_next h..<hp_next h'}" .
  note old = object_old [OF assms(2) y(2) assms(1)]
  have disj: "object_ptrs h' x \<inter> object_ptrs h' y = {}" using old y(4) by fastforce
  have "same_value (write_cell a c h') x h x" if "a \<in> object_ptrs h' y" for a c
    using value_write [of a h' x c] that disj old same_value_trans by blast
  moreover have "same_value (write_cell a c h') y h x" if "a \<in> object_ptrs h x" for a c
    using value_write [of a h' y c] that disj old y(3) same_value_trans by blast
  ultimately show ?thesis using y old by blast
qed

text \<open>A cached list of one valve, with the memory it refers to.\<close>

definition demo_valve :: "unit valve_ptrs" where
  "demo_valve = \<lparr> vq_TypeMeta = (''v1alpha1'', ''MQTTValve''), vq_ObjectMeta = (),
     vq_Spec = \<lparr> sp_Disabled = False, sp_RetryCount = 3, sp_CommandTimeoutSeconds = 30,
                sp_KeepClosedIntervalSeconds = 300, sp_MaxOpenDurationSeconds = 0, sp_CloseRepeatCount = 3 \<rparr>,
     vq_Status = \<lparr> sq_ValveState = ''open'', sq_LastOpenTime = Some 1, sq_LastCloseTime = None, sq_CurrentActionID = '''',
                   sq_DailyIrrigationVolume = 0, sq_LastValveOpenDuration = 0, sq_Conditions = Some 2 \<rparr> \<rparr>"

definition demo_list :: "(unit, unit) runtime_object" where
  "demo_list = ListObject \<lparr> lq_TypeMeta = (''v1alpha1'', ''MQTTValveList''), lq_ListMeta = (), lq_Items = Some 0 \<rparr>"

definition demo_heap :: "unit heap" where
  "demo_heap = \<lparr> hp_cells = [0 \<mapsto> ValveCells [demo_valve], 1 \<mapsto> TimeCell 7, 2 \<mapsto> CondCells []], hp_next = 3 \<rparr>"

theorem deep_copy_is_independent_witness:
  "\<exists>y h'. DeepCopyObject (\<lambda>m :: unit. m) (\<lambda>m :: unit. m) demo_list demo_heap = (Some y, h') \<and>
     same_value h' y demo_heap demo_list \<and> same_value (write_cell 1 (TimeCell 9) h') y demo_heap demo_list"
proof -
  have ok: "heap_ok demo_heap" "object_ok demo_heap demo_list" "1 \<in> object_ptrs demo_heap demo_list"
    by (auto simp: heap_ok_def demo_heap_def demo_list_def items_ptrs_def items_at_def ptrs_def demo_valve_def)
  obtain r h' where run: "DeepCopyObject (\<lambda>m :: unit. m) (\<lambda>m :: unit. m) demo_list demo_heap = (r, h')"
    by (cases "DeepCopyObject (\<lambda>m :: unit. m) (\<lambda>m :: unit. m) demo_list demo_heap")
  from deep_copy_is_independent [OF ok(1,2) run] ok(3) run show ?thesis by blast
qed

end
