(* ===== verification/Db.thy ===== *)
theory Db
  imports Prelude
begin

text \<open>
  \<^verbatim>\<open>internal/db/db.go\<close>: the optional store of sensor readings. The connection pool
  and the database behind it are the library's: a pool is a record of what its calls answer,
  over a database of any type \<open>'d\<close>. A nil \<open>*Store\<close> is \<open>None\<close>.
\<close>

record Reading =
  rd_Time :: time
  rd_DeviceName :: string
  rd_Metric :: string
  rd_Value :: rat
  rd_Unit :: string
  rd_Quality :: int

record ReadingRow =
  rw_Time :: time
  rw_Metric :: string
  rw_Value :: rat
  rw_Unit :: string

datatype db_error = DbError string

text \<open>
  A query answers with an error or with its rows, each of which scans to a value or to an
  error, and with the error the iteration ended with, if any.
\<close>

record 'd pool =
  pool_Ping :: "'d \<Rightarrow> db_error option"
  pool_insert :: "Reading \<Rightarrow> 'd \<Rightarrow> db_error option \<times> 'd"
  pool_query :: "string \<Rightarrow> time \<Rightarrow> time \<Rightarrow> int \<Rightarrow> int \<Rightarrow> 'd
     \<Rightarrow> db_error + (db_error + ReadingRow) list \<times> db_error option"
  pool_Close :: "'d \<Rightarrow> 'd"

text \<open>\<open>open_pool\<close> is \<open>pgxpool.New\<close>.\<close>

definition New_store :: "(string \<Rightarrow> db_error + 'd pool) \<Rightarrow> string \<Rightarrow> 'd \<Rightarrow> db_error + 'd pool option" where
  "New_store open_pool dsn d =
     (if dsn = '''' then Inr None
      else case open_pool dsn of
        Inl e \<Rightarrow> Inl e
      | Inr p \<Rightarrow> (case pool_Ping p d of Some e \<Rightarrow> Inl e | None \<Rightarrow> Inr (Some p)))"

definition Close_store :: "'d pool option \<Rightarrow> 'd \<Rightarrow> 'd" where
  "Close_store s d = (case s of None \<Rightarrow> d | Some p \<Rightarrow> pool_Close p d)"

definition InsertReading :: "'d pool option \<Rightarrow> Reading \<Rightarrow> 'd \<Rightarrow> db_error option \<times> 'd" where
  "InsertReading s r d = (case s of None \<Rightarrow> (None, d) | Some p \<Rightarrow> pool_insert p r d)"

text \<open>The loop over the rows: the first row that does not scan ends it with its error.\<close>

fun scan_rows :: "ReadingRow list \<Rightarrow> (db_error + ReadingRow) list \<Rightarrow> db_error option
    \<Rightarrow> db_error option \<times> ReadingRow list" where
  "scan_rows out [] e = (e, out)"
| "scan_rows out (Inl e # rows) e' = (Some e, [])"
| "scan_rows out (Inr r # rows) e' = scan_rows (out @ [r]) rows e'"

definition QueryReadings :: "'d pool option \<Rightarrow> string \<Rightarrow> time \<Rightarrow> time \<Rightarrow> int \<Rightarrow> int \<Rightarrow> 'd
    \<Rightarrow> db_error option \<times> ReadingRow list" where
  "QueryReadings s deviceName t0 t1 limit off d =
     (case s of
        None \<Rightarrow> (None, [])
      | Some p \<Rightarrow>
          (case pool_query p deviceName t0 t1 limit off d of
             Inl e \<Rightarrow> (Some e, [])
           | Inr (rows, e) \<Rightarrow> scan_rows [] rows e))"

definition Ping_store :: "'d pool option \<Rightarrow> 'd \<Rightarrow> db_error option" where
  "Ping_store s d = (case s of None \<Rightarrow> None | Some p \<Rightarrow> pool_Ping p d)"

text \<open>A query without error returns exactly the rows, in the database's order.\<close>

lemma scan_rows_ok: "scan_rows out rows e = (None, res) \<longleftrightarrow> e = None \<and> (\<exists>xs. rows = map Inr xs \<and> res = out @ xs)"
proof (induction out rows e rule: scan_rows.induct)
  case (1 out e)
  then show ?case by auto
next
  case (2 out e rows e')
  have "Inl e # rows \<noteq> map Inr xs" for xs by (cases xs) auto
  then show ?case by auto
next
  case (3 out r rows e')
  have "Inr r # rows = map Inr xs \<longleftrightarrow> (\<exists>ys. xs = r # ys \<and> rows = map Inr ys)" for xs by (cases xs) auto
  with 3 show ?case by auto
qed

lemma QueryReadings_ok:
  "QueryReadings (Some p) dev t0 t1 l off d = (None, res) \<longleftrightarrow> pool_query p dev t0 t1 l off d = Inr (map Inr res, None)"
  by (auto simp: QueryReadings_def scan_rows_ok split: sum.splits prod.splits)

lemma nil_store_is_inert:
  "InsertReading None r d = (None, d)" "QueryReadings None dev t0 t1 l off d = (None, [])"
  "Ping_store None d = None" "Close_store None d = d" "New_store op '''' d = Inr None"
  by (simp_all add: InsertReading_def QueryReadings_def Ping_store_def Close_store_def New_store_def)

lemma New_store_is_alive: "New_store op dsn d = Inr (Some p) \<Longrightarrow> op dsn = Inr p \<and> Ping_store (Some p) d = None"
  by (auto simp: New_store_def Ping_store_def split: if_splits sum.splits option.splits)

end
