(* ===== verification/Flags.thy ===== *)
theory Flags
  imports Prelude
begin

text \<open>
  The command line of \<^verbatim>\<open>cmd/controller/main.go\<close>: the seven options it declares and
  what Go's package \<^verbatim>\<open>flag\<close> makes of the arguments. Other imported packages may declare
  options of their own in the same set; they are a parameter.
\<close>

subsection \<open>The options\<close>

record options =
  apiAddr :: string
  metricsAddr :: string
  probeAddr :: string
  tlsCert :: string
  tlsKey :: string
  tlsClientCA :: string
  logLevel :: string

definition default_options :: options where
  "default_options =
     \<lparr> apiAddr = '':8443'', metricsAddr = '':8080'', probeAddr = '':8081'', tlsCert = ''/tls/tls.crt'',
       tlsKey = ''/tls/tls.key'', tlsClientCA = ''/tls/ca.crt'', logLevel = ''info'' \<rparr>"

text \<open>The declared names and the variable each one sets.\<close>

definition declared :: "(string \<times> (string \<Rightarrow> options \<Rightarrow> options)) list" where
  "declared =
     [(''api-addr'', \<lambda>v o'. o'\<lparr> apiAddr := v \<rparr>),
      (''metrics-addr'', \<lambda>v o'. o'\<lparr> metricsAddr := v \<rparr>),
      (''probe-addr'', \<lambda>v o'. o'\<lparr> probeAddr := v \<rparr>),
      (''tls-cert'', \<lambda>v o'. o'\<lparr> tlsCert := v \<rparr>),
      (''tls-key'', \<lambda>v o'. o'\<lparr> tlsKey := v \<rparr>),
      (''tls-client-ca'', \<lambda>v o'. o'\<lparr> tlsClientCA := v \<rparr>),
      (''log-level'', \<lambda>v o'. o'\<lparr> logLevel := v \<rparr>)]"

subsection \<open>Parsing\<close>

datatype flag_error = BadFlagSyntax string | FlagUndefined string | FlagNeedsArgument string | ErrHelp

text \<open>How one argument reads: not an option, the terminator, malformed, or a name with or without a value.\<close>

datatype argument = Positional | Terminator | Malformed | Named string "string option"

fun cut_value :: "string \<Rightarrow> string \<times> string option" where
  "cut_value [] = ([], None)"
| "cut_value (ch # s) =
     (if ch = CHR ''='' then ([], Some s) else (let (name, v) = cut_value s in (ch # name, v)))"

definition read_argument :: "string \<Rightarrow> argument" where
  "read_argument s =
     (if length s < 2 \<or> hd s \<noteq> CHR ''-'' then Positional
      else if s = ''--'' then Terminator
      else
        let name = (if s ! 1 = CHR ''-'' then drop 2 s else drop 1 s)
        in if name = [] \<or> hd name = CHR ''-'' \<or> hd name = CHR ''='' then Malformed
           else (case cut_value name of (n, v) \<Rightarrow> Named n v))"

text \<open>
  Setting an option. \<open>others\<close> tells which further names, of options with a value, are
  declared in the set.
\<close>

definition set_flag :: "string \<Rightarrow> string \<Rightarrow> options \<Rightarrow> options" where
  "set_flag name v o' = (case map_of declared name of Some f \<Rightarrow> f v o' | None \<Rightarrow> o')"

definition is_declared :: "(string \<Rightarrow> bool) \<Rightarrow> string \<Rightarrow> bool" where
  "is_declared others name \<longleftrightarrow> map_of declared name \<noteq> None \<or> others name"

fun Parse :: "(string \<Rightarrow> bool) \<Rightarrow> string list \<Rightarrow> options \<Rightarrow> flag_error + options \<times> string list" where
  "Parse others [] o' = Inr (o', [])"
| "Parse others (s # args) o' =
     (case read_argument s of
        Positional \<Rightarrow> Inr (o', s # args)
      | Terminator \<Rightarrow> Inr (o', args)
      | Malformed \<Rightarrow> Inl (BadFlagSyntax s)
      | Named name v \<Rightarrow>
          if \<not> is_declared others name
          then Inl (if name = ''help'' \<or> name = ''h'' then ErrHelp else FlagUndefined name)
          else (case v of
                  Some x \<Rightarrow> Parse others args (set_flag name x o')
                | None \<Rightarrow>
                    (case args of
                       [] \<Rightarrow> Inl (FlagNeedsArgument name)
                     | x # args \<Rightarrow> Parse others args (set_flag name x o'))))"

text \<open>The exit code of \<open>flag.Parse\<close> when the arguments cannot be used.\<close>

definition flag_exit :: "flag_error \<Rightarrow> int" where
  "flag_exit e = (if e = ErrHelp then 0 else 2)"

subsection \<open>Reading back what was written\<close>

text \<open>The three ways to write an option with a value.\<close>

datatype spelling = OneDash | TwoDashes | Separate

fun spell :: "spelling \<Rightarrow> string \<Rightarrow> string \<Rightarrow> string list" where
  "spell OneDash n v = [''-'' @ n @ ''='' @ v]"
| "spell TwoDashes n v = [''--'' @ n @ ''='' @ v]"
| "spell Separate n v = [''-'' @ n, v]"

lemma cut_value_simps:
  "CHR ''='' \<notin> set n \<Longrightarrow> cut_value n = (n, None)"
  "CHR ''='' \<notin> set n \<Longrightarrow> cut_value (n @ CHR ''='' # v) = (n, Some v)"
  by (induction n) auto

text \<open>Names as package \<^verbatim>\<open>flag\<close> accepts them in a declaration.\<close>

definition flag_name :: "string \<Rightarrow> bool" where
  "flag_name n \<longleftrightarrow> n \<noteq> [] \<and> hd n \<noteq> CHR ''-'' \<and> CHR ''='' \<notin> set n"

lemma read_spelled:
  assumes "flag_name n"
  shows "read_argument (''-'' @ n) = Named n None"
    "read_argument (''-'' @ n @ ''='' @ v) = Named n (Some v)"
    "read_argument (''--'' @ n @ ''='' @ v) = Named n (Some v)"
proof -
  obtain ch n' where n: "n = ch # n'" "ch \<noteq> CHR ''-''" "ch \<noteq> CHR ''=''" "CHR ''='' \<notin> set n'"
    using assms by (cases n) (auto simp: flag_name_def)
  then show "read_argument (''-'' @ n) = Named n None" "read_argument (''-'' @ n @ ''='' @ v) = Named n (Some v)"
    "read_argument (''--'' @ n @ ''='' @ v) = Named n (Some v)"
    by (simp_all add: read_argument_def cut_value_simps)
qed

lemma declared_names:
  "map_of declared n = Some f \<Longrightarrow> flag_name n"
  by (auto simp: declared_def flag_name_def split: if_splits)

text \<open>
  Options may be given in any order and spelling, and repeatedly: each one sets its variable,
  the last one wins. What follows the options is left alone.
\<close>

lemma Parse_spelled:
  assumes "\<forall>(st, n, v) \<in> set xs. map_of declared n \<noteq> None"
    and "rest = [] \<or> read_argument (hd rest) = Positional"
  shows "Parse others (concat (map (\<lambda>(st, n, v). spell st n v) xs) @ rest) o' =
    Inr (fold (\<lambda>(st, n, v). set_flag n v) xs o', rest)"
  using assms(1)
proof (induction xs arbitrary: o')
  case Nil
  from assms(2) show ?case by (cases rest) auto
next
  case (Cons x xs)
  obtain st n v where x: "x = (st, n, v)" by (cases x)
  with Cons.prems have n: "is_declared others n" "flag_name n"
    by (auto simp: is_declared_def intro: declared_names)
  from read_spelled [OF n(2)] Cons show ?case
    by (cases st) (simp_all add: x n(1))
qed

text \<open>The value of each option, and a command line that sets all of them.\<close>

definition value_of :: "options \<Rightarrow> (string \<times> string) list" where
  "value_of p =
     [(''api-addr'', apiAddr p), (''metrics-addr'', metricsAddr p), (''probe-addr'', probeAddr p),
      (''tls-cert'', tlsCert p), (''tls-key'', tlsKey p), (''tls-client-ca'', tlsClientCA p),
      (''log-level'', logLevel p)]"

definition arguments :: "(string \<Rightarrow> spelling) \<Rightarrow> options \<Rightarrow> string list" where
  "arguments style p = concat (map (\<lambda>(n, v). spell (style n) n v) (value_of p))"

text \<open>
  C37: Writing all options on a command line, each in any of the three spellings Go accepts, and
  parsing it gives the options back, whatever their values (empty ones, ones that begin with a
  dash or contain an equals sign) and whatever other packages declare.
\<close>

theorem options_roundtrip:
  "Parse others (arguments style p) default_options = Inr (p, [])"
proof -
  let ?xs = "map (\<lambda>(n, v). (style n, n, v)) (value_of p)"
  have "arguments style p = concat (map (\<lambda>(st, n, v). spell st n v) ?xs) @ []"
    by (simp add: arguments_def value_of_def)
  moreover have "\<forall>(st, n, v) \<in> set ?xs. map_of declared n \<noteq> None"
    by (simp add: value_of_def declared_def)
  moreover have "fold (\<lambda>(st, n, v). set_flag n v) ?xs default_options = p"
    by (simp add: value_of_def set_flag_def declared_def default_options_def)
  ultimately show ?thesis using Parse_spelled [of ?xs "[]" others default_options] by argo
qed

end
