(* ===== verification/Server.thy ===== *)
theory Server
  imports Api Flags
begin

text \<open>
  \<^verbatim>\<open>internal/api/middleware.go\<close> (\<open>TLSConfig\<close>) and \<^verbatim>\<open>cmd/controller/main.go\<close>:
  how the process is set up and taken down. What the libraries answer (files, the Kubernetes
  manager, the HTTP server) are arguments; the result is the exit code and what was started
  and stopped, in order.
\<close>

subsection \<open>Server certificates\<close>

datatype client_auth = NoClientCert | RequireAndVerifyClientCert
datatype tls_version = TLS12 | TLS13

record ('cert, 'pool) tls_config =
  tls_Certificates :: "'cert list"
  tls_ClientAuth :: client_auth
  tls_ClientCAs :: 'pool
  tls_MinVersion :: tls_version

datatype tls_error = LoadKeyPair | ReadClientCA | ParseClientCA string

definition TLSConfig :: "(string \<Rightarrow> string \<Rightarrow> 'cert option) \<Rightarrow> (string \<Rightarrow> string option) \<Rightarrow> (string \<Rightarrow> 'pool option)
    \<Rightarrow> string \<Rightarrow> string \<Rightarrow> string \<Rightarrow> tls_error + ('cert, 'pool) tls_config" where
  "TLSConfig load_pair read_file pem_pool certFile keyFile clientCAFile =
     (case load_pair certFile keyFile of
        None \<Rightarrow> Inl LoadKeyPair
      | Some cert \<Rightarrow>
          (case read_file clientCAFile of
             None \<Rightarrow> Inl ReadClientCA
           | Some pem \<Rightarrow>
               (case pem_pool pem of
                  None \<Rightarrow> Inl (ParseClientCA clientCAFile)
                | Some ca \<Rightarrow>
                    Inr \<lparr> tls_Certificates = [cert], tls_ClientAuth = RequireAndVerifyClientCert,
                          tls_ClientCAs = ca, tls_MinVersion = TLS13 \<rparr>)))"

lemma TLSConfig_requires_client_certs:
  "TLSConfig lp rf pp c k ca = Inr cfg \<Longrightarrow>
     tls_ClientAuth cfg = RequireAndVerifyClientCert \<and> tls_MinVersion cfg = TLS13 \<and>
     (\<exists>pem. rf ca = Some pem \<and> pp pem = Some (tls_ClientCAs cfg))"
  by (auto simp: TLSConfig_def split: option.splits)

subsection \<open>The process\<close>

datatype log_level = LevelDebug | LevelInfo | LevelWarn | LevelError

definition parse_log_level :: "string \<Rightarrow> log_level" where
  "parse_log_level s =
     (if s = ''debug'' then LevelDebug else if s = ''warn'' then LevelWarn
      else if s = ''error'' then LevelError else LevelInfo)"

definition main_hostname :: "string \<Rightarrow> string" where
  "main_hostname h = (if h = '''' then ''unknown'' else h)"

text \<open>
  What the process finds: the host's name, the options other packages declare, the answers of
  the calls that can fail (\<open>True\<close> for success), the library functions behind \<open>TLSConfig\<close>, and
  what becomes of the program's state while \<open>mgr.Start\<close> runs (the reconcilers, the pipelines
  and the REST handlers work on it until a signal arrives or the manager fails).
\<close>

record ('cert, 'pool) main_env =
  me_others :: "string \<Rightarrow> bool"
  me_hostname :: string
  me_GetConfig :: bool
  me_NewManager :: bool
  me_SetupValve :: bool
  me_SetupBridge :: bool
  me_AddHealthz :: bool
  me_AddReadyz :: bool
  me_LoadX509KeyPair :: "string \<Rightarrow> string \<Rightarrow> 'cert option"
  me_ReadFile :: "string \<Rightarrow> string option"
  me_CertPool :: "string \<Rightarrow> 'pool option"
  me_Start :: "Scheduler \<Rightarrow> bool \<times> Scheduler"
  me_bridge_names :: "string list"     \<comment> \<open>the order in which \<open>StopAll\<close> ranges over the bridges\<close>

datatype ('cert, 'pool) main_event =
    SetLogger log_level
  | NewControllerManager string string          \<comment> \<open>addresses of the metrics and of the probes\<close>
  | RegisterValveController
  | RegisterBridgeController
  | AddHealthzCheck
  | AddReadyzCheck
  | ServeAPI string "('cert, 'pool) tls_config"  \<comment> \<open>the goroutine of the REST server is started\<close>
  | RunManager                                  \<comment> \<open>reconcilers and pipelines run until this call returns\<close>
  | ShutdownAPI
  | StopAllBridges

text \<open>
  The scheduler as \<open>main\<close> builds it: empty, over a fresh manager and fresh collectors; the rest
  of the world (clock, random bytes, the MQTT library's answers) is what the process meets.
\<close>

definition initial_scheduler :: "string \<Rightarrow> world \<Rightarrow> Scheduler" where
  "initial_scheduler hostname w =
     NewScheduler (w\<lparr> w_metrics := new_metrics, w_mgr := NewManager (main_hostname hostname) \<rparr>)"

definition stop_bridges :: "string list \<Rightarrow> Scheduler \<Rightarrow> Scheduler" where
  "stop_bridges names s =
     (let w = s_world s; (mgr, m) = StopAll names (w_mgr w) (w_metrics w)
      in s\<lparr> s_world := w\<lparr> w_mgr := mgr, w_metrics := m \<rparr> \<rparr>)"

text \<open>The exit code, what was done in order, and the program's state at the end (if it got that far).\<close>

definition main :: "('cert, 'pool) main_env \<Rightarrow> string list \<Rightarrow> world
    \<Rightarrow> int \<times> ('cert, 'pool) main_event list \<times> Scheduler option" where
  "main e args w =
     (case Parse (me_others e) args default_options of
        Inl err \<Rightarrow> (flag_exit err, [], None)
      | Inr (opts, _) \<Rightarrow>
          let tr = [SetLogger (parse_log_level (logLevel opts))] in
          if \<not> me_GetConfig e then (1, tr, None)
          else let tr = tr @ [NewControllerManager (metricsAddr opts) (probeAddr opts)] in
          if \<not> me_NewManager e then (1, tr, None)
          else let s = initial_scheduler (me_hostname e) w in
          if \<not> me_SetupValve e then (1, tr, Some s)
          else let tr = tr @ [RegisterValveController] in
          if \<not> me_SetupBridge e then (1, tr, Some s)
          else let tr = tr @ [RegisterBridgeController] in
          if \<not> me_AddHealthz e then (1, tr, Some s)
          else let tr = tr @ [AddHealthzCheck] in
          if \<not> me_AddReadyz e then (1, tr, Some s)
          else let tr = tr @ [AddReadyzCheck] in
          (case TLSConfig (me_LoadX509KeyPair e) (me_ReadFile e) (me_CertPool e)
                  (tlsCert opts) (tlsKey opts) (tlsClientCA opts) of
             Inl _ \<Rightarrow> (1, tr, Some s)
           | Inr cfg \<Rightarrow>
               let tr = tr @ [ServeAPI (apiAddr opts) cfg, RunManager] in
               (case me_Start e s of
                  (False, s) \<Rightarrow> (1, tr, Some s)
                | (True, s) \<Rightarrow> (0, tr @ [ShutdownAPI, StopAllBridges], Some (stop_bridges (me_bridge_names e) s)))))"

lemmas main_branches = prod.splits bool.splits sum.splits if_splits


definition demo_env :: "(string, string) main_env" where
  "demo_env =
     \<lparr> me_others = (\<lambda>n. n = ''kubeconfig''), me_hostname = '''', me_GetConfig = True, me_NewManager = True,
       me_SetupValve = True, me_SetupBridge = True, me_AddHealthz = True, me_AddReadyz = True,
       me_LoadX509KeyPair = (\<lambda>c k. Some (c @ k)), me_ReadFile = (\<lambda>f. Some f), me_CertPool = (\<lambda>pem. Some pem),
       me_Start = (\<lambda>s. (True, s)), me_bridge_names = [] \<rparr>"


text \<open>
  The bridges are disconnected only after the manager ended without error and after the
  API's shutdown, and then every bridge of the manager is reported disconnected.
\<close>

lemma disconnects_stay:
  "m_MQTTConnectionState m n = Some 0 \<Longrightarrow>
   m_MQTTConnectionState (fold (\<lambda>n m. case bs n of None \<Rightarrow> m | Some bc \<Rightarrow> Disconnect bc m) names m) n = Some 0"
  by (induction names arbitrary: m) (auto simp: Disconnect_def split: option.splits)

lemma StopAll_gauges:
  assumes "k \<in> set names" "mgr_bridges mgr k = Some bc"
  shows "m_MQTTConnectionState (snd (StopAll names mgr m)) (bcf_BridgeName (bc_cfg bc)) = Some 0"
  using assms(1)
  by (simp add: StopAll_def, induction names arbitrary: m)
    (auto simp: Disconnect_def assms(2) disconnects_stay)

lemma main_clean_exit:
  assumes "main e args w = (code, tr, Some s)" "StopAllBridges \<in> set tr"
  shows "code = 0 \<and> (\<exists>tr'. tr = tr' @ [RunManager, ShutdownAPI, StopAllBridges]) \<and> mgr_bridges (w_mgr (s_world s)) = Map.empty"
  using assms
  by (auto simp: main_def Let_def stop_bridges_def StopAll_def split: main_branches)

end
